(* ===== verification/Go_Base.thy ===== *)
theory Go_Base
  imports Main "HOL-Library.Word"
begin

text \<open>
  The prelude of the development: the Go types the program uses (bytes, fixed-width
  integers, strings as byte sequences), errors and panics as values, the built-in
  \<open>copy\<close> and the slice expressions the generated code writes with, \<open>sync.Pool\<close>,
  big-endian 32-bit integers (\<open>encoding/binary\<close>), and the lemmas on lists and words that
  the components share.

  A Go slice is modelled by its visible elements: \<open>nil\<close> and an empty slice are the same list.
  The length of a Go slice is below \<open>2 ^ 63\<close>; the theorems that depend on it say so.
\<close>

unbundle bit_operations_syntax

section \<open>Types\<close>

type_synonym byte = "8 word"
type_synonym u16 = "16 word"
type_synonym u32 = "32 word"
type_synonym u64 = "64 word"
type_synonym bytes = "byte list"

text \<open>A Go string is a sequence of bytes.\<close>

type_synonym gostring = "byte list"

text \<open>Writing a Go string literal from an Isabelle one.\<close>

definition gostr :: "string \<Rightarrow> gostring" where
  "gostr s = map of_char s"

section \<open>Errors, panics and results\<close>

text \<open>
  The errors that the program returns or receives: the sentinel errors of the generated code
  (\<open>protohelpers\<close>, \<open>io\<close>), the formatted ones of \<open>UnmarshalVT\<close>, the sentinels of
  \<open>transport/types\<close> and \<open>client.go\<close>, the two QUIC errors that the read loops test for, the
  two context errors, and any other error of a library.
\<close>

datatype go_error =
    ErrIntOverflow
  | ErrInvalidLength
  | ErrUnexpectedEOF
  | ErrEOF
  | ErrEndGroup string
  | ErrIllegalTag string u32 u64
  | ErrWrongWireType u64 string
  | StreamsListIsEmpty
  | ErrClientClosed
  | IdleTimeoutError
  | ApplicationError
  | ContextCanceled
  | DeadlineExceeded
  | OtherError string

datatype go_panic =
    IndexOutOfRange | SliceBounds | NilDereference | TypeAssertion | DivideByZero
  | MakeSliceLen | InvalidArgument | PanicError go_error

text \<open>
  What a call does: return a value, return an error, panic, or never return.
\<close>

datatype 'a outcome = Ok 'a | Err go_error | Panic go_panic | Diverge

definition obind :: "'a outcome \<Rightarrow> ('a \<Rightarrow> 'b outcome) \<Rightarrow> 'b outcome" where
  "obind m f = (case m of Ok x \<Rightarrow> f x | Err e \<Rightarrow> Err e | Panic p \<Rightarrow> Panic p | Diverge \<Rightarrow> Diverge)"

fun of_result :: "go_error + 'a \<Rightarrow> 'a outcome" where
  "of_result (Inl e) = Err e"
| "of_result (Inr x) = Ok x"

definition returns :: "'a outcome \<Rightarrow> bool" where
  "returns r \<longleftrightarrow> (case r of Ok _ \<Rightarrow> True | Err _ \<Rightarrow> True | Panic _ \<Rightarrow> False | Diverge \<Rightarrow> False)"

section \<open>Slices\<close>

text \<open>\<open>d[a:b]\<close> for \<open>a \<le> b \<le> len(d)\<close>.\<close>

definition slice :: "'a list \<Rightarrow> nat \<Rightarrow> nat \<Rightarrow> 'a list" where
  "slice d a b = take (b - a) (drop a d)"

text \<open>The slice expression \<open>d[a:b]\<close>, with its bounds check.\<close>

definition slice_expr :: "'a list \<Rightarrow> nat \<Rightarrow> nat \<Rightarrow> 'a list outcome" where
  "slice_expr d a b = (if a \<le> b \<and> b \<le> length d then Ok (slice d a b) else Panic SliceBounds)"

text \<open>\<open>copy(d[i:], src)\<close> for \<open>i \<le> len(d)\<close>: as many elements as both have.\<close>

definition go_copy :: "'a list \<Rightarrow> nat \<Rightarrow> 'a list \<Rightarrow> 'a list" where
  "go_copy d i src = take i d @ take (length d - i) src @ drop (i + length src) d"

text \<open>
  The two write idioms of the generated marshallers, which fill a buffer from its end:
  \<open>i -= len(src); copy(d[i:], src)\<close>, and \<open>i--; d[i] = b\<close>. A negative index panics.
\<close>

definition back_copy :: "bytes \<Rightarrow> nat \<Rightarrow> bytes \<Rightarrow> (bytes \<times> nat) outcome" where
  "back_copy d i src =
     (if length src \<le> i \<and> i - length src \<le> length d
      then Ok (go_copy d (i - length src) src, i - length src)
      else Panic SliceBounds)"

definition back_byte :: "bytes \<Rightarrow> nat \<Rightarrow> byte \<Rightarrow> (bytes \<times> nat) outcome" where
  "back_byte d i b =
     (if 1 \<le> i \<and> i - 1 < length d then Ok (d[i - 1 := b], i - 1) else Panic IndexOutOfRange)"

section \<open>encoding/binary: big-endian 32-bit integers\<close>

definition PutUint32 :: "u32 \<Rightarrow> bytes" where
  "PutUint32 v = [ucast (drop_bit 24 v), ucast (drop_bit 16 v), ucast (drop_bit 8 v), ucast v]"

definition BigEndian_Uint32 :: "bytes \<Rightarrow> u32" where
  "BigEndian_Uint32 b =
     ucast (b ! 3) OR push_bit 8 (ucast (b ! 2)) OR push_bit 16 (ucast (b ! 1)) OR
     push_bit 24 (ucast (b ! 0))"

section \<open>sync.Pool\<close>

text \<open>
  \<open>Get\<close> selects an arbitrary item of the pool, removes it and returns it, and may ignore the
  pool and call \<open>New\<close>: the choice \<open>k\<close> is an argument, and a choice beyond the pool's items
  stands for calling \<open>New\<close>.
\<close>

definition pool_get :: "nat \<Rightarrow> 'a \<Rightarrow> 'a list \<Rightarrow> 'a \<times> 'a list" where
  "pool_get k new pool =
     (if k < length pool then (pool ! k, take k pool @ drop (Suc k) pool) else (new, pool))"

definition pool_put :: "'a \<Rightarrow> 'a list \<Rightarrow> 'a list" where
  "pool_put x pool = x # pool"

section \<open>Shared lemmas\<close>

named_theorems go_slice \<open>rewriting of slices and buffers\<close>

lemma obind_simps [simp]:
  "obind (Ok x) f = f x"
  "obind (Err e) f = Err e"
  "obind (Panic p) f = Panic p"
  "obind Diverge f = Diverge"
  by (simp_all add: obind_def)

lemma obind_eq_Ok: "obind m f = Ok y \<longleftrightarrow> (\<exists>x. m = Ok x \<and> f x = Ok y)"
  by (cases m) auto

lemma obind_eq_Err: "obind m f = Err e \<longleftrightarrow> m = Err e \<or> (\<exists>x. m = Ok x \<and> f x = Err e)"
  by (cases m) auto

lemma obind_assoc: "obind (obind m f) g = obind m (\<lambda>x. obind (f x) g)"
  by (cases m) auto

lemma returns_simps [simp]:
  "returns (Ok x)" "returns (Err e)" "\<not> returns (Panic p)" "\<not> returns Diverge"
  by (simp_all add: returns_def)

lemma returns_obindI: "returns m \<Longrightarrow> (\<And>x. m = Ok x \<Longrightarrow> returns (f x)) \<Longrightarrow> returns (obind m f)"
  by (cases m) auto

lemma slice_append [go_slice]:
  "slice (xs @ ys @ zs) (length xs) (length xs + length ys) = ys"
  by (simp add: slice_def)

lemma length_slice [simp]: "a \<le> b \<Longrightarrow> b \<le> length d \<Longrightarrow> length (slice d a b) = b - a"
  by (simp add: slice_def)

lemma length_go_copy [simp]: "i \<le> length d \<Longrightarrow> length (go_copy d i src) = length d"
  by (simp add: go_copy_def)

lemma go_copy_split [go_slice]:
  "length xs = i \<Longrightarrow> length ys = length src \<Longrightarrow> go_copy (xs @ ys @ zs) i src = xs @ src @ zs"
  by (simp add: go_copy_def)

text \<open>
  The shape of a marshaller's buffer: a part not written yet, then the bytes written so far.
  Writing backwards moves bytes from the first part to the second.
\<close>

lemma back_copy_append:
  assumes "length src \<le> length d"
  shows "back_copy (d @ t) (length d) src =
    Ok (take (length d - length src) d @ src @ t, length d - length src)"
proof -
  let ?i = "length d - length src"
  have "go_copy (d @ t) ?i src = go_copy (take ?i d @ drop ?i d @ t) ?i src"
    by (simp flip: append_assoc)
  also have "\<dots> = take ?i d @ src @ t"
    using assms by (intro go_copy_split) auto
  finally show ?thesis
    using assms by (simp add: back_copy_def)
qed

lemma back_byte_append:
  assumes "d \<noteq> []"
  shows "back_byte (d @ t) (length d) b = Ok (butlast d @ b # t, length d - 1)"
proof -
  obtain d' x where "d = d' @ [x]"
    using assms by (metis rev_exhaust)
  then show ?thesis
    by (simp add: back_byte_def)
qed

lemma pool_get_in: "x = fst (pool_get k new pool) \<Longrightarrow> x = new \<or> x \<in> set pool"
  by (auto simp: pool_get_def split: if_splits)

lemma pool_get_rest: "set (snd (pool_get k new pool)) \<subseteq> set pool"
  by (auto simp: pool_get_def dest: in_set_takeD in_set_dropD)

lemma unat_u64_of_nat: "n < 2 ^ 64 \<Longrightarrow> unat (word_of_nat n :: u64) = n"
  by (simp add: unsigned_of_nat take_bit_nat_eq_self)

lemma unat_u64_less: "unat (v :: u64) < 2 ^ 64"
  using unsigned_less [of v] by simp

lemma unat_u16_less: "unat (v :: u16) < 2 ^ 16"
  using unsigned_less [of v] by simp

lemma unat_u32_less: "unat (v :: u32) < 2 ^ 32"
  using unsigned_less [of v] by simp

lemma unat_u32_of_nat: "n < 2 ^ 32 \<Longrightarrow> unat (word_of_nat n :: u32) = n"
  by (simp add: unsigned_of_nat take_bit_nat_eq_self)

subsection \<open>Big-endian round trip\<close>

lemma length_PutUint32 [simp]: "length (PutUint32 v) = 4"
  by (simp add: PutUint32_def)

lemma BigEndian_PutUint32 [simp]: "BigEndian_Uint32 (PutUint32 v @ r) = v"
proof (rule bit_word_eqI)
  fix n :: nat
  assume n: "n < LENGTH(32)"
  consider "n < 8" | "8 \<le> n" "n < 16" | "16 \<le> n" "n < 24" | "24 \<le> n"
    by linarith
  then show "bit (BigEndian_Uint32 (PutUint32 v @ r)) n = bit v n"
    using n by cases (auto simp: BigEndian_Uint32_def PutUint32_def bit_simps)
qed

lemma BigEndian_PutUint32' [simp]: "BigEndian_Uint32 (PutUint32 v) = v"
  using BigEndian_PutUint32 [of v "[]"] by simp

end
