(* ===== verification/Proto_Schema.thy ===== *)
theory Proto_Schema
  imports Go_Base
begin

text \<open>
  The two messages of \<open>protos/schema.proto\<close> as \<open>protos/pb/gen/schema.pb.go\<close> declares them:
  the structs, \<open>Reset\<close> and the accessors, which return the zero value on a nil receiver
  (modelled as \<open>None\<close>). The fields \<open>state\<close> and \<open>sizeCache\<close> belong to the protobuf runtime,
  carry no data of the message, and are left out.
\<close>

section \<open>Request\<close>

record request =
  rq_RequestId :: u64
  rq_Headers :: "bytes list"
  rq_Method :: bytes
  rq_Body :: bytes
  rq_unknownFields :: bytes

definition Request_Reset :: "request \<Rightarrow> request" where
  "Request_Reset x =
     \<lparr>rq_RequestId = 0, rq_Headers = [], rq_Method = [], rq_Body = [], rq_unknownFields = []\<rparr>"

text \<open>\<open>&gen.Request{}\<close>: the zero value.\<close>

definition Request_zero :: request where
  "Request_zero =
     \<lparr>rq_RequestId = 0, rq_Headers = [], rq_Method = [], rq_Body = [], rq_unknownFields = []\<rparr>"

definition Request_GetRequestId :: "request option \<Rightarrow> u64" where
  "Request_GetRequestId x = (case x of None \<Rightarrow> 0 | Some m \<Rightarrow> rq_RequestId m)"

definition Request_GetHeaders :: "request option \<Rightarrow> bytes list" where
  "Request_GetHeaders x = (case x of None \<Rightarrow> [] | Some m \<Rightarrow> rq_Headers m)"

definition Request_GetMethod :: "request option \<Rightarrow> bytes" where
  "Request_GetMethod x = (case x of None \<Rightarrow> [] | Some m \<Rightarrow> rq_Method m)"

definition Request_GetBody :: "request option \<Rightarrow> bytes" where
  "Request_GetBody x = (case x of None \<Rightarrow> [] | Some m \<Rightarrow> rq_Body m)"

section \<open>Response\<close>

record response =
  rs_RequestId :: u64
  rs_Code :: u32
  rs_Headers :: "bytes list"
  rs_Method :: bytes
  rs_Body :: bytes
  rs_unknownFields :: bytes

definition Response_Reset :: "response \<Rightarrow> response" where
  "Response_Reset x =
     \<lparr>rs_RequestId = 0, rs_Code = 0, rs_Headers = [], rs_Method = [], rs_Body = [],
      rs_unknownFields = []\<rparr>"

text \<open>\<open>&gen.Response{}\<close>: the zero value.\<close>

definition Response_zero :: response where
  "Response_zero =
     \<lparr>rs_RequestId = 0, rs_Code = 0, rs_Headers = [], rs_Method = [], rs_Body = [],
      rs_unknownFields = []\<rparr>"

definition Response_GetRequestId :: "response option \<Rightarrow> u64" where
  "Response_GetRequestId x = (case x of None \<Rightarrow> 0 | Some m \<Rightarrow> rs_RequestId m)"

definition Response_GetCode :: "response option \<Rightarrow> u32" where
  "Response_GetCode x = (case x of None \<Rightarrow> 0 | Some m \<Rightarrow> rs_Code m)"

definition Response_GetHeaders :: "response option \<Rightarrow> bytes list" where
  "Response_GetHeaders x = (case x of None \<Rightarrow> [] | Some m \<Rightarrow> rs_Headers m)"

definition Response_GetMethod :: "response option \<Rightarrow> bytes" where
  "Response_GetMethod x = (case x of None \<Rightarrow> [] | Some m \<Rightarrow> rs_Method m)"

definition Response_GetBody :: "response option \<Rightarrow> bytes" where
  "Response_GetBody x = (case x of None \<Rightarrow> [] | Some m \<Rightarrow> rs_Body m)"

section \<open>Lemmas\<close>

lemma Request_Reset_zero [simp]: "Request_Reset x = Request_zero"
  by (simp add: Request_Reset_def Request_zero_def)

lemma Response_Reset_zero [simp]: "Response_Reset x = Response_zero"
  by (simp add: Response_Reset_def Response_zero_def)

lemma Request_zero_fields [simp]:
  "rq_RequestId Request_zero = 0" "rq_Headers Request_zero = []" "rq_Method Request_zero = []"
  "rq_Body Request_zero = []" "rq_unknownFields Request_zero = []"
  by (simp_all add: Request_zero_def)

lemma Response_zero_fields [simp]:
  "rs_RequestId Response_zero = 0" "rs_Code Response_zero = 0" "rs_Headers Response_zero = []"
  "rs_Method Response_zero = []" "rs_Body Response_zero = []" "rs_unknownFields Response_zero = []"
  by (simp_all add: Response_zero_def)

end
