(* ===== verification/Vt_Wire.thy ===== *)
theory Vt_Wire
  imports Proto_Schema
begin

text \<open>
  The protobuf wire format that the generated code (\<open>schema_vtproto.pb.go\<close>) writes and reads,
  and the interface to the package \<open>protohelpers\<close> that it calls. That package is not part of the
  repository, so its three functions are a parameter (the record \<open>protohelpers\<close>), and the
  locales \<open>vt_helpers\<close> and \<open>vt_helpers_skip\<close> state the documented behaviour relied on:
  base-128 varints, written so that they end at the given offset, and a \<open>Skip\<close> that returns the
  length of the first record.

  \<open>uvarint\<close>, \<open>enc_bytes\<close>, \<open>enc_varint\<close>, \<open>enc_request\<close> and \<open>enc_response\<close> are the
  abstract specification: the bytes of a message as the wire format defines them.
\<close>

section \<open>The package protohelpers\<close>

record protohelpers =
  EncodeVarint :: "bytes \<Rightarrow> nat \<Rightarrow> u64 \<Rightarrow> (bytes \<times> nat) outcome"
  SizeOfVarint :: "u64 \<Rightarrow> nat"
  Skip :: "bytes \<Rightarrow> go_error + u64"

section \<open>Specification of the wire format\<close>

text \<open>Base-128, least significant group first, the high bit set on all bytes but the last.\<close>

fun venc :: "nat \<Rightarrow> bytes" where
  "venc v = (if v < 128 then [word_of_nat v] else word_of_nat (v mod 128 + 128) # venc (v div 128))"

declare venc.simps [simp del]

definition uvarint :: "u64 \<Rightarrow> bytes" where
  "uvarint v = venc (unat v)"

text \<open>A length-delimited field and a varint field, each after its tag byte.\<close>

definition enc_bytes :: "byte \<Rightarrow> bytes \<Rightarrow> bytes" where
  "enc_bytes tag v = tag # venc (length v) @ v"

definition enc_varint :: "byte \<Rightarrow> u64 \<Rightarrow> bytes" where
  "enc_varint tag v = tag # uvarint v"

text \<open>Scalar fields with the zero value are not on the wire.\<close>

definition enc_opt_bytes :: "byte \<Rightarrow> bytes \<Rightarrow> bytes" where
  "enc_opt_bytes tag v = (if v = [] then [] else enc_bytes tag v)"

definition enc_opt_varint :: "byte \<Rightarrow> u64 \<Rightarrow> bytes" where
  "enc_opt_varint tag v = (if v = 0 then [] else enc_varint tag v)"

definition enc_headers :: "bytes list \<Rightarrow> bytes" where
  "enc_headers hs = concat (map (enc_bytes 0x0a) hs)"

definition enc_request :: "request \<Rightarrow> bytes" where
  "enc_request m =
     enc_headers (rq_Headers m) @ enc_opt_bytes 0x12 (rq_Method m) @
     enc_opt_varint 0x18 (rq_RequestId m) @ enc_opt_bytes 0x22 (rq_Body m) @ rq_unknownFields m"

definition enc_response :: "response \<Rightarrow> bytes" where
  "enc_response m =
     enc_headers (rs_Headers m) @ enc_opt_bytes 0x12 (rs_Method m) @
     enc_opt_varint 0x18 (rs_RequestId m) @ enc_opt_bytes 0x22 (rs_Body m) @
     enc_opt_varint 0x28 (ucast (rs_Code m)) @ rs_unknownFields m"

text \<open>What a Go process can hold: the encoded message is shorter than \<open>2 ^ 63\<close> bytes.\<close>

definition request_fits :: "request \<Rightarrow> bool" where
  "request_fits m \<longleftrightarrow> length (enc_request m) < 2 ^ 63"

definition response_fits :: "response \<Rightarrow> bool" where
  "response_fits m \<longleftrightarrow> length (enc_response m) < 2 ^ 63"

section \<open>Lemmas on varints\<close>

lemma venc_small: "v < 128 \<Longrightarrow> venc v = [word_of_nat v]"
  by (simp add: venc.simps)

lemma venc_large: "128 \<le> v \<Longrightarrow> venc v = word_of_nat (v mod 128 + 128) # venc (v div 128)"
  by (simp add: venc.simps [of v])

lemma venc_nonempty [simp]: "venc v \<noteq> []"
  by (subst venc.simps) simp

lemma length_venc_pos: "0 < length (venc v)"
  by simp

lemma length_venc_le: "v < 2 ^ (7 * k) \<Longrightarrow> 0 < k \<Longrightarrow> length (venc v) \<le> k"
proof (induction k arbitrary: v)
  case 0
  then show ?case by simp
next
  case (Suc k)
  show ?case
  proof (cases "v < 128")
    case True
    then show ?thesis by (simp add: venc_small)
  next
    case False
    with Suc.prems have k: "0 < k" by (cases k) auto
    have "v < 2 ^ (7 * k) * 2 ^ 7"
      using Suc.prems(1) by (simp add: power_add mult.commute)
    then have "v div 128 < 2 ^ (7 * k)"
      by (simp add: less_mult_imp_div_less)
    with Suc.IH k have "length (venc (v div 128)) \<le> k" by blast
    with False show ?thesis by (simp add: venc_large)
  qed
qed

lemma length_uvarint_le: "length (uvarint v) \<le> 10"
proof -
  have "unat v < 2 ^ 64" by (rule unat_u64_less)
  then have "unat v < 2 ^ (7 * 10)"
    by (rule less_le_trans) simp
  then show ?thesis
    unfolding uvarint_def by (rule length_venc_le) simp
qed

lemma uvarint_of_nat: "n < 2 ^ 64 \<Longrightarrow> uvarint (word_of_nat n) = venc n"
  by (simp add: uvarint_def unat_u64_of_nat)

lemma enc_bytes_length_le: "length v \<le> length (enc_bytes tag v)"
  by (simp add: enc_bytes_def)

section \<open>The contract of the package protohelpers\<close>

locale vt_helpers =
  fixes ph :: protohelpers
  assumes EncodeVarint_spec:
    "length (uvarint v) \<le> length d \<Longrightarrow>
     EncodeVarint ph (d @ t) (length d) v =
       Ok (take (length d - length (uvarint v)) d @ uvarint v @ t, length d - length (uvarint v))"
    and SizeOfVarint_spec: "SizeOfVarint ph v = length (uvarint v)"

locale vt_helpers_skip = vt_helpers +
  assumes Skip_positive: "length d < 2 ^ 63 \<Longrightarrow> Skip ph d = Inr n \<Longrightarrow> n \<noteq> 0"

end
