(* ===== verification/Vt_Marshal.thy ===== *)
theory Vt_Marshal
  imports Vt_Wire
begin

text \<open>
  The marshalling half of \<open>protos/pb/gen/schema_vtproto.pb.go\<close>: \<open>SizeVT\<close>,
  \<open>MarshalToSizedBufferVT\<close>, \<open>MarshalToVT\<close> and \<open>MarshalVT\<close> of both messages. The buffer
  is filled from its end; the pair \<open>(d, i)\<close> is the buffer and the index of the first byte
  written, and an index that would become negative panics as the Go code does. A nil receiver
  is \<open>None\<close>. The theorems show that the code writes exactly the bytes of the specification in
  \<open>Vt_Wire\<close> and that \<open>SizeVT\<close> is their number, so the buffer never overflows.
\<close>

section \<open>SizeVT\<close>

definition size_bytes_field :: "protohelpers \<Rightarrow> bytes \<Rightarrow> nat" where
  "size_bytes_field ph b =
     (let l = length b in 1 + l + SizeOfVarint ph (word_of_nat l))"

fun size_headers :: "protohelpers \<Rightarrow> bytes list \<Rightarrow> nat" where
  "size_headers ph [] = 0"
| "size_headers ph (b # bs) = size_bytes_field ph b + size_headers ph bs"

definition Request_SizeVT :: "protohelpers \<Rightarrow> request option \<Rightarrow> nat" where
  "Request_SizeVT ph x =
     (case x of None \<Rightarrow> 0
      | Some m \<Rightarrow>
          size_headers ph (rq_Headers m) +
          (if length (rq_Method m) > 0 then size_bytes_field ph (rq_Method m) else 0) +
          (if rq_RequestId m \<noteq> 0 then 1 + SizeOfVarint ph (rq_RequestId m) else 0) +
          (if length (rq_Body m) > 0 then size_bytes_field ph (rq_Body m) else 0) +
          length (rq_unknownFields m))"

definition Response_SizeVT :: "protohelpers \<Rightarrow> response option \<Rightarrow> nat" where
  "Response_SizeVT ph x =
     (case x of None \<Rightarrow> 0
      | Some m \<Rightarrow>
          size_headers ph (rs_Headers m) +
          (if length (rs_Method m) > 0 then size_bytes_field ph (rs_Method m) else 0) +
          (if rs_RequestId m \<noteq> 0 then 1 + SizeOfVarint ph (rs_RequestId m) else 0) +
          (if length (rs_Body m) > 0 then size_bytes_field ph (rs_Body m) else 0) +
          (if rs_Code m \<noteq> 0 then 1 + SizeOfVarint ph (ucast (rs_Code m)) else 0) +
          length (rs_unknownFields m))"

section \<open>MarshalToSizedBufferVT\<close>

text \<open>
  The two kinds of field: \<open>i -= len(v); copy(dAtA[i:], v); i = EncodeVarint(dAtA, i, len(v));
  i--; dAtA[i] = tag\<close>, and \<open>i = EncodeVarint(dAtA, i, v); i--; dAtA[i] = tag\<close>.
\<close>

type_synonym mbuf = "bytes \<times> nat"

definition marshal_bytes_field :: "protohelpers \<Rightarrow> byte \<Rightarrow> bytes \<Rightarrow> mbuf \<Rightarrow> mbuf outcome" where
  "marshal_bytes_field ph tag v s =
     obind (back_copy (fst s) (snd s) v) (\<lambda>(d, i).
     obind (EncodeVarint ph d i (word_of_nat (length v))) (\<lambda>(d, i).
     back_byte d i tag))"

definition marshal_varint_field :: "protohelpers \<Rightarrow> byte \<Rightarrow> u64 \<Rightarrow> mbuf \<Rightarrow> mbuf outcome" where
  "marshal_varint_field ph tag v s =
     obind (EncodeVarint ph (fst s) (snd s) v) (\<lambda>(d, i). back_byte d i tag)"

text \<open>The headers are written from the last to the first.\<close>

fun marshal_headers :: "protohelpers \<Rightarrow> bytes list \<Rightarrow> mbuf \<Rightarrow> mbuf outcome" where
  "marshal_headers ph [] s = Ok s"
| "marshal_headers ph (h # hs) s =
     obind (marshal_headers ph hs s) (marshal_bytes_field ph 0x0a h)"

definition Request_MarshalToSizedBufferVT ::
    "protohelpers \<Rightarrow> request option \<Rightarrow> bytes \<Rightarrow> (bytes \<times> nat) outcome" where
  "Request_MarshalToSizedBufferVT ph x dAtA =
     (case x of None \<Rightarrow> Ok (dAtA, 0)
      | Some m \<Rightarrow>
          obind (back_copy dAtA (length dAtA) (rq_unknownFields m)) (\<lambda>s.
          obind (if length (rq_Body m) > 0
                 then marshal_bytes_field ph 0x22 (rq_Body m) s else Ok s) (\<lambda>s.
          obind (if rq_RequestId m \<noteq> 0
                 then marshal_varint_field ph 0x18 (rq_RequestId m) s else Ok s) (\<lambda>s.
          obind (if length (rq_Method m) > 0
                 then marshal_bytes_field ph 0x12 (rq_Method m) s else Ok s) (\<lambda>s.
          obind (if length (rq_Headers m) > 0
                 then marshal_headers ph (rq_Headers m) s else Ok s) (\<lambda>(d, i).
          Ok (d, length d - i)))))))"

definition Response_MarshalToSizedBufferVT ::
    "protohelpers \<Rightarrow> response option \<Rightarrow> bytes \<Rightarrow> (bytes \<times> nat) outcome" where
  "Response_MarshalToSizedBufferVT ph x dAtA =
     (case x of None \<Rightarrow> Ok (dAtA, 0)
      | Some m \<Rightarrow>
          obind (back_copy dAtA (length dAtA) (rs_unknownFields m)) (\<lambda>s.
          obind (if rs_Code m \<noteq> 0
                 then marshal_varint_field ph 0x28 (ucast (rs_Code m)) s else Ok s) (\<lambda>s.
          obind (if length (rs_Body m) > 0
                 then marshal_bytes_field ph 0x22 (rs_Body m) s else Ok s) (\<lambda>s.
          obind (if rs_RequestId m \<noteq> 0
                 then marshal_varint_field ph 0x18 (rs_RequestId m) s else Ok s) (\<lambda>s.
          obind (if length (rs_Method m) > 0
                 then marshal_bytes_field ph 0x12 (rs_Method m) s else Ok s) (\<lambda>s.
          obind (if length (rs_Headers m) > 0
                 then marshal_headers ph (rs_Headers m) s else Ok s) (\<lambda>(d, i).
          Ok (d, length d - i))))))))"

section \<open>MarshalToVT and MarshalVT\<close>

text \<open>
  \<open>MarshalToVT\<close> writes into the first \<open>SizeVT\<close> bytes of the caller's buffer and panics when it
  is too short (its capacity is taken to be its length); \<open>MarshalVT\<close> allocates the buffer.
\<close>

definition Request_MarshalToVT ::
    "protohelpers \<Rightarrow> request option \<Rightarrow> bytes \<Rightarrow> (bytes \<times> nat) outcome" where
  "Request_MarshalToVT ph x dAtA =
     (let size = Request_SizeVT ph x in
      if length dAtA < size then Panic SliceBounds
      else obind (Request_MarshalToSizedBufferVT ph x (take size dAtA)) (\<lambda>(d, n).
           Ok (d @ drop size dAtA, n)))"

definition Response_MarshalToVT ::
    "protohelpers \<Rightarrow> response option \<Rightarrow> bytes \<Rightarrow> (bytes \<times> nat) outcome" where
  "Response_MarshalToVT ph x dAtA =
     (let size = Response_SizeVT ph x in
      if length dAtA < size then Panic SliceBounds
      else obind (Response_MarshalToSizedBufferVT ph x (take size dAtA)) (\<lambda>(d, n).
           Ok (d @ drop size dAtA, n)))"

definition Request_MarshalVT :: "protohelpers \<Rightarrow> request option \<Rightarrow> bytes outcome" where
  "Request_MarshalVT ph x =
     (case x of None \<Rightarrow> Ok []
      | Some m \<Rightarrow>
          let size = Request_SizeVT ph x in
          obind (Request_MarshalToSizedBufferVT ph x (replicate size 0)) (\<lambda>(d, n). Ok (take n d)))"

definition Response_MarshalVT :: "protohelpers \<Rightarrow> response option \<Rightarrow> bytes outcome" where
  "Response_MarshalVT ph x =
     (case x of None \<Rightarrow> Ok []
      | Some m \<Rightarrow>
          let size = Response_SizeVT ph x in
          obind (Response_MarshalToSizedBufferVT ph x (replicate size 0)) (\<lambda>(d, n). Ok (take n d)))"

section \<open>Writers that emit a byte string\<close>

text \<open>
  A writer emits \<open>e\<close> when, given room, it puts the bytes \<open>e\<close> right before what is already
  written and moves the index down by their number.
\<close>

definition emits :: "(mbuf \<Rightarrow> mbuf outcome) \<Rightarrow> bytes \<Rightarrow> bool" where
  "emits f e \<longleftrightarrow>
     (\<forall>d t. length e \<le> length d \<longrightarrow>
        f (d @ t, length d) = Ok (take (length d - length e) d @ e @ t, length d - length e))"

lemma emitsD:
  "emits f e \<Longrightarrow> length e \<le> length d \<Longrightarrow>
   f (d @ t, length d) = Ok (take (length d - length e) d @ e @ t, length d - length e)"
  by (simp add: emits_def)

lemma emits_id: "emits Ok []"
  by (simp add: emits_def)

lemma emits_bind:
  assumes f: "emits f e" and g: "emits g e'"
  shows "emits (\<lambda>s. obind (f s) g) (e' @ e)"
  unfolding emits_def
proof (intro allI impI)
  fix d t :: bytes
  assume le: "length (e' @ e) \<le> length d"
  let ?d = "take (length d - length e) d"
  have f': "f (d @ t, length d) = Ok (?d @ e @ t, length ?d)"
    using emitsD [OF f, of d t] le by simp
  have g': "g (?d @ e @ t, length ?d) =
      Ok (take (length ?d - length e') ?d @ e' @ e @ t, length ?d - length e')"
    using emitsD [OF g, of ?d "e @ t"] le by simp
  have "length ?d - length e' = length d - length (e' @ e)"
    and "take (length ?d - length e') ?d = take (length d - length (e' @ e)) d"
    using le by (simp_all add: add.commute)
  then show "obind (f (d @ t, length d)) g =
      Ok (take (length d - length (e' @ e)) d @ (e' @ e) @ t, length d - length (e' @ e))"
    by (simp only: f' g' obind_simps append_assoc)
qed

lemma emits_if: "emits f e \<Longrightarrow> emits (\<lambda>s. if b then f s else Ok s) (if b then e else [])"
  by (cases b) (auto simp: emits_def)

lemma emits_finish:
  assumes "emits w e" and "length e \<le> length d"
  shows "obind (w (d, length d)) (\<lambda>(d, i). Ok (d, length d - i)) =
    Ok (take (length d - length e) d @ e, length e)"
  using emitsD [OF assms(1), of d "[]"] assms(2) by simp

text \<open>The writers of the two messages, without the final subtraction.\<close>

definition request_writer :: "protohelpers \<Rightarrow> request \<Rightarrow> mbuf \<Rightarrow> mbuf outcome" where
  "request_writer ph m =
     (\<lambda>s. obind (back_copy (fst s) (snd s) (rq_unknownFields m)) (\<lambda>s.
          obind (if length (rq_Body m) > 0
                 then marshal_bytes_field ph 0x22 (rq_Body m) s else Ok s) (\<lambda>s.
          obind (if rq_RequestId m \<noteq> 0
                 then marshal_varint_field ph 0x18 (rq_RequestId m) s else Ok s) (\<lambda>s.
          obind (if length (rq_Method m) > 0
                 then marshal_bytes_field ph 0x12 (rq_Method m) s else Ok s) (\<lambda>s.
          if length (rq_Headers m) > 0 then marshal_headers ph (rq_Headers m) s else Ok s)))))"

definition response_writer :: "protohelpers \<Rightarrow> response \<Rightarrow> mbuf \<Rightarrow> mbuf outcome" where
  "response_writer ph m =
     (\<lambda>s. obind (back_copy (fst s) (snd s) (rs_unknownFields m)) (\<lambda>s.
          obind (if rs_Code m \<noteq> 0
                 then marshal_varint_field ph 0x28 (ucast (rs_Code m)) s else Ok s) (\<lambda>s.
          obind (if length (rs_Body m) > 0
                 then marshal_bytes_field ph 0x22 (rs_Body m) s else Ok s) (\<lambda>s.
          obind (if rs_RequestId m \<noteq> 0
                 then marshal_varint_field ph 0x18 (rs_RequestId m) s else Ok s) (\<lambda>s.
          obind (if length (rs_Method m) > 0
                 then marshal_bytes_field ph 0x12 (rs_Method m) s else Ok s) (\<lambda>s.
          if length (rs_Headers m) > 0 then marshal_headers ph (rs_Headers m) s else Ok s))))))"

lemma emits_back_copy: "emits (\<lambda>s. back_copy (fst s) (snd s) v) v"
  by (simp add: emits_def back_copy_append)

lemma emits_back_byte: "emits (\<lambda>s. back_byte (fst s) (snd s) b) [b]"
  unfolding emits_def
proof (intro allI impI)
  fix d t :: bytes
  assume "length [b] \<le> length d"
  then have "d \<noteq> []" by auto
  then show "back_byte (fst (d @ t, length d)) (snd (d @ t, length d)) b =
      Ok (take (length d - length [b]) d @ [b] @ t, length d - length [b])"
    by (simp add: back_byte_append butlast_conv_take)
qed

section \<open>Field lengths of a message that fits\<close>

lemma enc_headers_length_le: "h \<in> set hs \<Longrightarrow> length h \<le> length (enc_headers hs)"
  by (induction hs) (auto simp: enc_headers_def enc_bytes_def)

lemma enc_opt_bytes_length_le: "length v \<le> length (enc_opt_bytes tag v)"
  by (simp add: enc_opt_bytes_def enc_bytes_length_le)

lemma length_enc_bytes: "length (enc_bytes tag v) = Suc (length (venc (length v)) + length v)"
  by (simp add: enc_bytes_def)

lemma ucast_ucast_id_u32: "ucast (ucast (c :: u32) :: u64) = c"
  by (rule bit_word_eqI) (simp add: bit_simps)

lemma ucast_u32_eq_0: "(ucast (c :: u32) :: u64) = 0 \<longleftrightarrow> c = 0"
  by (metis ucast_0 ucast_ucast_id_u32)

lemma request_fitsD:
  assumes "request_fits m"
  shows "\<forall>h \<in> set (rq_Headers m). length h < 2 ^ 64"
    and "length (rq_Method m) < 2 ^ 64" and "length (rq_Body m) < 2 ^ 64"
proof -
  have le: "length (enc_headers (rq_Headers m)) < 2 ^ 64"
    "length (enc_opt_bytes 0x12 (rq_Method m)) < 2 ^ 64"
    "length (enc_opt_bytes 0x22 (rq_Body m)) < 2 ^ 64"
    using assms by (auto simp: request_fits_def enc_request_def)
  then show "\<forall>h \<in> set (rq_Headers m). length h < 2 ^ 64"
    by (meson enc_headers_length_le le_less_trans)
  show "length (rq_Method m) < 2 ^ 64" and "length (rq_Body m) < 2 ^ 64"
    using le(2,3) enc_opt_bytes_length_le le_less_trans by blast+
qed

lemma response_fitsD:
  assumes "response_fits m"
  shows "\<forall>h \<in> set (rs_Headers m). length h < 2 ^ 64"
    and "length (rs_Method m) < 2 ^ 64" and "length (rs_Body m) < 2 ^ 64"
proof -
  have le: "length (enc_headers (rs_Headers m)) < 2 ^ 64"
    "length (enc_opt_bytes 0x12 (rs_Method m)) < 2 ^ 64"
    "length (enc_opt_bytes 0x22 (rs_Body m)) < 2 ^ 64"
    using assms by (auto simp: response_fits_def enc_response_def)
  then show "\<forall>h \<in> set (rs_Headers m). length h < 2 ^ 64"
    by (meson enc_headers_length_le le_less_trans)
  show "length (rs_Method m) < 2 ^ 64" and "length (rs_Body m) < 2 ^ 64"
    using le(2,3) enc_opt_bytes_length_le le_less_trans by blast+
qed

section \<open>Correctness under the contract of protohelpers\<close>

context vt_helpers
begin

lemma emits_EncodeVarint: "emits (\<lambda>s. EncodeVarint ph (fst s) (snd s) v) (uvarint v)"
  by (simp add: emits_def EncodeVarint_spec)

lemma emits_varint_field: "emits (marshal_varint_field ph tag v) (enc_varint tag v)"
  using emits_bind [OF emits_EncodeVarint [of v] emits_back_byte [of tag]]
  by (simp add: marshal_varint_field_def [abs_def] enc_varint_def case_prod_unfold)

lemma emits_bytes_field:
  assumes "length v < 2 ^ 64"
  shows "emits (marshal_bytes_field ph tag v) (enc_bytes tag v)"
proof -
  let ?l = "word_of_nat (length v)"
  have "emits (\<lambda>s. obind (EncodeVarint ph (fst s) (snd s) ?l)
      (\<lambda>s. back_byte (fst s) (snd s) tag)) ([tag] @ uvarint ?l)"
    by (rule emits_bind [OF emits_EncodeVarint emits_back_byte])
  from emits_bind [OF emits_back_copy [of v] this] show ?thesis
    using assms
    by (simp add: marshal_bytes_field_def [abs_def] enc_bytes_def uvarint_of_nat case_prod_unfold)
qed

lemma emits_headers:
  assumes "\<forall>h \<in> set hs. length h < 2 ^ 64"
  shows "emits (marshal_headers ph hs) (enc_headers hs)"
  using assms
proof (induction hs)
  case Nil
  then show ?case by (simp add: emits_def enc_headers_def)
next
  case (Cons h hs)
  then have "emits (marshal_headers ph hs) (enc_headers hs)"
    and "emits (marshal_bytes_field ph 0x0a h) (enc_bytes 0x0a h)"
    by (auto intro: emits_bytes_field)
  from emits_bind [OF this] show ?case
    by (simp add: enc_headers_def emits_def)
qed

lemma size_bytes_field_eq: "length v < 2 ^ 64 \<Longrightarrow> size_bytes_field ph v = length (enc_bytes tag v)"
  by (simp add: size_bytes_field_def SizeOfVarint_spec enc_bytes_def uvarint_of_nat Let_def)

lemma size_headers_eq:
  "\<forall>h \<in> set hs. length h < 2 ^ 64 \<Longrightarrow> size_headers ph hs = length (enc_headers hs)"
  by (induction hs) (auto simp: enc_headers_def size_bytes_field_eq [where tag = "0x0a"])

lemma Request_SizeVT_eq:
  assumes "request_fits m"
  shows "Request_SizeVT ph (Some m) = length (enc_request m)"
  using request_fitsD [OF assms]
  by (simp add: Request_SizeVT_def enc_request_def enc_opt_bytes_def enc_opt_varint_def
      enc_varint_def SizeOfVarint_spec size_headers_eq size_bytes_field_eq [where tag = "0x12"]
      length_enc_bytes)

lemma Response_SizeVT_eq:
  assumes "response_fits m"
  shows "Response_SizeVT ph (Some m) = length (enc_response m)"
  using response_fitsD [OF assms]
  by (simp add: Response_SizeVT_def enc_response_def enc_opt_bytes_def enc_opt_varint_def
      enc_varint_def SizeOfVarint_spec size_headers_eq size_bytes_field_eq [where tag = "0x12"]
      length_enc_bytes ucast_u32_eq_0)

lemma emits_opt_bytes:
  "length v < 2 ^ 64 \<Longrightarrow>
   emits (\<lambda>s. if length v > 0 then marshal_bytes_field ph tag v s else Ok s) (enc_opt_bytes tag v)"
  using emits_if [OF emits_bytes_field, of v "length v > 0" tag]
  by (simp add: enc_opt_bytes_def if_distrib cong: if_cong)

lemma emits_opt_varint:
  "emits (\<lambda>s. if v \<noteq> 0 then marshal_varint_field ph tag v s else Ok s) (enc_opt_varint tag v)"
  using emits_if [OF emits_varint_field, of "v \<noteq> 0" tag v]
  by (simp add: enc_opt_varint_def if_distrib cong: if_cong)

lemma emits_opt_headers:
  "\<forall>h \<in> set hs. length h < 2 ^ 64 \<Longrightarrow>
   emits (\<lambda>s. if length hs > 0 then marshal_headers ph hs s else Ok s) (enc_headers hs)"
  using emits_headers [of hs] by (cases hs) (auto simp: emits_def)

lemma emits_code:
  "emits (\<lambda>s. if c \<noteq> 0 then marshal_varint_field ph tag (ucast c) s else Ok s)
     (enc_opt_varint tag (ucast (c :: u32)))"
  using emits_opt_varint [of "ucast c" tag] by (simp add: ucast_u32_eq_0)

lemma Request_MarshalToSizedBufferVT_eq:
  assumes "request_fits m" and "length (enc_request m) \<le> length d"
  shows "Request_MarshalToSizedBufferVT ph (Some m) d =
    Ok (take (length d - length (enc_request m)) d @ enc_request m, length (enc_request m))"
proof -
  note fits = request_fitsD [OF assms(1)]
  have "emits (request_writer ph m) (enc_request m)"
    unfolding request_writer_def enc_request_def append_assoc [symmetric]
    by (intro emits_bind emits_back_copy emits_opt_bytes emits_opt_varint emits_opt_headers fits)
  from emits_finish [OF this assms(2)] show ?thesis
    by (simp only: Request_MarshalToSizedBufferVT_def request_writer_def option.case obind_assoc
        fst_conv snd_conv)
qed

lemma Response_MarshalToSizedBufferVT_eq:
  assumes "response_fits m" and "length (enc_response m) \<le> length d"
  shows "Response_MarshalToSizedBufferVT ph (Some m) d =
    Ok (take (length d - length (enc_response m)) d @ enc_response m, length (enc_response m))"
proof -
  note fits = response_fitsD [OF assms(1)]
  have "emits (response_writer ph m) (enc_response m)"
    unfolding response_writer_def enc_response_def append_assoc [symmetric]
    by (intro emits_bind emits_back_copy emits_opt_bytes emits_opt_varint emits_opt_headers
        emits_code fits)
  from emits_finish [OF this assms(2)] show ?thesis
    by (simp only: Response_MarshalToSizedBufferVT_def response_writer_def option.case obind_assoc
        fst_conv snd_conv)
qed

end

end
