(* ===== verification/Vt_Unmarshal.thy ===== *)
theory Vt_Unmarshal
  imports Vt_Marshal
begin

text \<open>
  The unmarshalling half of \<open>protos/pb/gen/schema_vtproto.pb.go\<close>: \<open>UnmarshalVT\<close> of both
  messages, with every error return. Indices into the input are natural numbers; the varint
  accumulators and the additions that the code checks for overflow are 64-bit words read as
  signed (\<open>int\<close> in Go). On an error the partly filled message is not returned: every
  caller in the repository releases it.

  An iteration that succeeds without consuming a byte repeats for ever, since it also leaves
  the message as it is (\<open>Request_step_no_progress\<close>): that is the outcome \<open>Diverge\<close>.
\<close>

section \<open>The varint loop\<close>

text \<open>
  \<open>for shift := uint(0); ; shift += 7 { ... }\<close>, at the width of the variable it fills:
  \<open>uint64\<close> for tags and request ids, \<open>int\<close> for lengths, \<open>uint32\<close> for the response code.
\<close>

function varint_loop :: "bytes \<Rightarrow> nat \<Rightarrow> nat \<Rightarrow> 'w::len word \<Rightarrow> ('w word \<times> nat) outcome" where
  "varint_loop dAtA iNdEx shift acc =
     (if shift \<ge> 64 then Err ErrIntOverflow
      else if iNdEx \<ge> length dAtA then Err ErrUnexpectedEOF
      else
        let b = dAtA ! iNdEx;
            acc' = acc OR push_bit shift (ucast (b AND 0x7F))
        in if b < 0x80 then Ok (acc', iNdEx + 1)
           else varint_loop dAtA (iNdEx + 1) (shift + 7) acc')"
  by pat_completeness auto
termination
  by (relation "measure (\<lambda>(dAtA, iNdEx, shift, acc). 64 - shift)") auto

declare varint_loop.simps [simp del]

section \<open>The parts of an iteration\<close>

text \<open>The tag: \<open>fieldNum := int32(wire >> 3)\<close>, \<open>wireType := int(wire & 0x7)\<close>.\<close>

definition read_tag :: "string \<Rightarrow> bytes \<Rightarrow> nat \<Rightarrow> (u32 \<times> u64 \<times> nat) outcome" where
  "read_tag msg dAtA iNdEx =
     obind (varint_loop dAtA iNdEx 0 (0 :: u64)) (\<lambda>(wire, i).
       let fieldNum = ucast (drop_bit 3 wire) :: u32;
           wireType = wire AND 0x7
       in if wireType = 4 then Err (ErrEndGroup msg)
          else if sint fieldNum \<le> 0 then Err (ErrIllegalTag msg fieldNum wire)
          else Ok (fieldNum, wireType, i))"

text \<open>A length-delimited value: its length, the three checks, and the bytes.\<close>

definition read_bytes :: "bytes \<Rightarrow> nat \<Rightarrow> (bytes \<times> nat) outcome" where
  "read_bytes dAtA iNdEx =
     obind (varint_loop dAtA iNdEx 0 (0 :: u64)) (\<lambda>(byteLen, i).
       if sint byteLen < 0 then Err ErrInvalidLength
       else
         let postIndex = word_of_nat i + byteLen
         in if sint postIndex < 0 then Err ErrInvalidLength
            else if sint postIndex > int (length dAtA) then Err ErrUnexpectedEOF
            else obind (slice_expr dAtA i (unat postIndex)) (\<lambda>v. Ok (v, unat postIndex)))"

text \<open>An unknown field, from the start of its tag.\<close>

definition skip_field :: "protohelpers \<Rightarrow> bytes \<Rightarrow> nat \<Rightarrow> (bytes \<times> nat) outcome" where
  "skip_field ph dAtA iNdEx =
     obind (slice_expr dAtA iNdEx (length dAtA)) (\<lambda>rest.
     obind (of_result (Skip ph rest)) (\<lambda>skippy.
       let j = word_of_nat iNdEx + skippy
       in if sint skippy < 0 \<or> sint j < 0 then Err ErrInvalidLength
          else if sint j > int (length dAtA) then Err ErrUnexpectedEOF
          else obind (slice_expr dAtA iNdEx (unat j)) (\<lambda>v. Ok (v, unat j))))"

section \<open>The messages\<close>

text \<open>
  One iteration of the loop: the tag, then the switch on the field number. \<open>pre\<close> is
  \<open>preIndex\<close>, \<open>i\<close> the index after the tag.
\<close>

definition Request_field ::
    "protohelpers \<Rightarrow> bytes \<Rightarrow> nat \<Rightarrow> u32 \<Rightarrow> u64 \<Rightarrow> nat \<Rightarrow> request \<Rightarrow> (nat \<times> request) outcome" where
  "Request_field ph dAtA pre fieldNum wireType i m =
     (if fieldNum = 1 then
        (if wireType \<noteq> 2 then Err (ErrWrongWireType wireType ''Headers'')
         else obind (read_bytes dAtA i) (\<lambda>(v, j). Ok (j, m\<lparr>rq_Headers := rq_Headers m @ [v]\<rparr>)))
      else if fieldNum = 2 then
        (if wireType \<noteq> 2 then Err (ErrWrongWireType wireType ''Method'')
         else obind (read_bytes dAtA i) (\<lambda>(v, j). Ok (j, m\<lparr>rq_Method := v\<rparr>)))
      else if fieldNum = 3 then
        (if wireType \<noteq> 0 then Err (ErrWrongWireType wireType ''RequestId'')
         else obind (varint_loop dAtA i 0 0) (\<lambda>(v, j). Ok (j, m\<lparr>rq_RequestId := v\<rparr>)))
      else if fieldNum = 4 then
        (if wireType \<noteq> 2 then Err (ErrWrongWireType wireType ''Body'')
         else obind (read_bytes dAtA i) (\<lambda>(v, j). Ok (j, m\<lparr>rq_Body := v\<rparr>)))
      else
        obind (skip_field ph dAtA pre) (\<lambda>(v, j).
          Ok (j, m\<lparr>rq_unknownFields := rq_unknownFields m @ v\<rparr>)))"

definition Request_step ::
    "protohelpers \<Rightarrow> bytes \<Rightarrow> nat \<Rightarrow> request \<Rightarrow> (nat \<times> request) outcome" where
  "Request_step ph dAtA iNdEx m =
     obind (read_tag ''Request'' dAtA iNdEx) (\<lambda>(fieldNum, wireType, i).
       Request_field ph dAtA iNdEx fieldNum wireType i m)"

definition Response_field ::
    "protohelpers \<Rightarrow> bytes \<Rightarrow> nat \<Rightarrow> u32 \<Rightarrow> u64 \<Rightarrow> nat \<Rightarrow> response \<Rightarrow> (nat \<times> response) outcome" where
  "Response_field ph dAtA pre fieldNum wireType i m =
     (if fieldNum = 1 then
        (if wireType \<noteq> 2 then Err (ErrWrongWireType wireType ''Headers'')
         else obind (read_bytes dAtA i) (\<lambda>(v, j). Ok (j, m\<lparr>rs_Headers := rs_Headers m @ [v]\<rparr>)))
      else if fieldNum = 2 then
        (if wireType \<noteq> 2 then Err (ErrWrongWireType wireType ''Method'')
         else obind (read_bytes dAtA i) (\<lambda>(v, j). Ok (j, m\<lparr>rs_Method := v\<rparr>)))
      else if fieldNum = 3 then
        (if wireType \<noteq> 0 then Err (ErrWrongWireType wireType ''RequestId'')
         else obind (varint_loop dAtA i 0 0) (\<lambda>(v, j). Ok (j, m\<lparr>rs_RequestId := v\<rparr>)))
      else if fieldNum = 4 then
        (if wireType \<noteq> 2 then Err (ErrWrongWireType wireType ''Body'')
         else obind (read_bytes dAtA i) (\<lambda>(v, j). Ok (j, m\<lparr>rs_Body := v\<rparr>)))
      else if fieldNum = 5 then
        (if wireType \<noteq> 0 then Err (ErrWrongWireType wireType ''Code'')
         else obind (varint_loop dAtA i 0 0) (\<lambda>(v, j). Ok (j, m\<lparr>rs_Code := v\<rparr>)))
      else
        obind (skip_field ph dAtA pre) (\<lambda>(v, j).
          Ok (j, m\<lparr>rs_unknownFields := rs_unknownFields m @ v\<rparr>)))"

definition Response_step ::
    "protohelpers \<Rightarrow> bytes \<Rightarrow> nat \<Rightarrow> response \<Rightarrow> (nat \<times> response) outcome" where
  "Response_step ph dAtA iNdEx m =
     obind (read_tag ''Response'' dAtA iNdEx) (\<lambda>(fieldNum, wireType, i).
       Response_field ph dAtA iNdEx fieldNum wireType i m)"

text \<open>The loop \<open>for iNdEx < l { ... }\<close> and the check after it.\<close>

function unmarshal_loop ::
    "(bytes \<Rightarrow> nat \<Rightarrow> 'm \<Rightarrow> (nat \<times> 'm) outcome) \<Rightarrow> bytes \<Rightarrow> nat \<Rightarrow> 'm \<Rightarrow> 'm outcome" where
  "unmarshal_loop step dAtA iNdEx m =
     (if iNdEx < length dAtA then
        (case step dAtA iNdEx m of
           Ok (j, m') \<Rightarrow> if iNdEx < j then unmarshal_loop step dAtA j m' else Diverge
         | Err e \<Rightarrow> Err e
         | Panic p \<Rightarrow> Panic p
         | Diverge \<Rightarrow> Diverge)
      else if iNdEx > length dAtA then Err ErrUnexpectedEOF
      else Ok m)"
  by pat_completeness auto
termination
  by (relation "measure (\<lambda>(step, dAtA, iNdEx, m). length dAtA - iNdEx)") auto

declare unmarshal_loop.simps [simp del]

definition Request_UnmarshalVT :: "protohelpers \<Rightarrow> request \<Rightarrow> bytes \<Rightarrow> request outcome" where
  "Request_UnmarshalVT ph m dAtA = unmarshal_loop (Request_step ph) dAtA 0 m"

definition Response_UnmarshalVT :: "protohelpers \<Rightarrow> response \<Rightarrow> bytes \<Rightarrow> response outcome" where
  "Response_UnmarshalVT ph m dAtA = unmarshal_loop (Response_step ph) dAtA 0 m"

section \<open>Varints read back\<close>

lemma push_bit_split_7:
  "push_bit s (word_of_nat v :: 'w::len word) =
   push_bit s (word_of_nat (v mod 128)) OR push_bit (s + 7) (word_of_nat (v div 128))"
proof (rule bit_word_eqI)
  fix n
  assume "n < LENGTH('w)"
  have m: "v mod 128 = take_bit 7 v" and d: "v div 128 = drop_bit 7 v"
    by (simp_all add: take_bit_eq_mod drop_bit_eq_div)
  have "7 + (n - (s + 7)) = n - s" if "s + 7 \<le> n"
    using that by simp
  then show "bit (push_bit s (word_of_nat v :: 'w word)) n =
    bit (push_bit s (word_of_nat (v mod 128)) OR
      push_bit (s + 7) (word_of_nat (v div 128) :: 'w word)) n"
    unfolding m d by (cases "s + 7 \<le> n") (auto simp: bit_simps)
qed

lemma low_byte:
  assumes "v < 128"
  shows "(word_of_nat v :: byte) < 0x80"
    and "ucast ((word_of_nat v :: byte) AND 0x7F) = (word_of_nat v :: 'w::len word)"
proof -
  have t: "take_bit 7 v = v" using assms by (simp add: take_bit_nat_eq_self)
  have "unat (word_of_nat v :: byte) = v"
    using assms by (simp add: unsigned_of_nat take_bit_nat_eq_self)
  then show "(word_of_nat v :: byte) < 0x80"
    using assms by (simp add: word_less_nat_alt)
  have "(word_of_nat v :: byte) AND 0x7F = take_bit 7 (word_of_nat v)"
    by (simp add: take_bit_eq_mask mask_eq_decr_exp)
  also have "ucast \<dots> = (word_of_nat (take_bit 7 v) :: 'w word)"
    by (rule bit_word_eqI) (auto simp: bit_simps)
  finally show "ucast ((word_of_nat v :: byte) AND 0x7F) = (word_of_nat v :: 'w word)"
    by (simp add: t)
qed

lemma high_byte:
  assumes "v < 128"
  shows "\<not> (word_of_nat (v + 128) :: byte) < 0x80"
    and "(word_of_nat (v + 128) :: byte) AND 0x7F = word_of_nat v AND 0x7F"
proof -
  have "unat (word_of_nat (v + 128) :: byte) = v + 128"
    using assms by (simp add: unsigned_of_nat take_bit_nat_eq_self del: of_nat_add)
  then show "\<not> (word_of_nat (v + 128) :: byte) < 0x80"
    by (simp add: word_less_nat_alt del: of_nat_add)
  have "take_bit 7 (word_of_nat (v + 128) :: byte) = take_bit 7 (word_of_nat v)"
    by (simp only: take_bit_of_nat) (simp add: take_bit_eq_mod)
  then show "(word_of_nat (v + 128) :: byte) AND 0x7F = word_of_nat v AND 0x7F"
    by (simp add: take_bit_eq_mask mask_eq_decr_exp)
qed

lemma varint_loop_venc:
  fixes acc :: "'w::len word"
  assumes "v < 2 ^ (64 - shift)" and "shift < 64"
  shows "varint_loop (pre @ venc v @ post) (length pre) shift acc =
    Ok (acc OR push_bit shift (word_of_nat v), length pre + length (venc v))"
  using assms
proof (induction v arbitrary: pre shift acc rule: venc.induct)
  case (1 v)
  show ?case
  proof (cases "v < 128")
    case True
    then show ?thesis
      using "1.prems" low_byte(1) [OF True] low_byte(2) [OF True, where 'w = 'w]
      by (simp add: venc_small varint_loop.simps nth_append)
  next
    case False
    let ?b = "word_of_nat (v mod 128 + 128) :: byte"
    let ?acc = "acc OR push_bit shift (word_of_nat (v mod 128))"
    have "(2 :: nat) ^ 7 < 2 ^ (64 - shift)"
      using "1.prems" False by simp
    then have sh: "shift + 7 < 64"
      using power_less_imp_less_exp [of "2 :: nat" 7 "64 - shift"] by simp
    have "64 - shift = 64 - (shift + 7) + 7"
      using sh by linarith
    with "1.prems"(1) have "v < 2 ^ (64 - (shift + 7)) * 2 ^ 7"
      by (metis power_add)
    then have "v div 128 < 2 ^ (64 - (shift + 7))"
      by (simp add: less_mult_imp_div_less)
    from "1.IH" [OF False this sh, of "pre @ [?b]" ?acc]
    have IH: "varint_loop (pre @ ?b # venc (v div 128) @ post) (Suc (length pre)) (shift + 7) ?acc =
      Ok (acc OR push_bit shift (word_of_nat v), Suc (length pre + length (venc (v div 128))))"
      by (simp add: push_bit_split_7 [of shift v] or.assoc del: of_nat_add)
    have "v mod 128 < 128" by simp
    note b = high_byte [OF this] low_byte(2) [OF this, where 'w = 'w]
    show ?thesis
      using False "1.prems"(2) IH b
      by (simp add: venc_large varint_loop.simps [of _ "length pre"] nth_append Let_def
          del: of_nat_add)
  qed
qed

lemma varint_loop_nat:
  "v < 2 ^ 64 \<Longrightarrow> varint_loop (pre @ venc v @ post) (length pre) 0 (0 :: 'w::len word) =
     Ok (word_of_nat v, length pre + length (venc v))"
  using varint_loop_venc [of v 0 pre post "0 :: 'w word"] by simp

lemma varint_loop_uvarint:
  "varint_loop (pre @ uvarint v @ post) (length pre) 0 (0 :: u64) =
     Ok (v, length pre + length (uvarint v))"
  using varint_loop_nat [OF unat_u64_less [of v], of pre post, where 'w = 64]
  by (simp add: uvarint_def)

lemma read_tag_byte:
  assumes "tag < 0x80"
  shows "read_tag msg (pre @ tag # post) (length pre) =
    (let fieldNum = ucast (drop_bit 3 tag) :: u32; wireType = ucast tag AND 0x7 :: u64
     in if wireType = 4 then Err (ErrEndGroup msg)
        else if sint fieldNum \<le> 0 then Err (ErrIllegalTag msg fieldNum (ucast tag))
        else Ok (fieldNum, wireType, Suc (length pre)))"
proof -
  have lt: "unat tag < 128" using assms by (simp add: word_less_nat_alt)
  have "varint_loop (pre @ venc (unat tag) @ post) (length pre) 0 (0 :: u64) =
      Ok (ucast tag, Suc (length pre))"
    using varint_loop_nat [of "unat tag" pre post, where 'w = 64] lt by (simp add: venc_small)
  moreover have "venc (unat tag) = [tag]" using lt by (simp add: venc_small)
  moreover have "ucast (drop_bit 3 (ucast tag :: u64)) = (ucast (drop_bit 3 tag) :: u32)"
    by (rule bit_word_eqI) (simp add: bit_simps)
  ultimately show ?thesis by (simp add: read_tag_def Let_def)
qed

lemma sint_word_of_nat: "n < 2 ^ 63 \<Longrightarrow> sint (word_of_nat n :: u64) = int n"
  by (simp add: signed_of_nat signed_take_bit_int_eq_self)

lemma unat_u64_of_nat_63: "n < 2 ^ 63 \<Longrightarrow> unat (word_of_nat n :: u64) = n"
  by (simp add: unat_u64_of_nat)

lemma read_bytes_enc:
  assumes "length (pre @ venc (length v) @ v @ post) < 2 ^ 63"
  shows "read_bytes (pre @ venc (length v) @ v @ post) (length pre) =
    Ok (v, length pre + length (venc (length v)) + length v)"
proof -
  let ?i = "length pre + length (venc (length v))"
  let ?p = "word_of_nat ?i + word_of_nat (length v) :: u64"
  have vl: "varint_loop (pre @ venc (length v) @ v @ post) (length pre) 0 (0 :: u64) =
      Ok (word_of_nat (length v), ?i)"
    using assms by (intro varint_loop_nat) simp
  have p: "?p = word_of_nat (?i + length v)" by simp
  have lt: "?i + length v < 2 ^ 63" and lv: "length v < 2 ^ 63" using assms by simp_all
  have sp: "sint ?p = int (?i + length v)" and up: "unat ?p = ?i + length v"
    unfolding p using lt by (simp_all only: sint_word_of_nat unat_u64_of_nat_63)
  show ?thesis
    using slice_append [of "pre @ venc (length v)" v post] lv
    by (simp add: read_bytes_def vl sp up sint_word_of_nat slice_expr_def Let_def del: of_nat_add)
qed

section \<open>Parsing an encoded field\<close>

text \<open>
  A loop body parses the bytes \<open>e\<close> with effect \<open>f\<close> when the loop, standing at \<open>e\<close> anywhere in
  an input, goes on behind \<open>e\<close> with the message changed by \<open>f\<close>.
\<close>

definition parses :: "(bytes \<Rightarrow> nat \<Rightarrow> 'm \<Rightarrow> (nat \<times> 'm) outcome) \<Rightarrow> bytes \<Rightarrow> ('m \<Rightarrow> 'm) \<Rightarrow> bool" where
  "parses step e f \<longleftrightarrow>
     (\<forall>pre post m. length (pre @ e @ post) < 2 ^ 63 \<longrightarrow>
        unmarshal_loop step (pre @ e @ post) (length pre) m =
        unmarshal_loop step (pre @ e @ post) (length pre + length e) (f m))"

lemma parses_Nil: "parses step [] (\<lambda>m. m)"
  by (simp add: parses_def)

lemma parses_append:
  assumes "parses step e f" and "parses step e' f'"
  shows "parses step (e @ e') (\<lambda>m. f' (f m))"
  unfolding parses_def
proof (intro allI impI)
  fix pre post :: bytes and m
  assume len: "length (pre @ (e @ e') @ post) < 2 ^ 63"
  have "unmarshal_loop step (pre @ e @ e' @ post) (length pre) m =
      unmarshal_loop step (pre @ e @ e' @ post) (length pre + length e) (f m)"
    using assms(1) len by (simp add: parses_def)
  also have "\<dots> = unmarshal_loop step ((pre @ e) @ e' @ post) (length (pre @ e)) (f m)"
    by simp
  also have "\<dots> =
      unmarshal_loop step ((pre @ e) @ e' @ post) (length (pre @ e) + length e') (f' (f m))"
    using assms(2) [unfolded parses_def, rule_format, of "pre @ e" post] len by simp
  finally show "unmarshal_loop step (pre @ (e @ e') @ post) (length pre) m =
      unmarshal_loop step (pre @ (e @ e') @ post) (length pre + length (e @ e')) (f' (f m))"
    by (simp add: add.assoc)
qed

lemma parses_concat:
  assumes "\<And>x. parses step (e x) (f x)"
  shows "parses step (concat (map e xs)) (fold f xs)"
proof (induction xs)
  case Nil
  then show ?case using parses_Nil by (simp add: id_def)
next
  case (Cons x xs)
  from parses_append [OF assms [of x] this] show ?case
    by (simp add: comp_def)
qed

lemma parses_field:
  assumes "\<And>pre post m. length (pre @ e @ post) < 2 ^ 63 \<Longrightarrow>
      step (pre @ e @ post) (length pre) m = Ok (length pre + length e, f m)"
    and "e \<noteq> []"
  shows "parses step e f"
  unfolding parses_def
proof (intro allI impI)
  fix pre post :: bytes and m
  assume "length (pre @ e @ post) < 2 ^ 63"
  then show "unmarshal_loop step (pre @ e @ post) (length pre) m =
      unmarshal_loop step (pre @ e @ post) (length pre + length e) (f m)"
    using assms by (subst unmarshal_loop.simps) simp
qed

lemma parses_whole:
  assumes "parses step e f" and "length e < 2 ^ 63"
  shows "unmarshal_loop step e 0 m = Ok (f m)"
proof -
  have "unmarshal_loop step e 0 m = unmarshal_loop step e (length e) (f m)"
    using assms(1) [unfolded parses_def, rule_format, of "[]" "[]" m] assms(2) by simp
  then show ?thesis by (simp add: unmarshal_loop.simps [of step e "length e"])
qed

subsection \<open>The fields of a request\<close>

lemma read_bytes_tagged:
  assumes "length (pre @ enc_bytes tag v @ post) < 2 ^ 63"
  shows "read_bytes (pre @ enc_bytes tag v @ post) (Suc (length pre)) =
    Ok (v, length pre + length (enc_bytes tag v))"
  using read_bytes_enc [of "pre @ [tag]" v post] assms by (simp add: enc_bytes_def)

lemma varint_loop_tagged:
  "varint_loop (pre @ enc_varint tag v @ post) (Suc (length pre)) 0 (0 :: u64) =
    Ok (v, length pre + length (enc_varint tag v))"
  using varint_loop_uvarint [of "pre @ [tag]" v post] by (simp add: enc_varint_def)

lemma Request_step_Headers:
  "length (pre @ enc_bytes 0x0a v @ post) < 2 ^ 63 \<Longrightarrow>
   Request_step ph (pre @ enc_bytes 0x0a v @ post) (length pre) m =
     Ok (length pre + length (enc_bytes 0x0a v), m\<lparr>rq_Headers := rq_Headers m @ [v]\<rparr>)"
  using read_bytes_tagged [of pre "0x0a" v post]
    read_tag_byte [of "0x0a" "''Request''" pre "venc (length v) @ v @ post"]
  by (simp add: Request_step_def Request_field_def enc_bytes_def)

lemma Request_step_Method:
  "length (pre @ enc_bytes 0x12 v @ post) < 2 ^ 63 \<Longrightarrow>
   Request_step ph (pre @ enc_bytes 0x12 v @ post) (length pre) m =
     Ok (length pre + length (enc_bytes 0x12 v), m\<lparr>rq_Method := v\<rparr>)"
  using read_bytes_tagged [of pre "0x12" v post]
    read_tag_byte [of "0x12" "''Request''" pre "venc (length v) @ v @ post"]
  by (simp add: Request_step_def Request_field_def enc_bytes_def)

lemma Request_step_Body:
  "length (pre @ enc_bytes 0x22 v @ post) < 2 ^ 63 \<Longrightarrow>
   Request_step ph (pre @ enc_bytes 0x22 v @ post) (length pre) m =
     Ok (length pre + length (enc_bytes 0x22 v), m\<lparr>rq_Body := v\<rparr>)"
  using read_bytes_tagged [of pre "0x22" v post]
    read_tag_byte [of "0x22" "''Request''" pre "venc (length v) @ v @ post"]
  by (simp add: Request_step_def Request_field_def enc_bytes_def)

lemma Request_step_RequestId:
  "Request_step ph (pre @ enc_varint 0x18 v @ post) (length pre) m =
     Ok (length pre + length (enc_varint 0x18 v), m\<lparr>rq_RequestId := v\<rparr>)"
  using varint_loop_tagged [of pre "0x18" v post]
    read_tag_byte [of "0x18" "''Request''" pre "uvarint v @ post"]
  by (simp add: Request_step_def Request_field_def enc_varint_def)

subsection \<open>The fields of a response\<close>

lemma Response_step_Headers:
  "length (pre @ enc_bytes 0x0a v @ post) < 2 ^ 63 \<Longrightarrow>
   Response_step ph (pre @ enc_bytes 0x0a v @ post) (length pre) m =
     Ok (length pre + length (enc_bytes 0x0a v), m\<lparr>rs_Headers := rs_Headers m @ [v]\<rparr>)"
  using read_bytes_tagged [of pre "0x0a" v post]
    read_tag_byte [of "0x0a" "''Response''" pre "venc (length v) @ v @ post"]
  by (simp add: Response_step_def Response_field_def enc_bytes_def)

lemma Response_step_Method:
  "length (pre @ enc_bytes 0x12 v @ post) < 2 ^ 63 \<Longrightarrow>
   Response_step ph (pre @ enc_bytes 0x12 v @ post) (length pre) m =
     Ok (length pre + length (enc_bytes 0x12 v), m\<lparr>rs_Method := v\<rparr>)"
  using read_bytes_tagged [of pre "0x12" v post]
    read_tag_byte [of "0x12" "''Response''" pre "venc (length v) @ v @ post"]
  by (simp add: Response_step_def Response_field_def enc_bytes_def)

lemma Response_step_Body:
  "length (pre @ enc_bytes 0x22 v @ post) < 2 ^ 63 \<Longrightarrow>
   Response_step ph (pre @ enc_bytes 0x22 v @ post) (length pre) m =
     Ok (length pre + length (enc_bytes 0x22 v), m\<lparr>rs_Body := v\<rparr>)"
  using read_bytes_tagged [of pre "0x22" v post]
    read_tag_byte [of "0x22" "''Response''" pre "venc (length v) @ v @ post"]
  by (simp add: Response_step_def Response_field_def enc_bytes_def)

lemma Response_step_RequestId:
  "Response_step ph (pre @ enc_varint 0x18 v @ post) (length pre) m =
     Ok (length pre + length (enc_varint 0x18 v), m\<lparr>rs_RequestId := v\<rparr>)"
  using varint_loop_tagged [of pre "0x18" v post]
    read_tag_byte [of "0x18" "''Response''" pre "uvarint v @ post"]
  by (simp add: Response_step_def Response_field_def enc_varint_def)

lemma unat_ucast_u32: "unat (ucast (c :: u32) :: u64) = unat c"
proof -
  have "unat c < 2 ^ 64"
    by (rule less_le_trans [OF unat_u32_less]) simp
  then show ?thesis
    by (simp add: unsigned_ucast_eq take_bit_nat_eq_self_iff)
qed

lemma varint_loop_code:
  "varint_loop (pre @ enc_varint tag (ucast c) @ post) (Suc (length pre)) 0 (0 :: u32) =
    Ok (c, length pre + length (enc_varint tag (ucast c)))"
proof -
  have "unat c < 2 ^ 64"
    using unat_u64_less [of "ucast c"] by (simp add: unat_ucast_u32)
  from varint_loop_nat [OF this, of "pre @ [tag]" post, where 'w = 32] show ?thesis
    by (simp add: enc_varint_def uvarint_def unat_ucast_u32)
qed

lemma Response_step_Code:
  "Response_step ph (pre @ enc_varint 0x28 (ucast c) @ post) (length pre) m =
     Ok (length pre + length (enc_varint 0x28 (ucast c)), m\<lparr>rs_Code := c\<rparr>)"
  using varint_loop_code [of pre "0x28" c post]
    read_tag_byte [of "0x28" "''Response''" pre "uvarint (ucast c) @ post"]
  by (simp add: Response_step_def Response_field_def enc_varint_def)

section \<open>Round trip\<close>

lemma enc_nonempty [simp]: "enc_bytes tag v \<noteq> []" "enc_varint tag w \<noteq> []"
  by (simp_all add: enc_bytes_def enc_varint_def)

lemma Request_parses:
  shows "parses (Request_step ph) (enc_bytes 0x0a v) (\<lambda>m. m\<lparr>rq_Headers := rq_Headers m @ [v]\<rparr>)"
    and "parses (Request_step ph) (enc_bytes 0x12 v) (\<lambda>m. m\<lparr>rq_Method := v\<rparr>)"
    and "parses (Request_step ph) (enc_varint 0x18 w) (\<lambda>m. m\<lparr>rq_RequestId := w\<rparr>)"
    and "parses (Request_step ph) (enc_bytes 0x22 v) (\<lambda>m. m\<lparr>rq_Body := v\<rparr>)"
  by (rule parses_field; simp add: Request_step_Headers Request_step_Method Request_step_RequestId
      Request_step_Body)+

lemma Response_parses:
  shows "parses (Response_step ph) (enc_bytes 0x0a v) (\<lambda>m. m\<lparr>rs_Headers := rs_Headers m @ [v]\<rparr>)"
    and "parses (Response_step ph) (enc_bytes 0x12 v) (\<lambda>m. m\<lparr>rs_Method := v\<rparr>)"
    and "parses (Response_step ph) (enc_varint 0x18 w) (\<lambda>m. m\<lparr>rs_RequestId := w\<rparr>)"
    and "parses (Response_step ph) (enc_bytes 0x22 v) (\<lambda>m. m\<lparr>rs_Body := v\<rparr>)"
    and "parses (Response_step ph) (enc_varint 0x28 (ucast c)) (\<lambda>m. m\<lparr>rs_Code := c\<rparr>)"
  by (rule parses_field; simp add: Response_step_Headers Response_step_Method Response_step_RequestId
      Response_step_Body Response_step_Code)+

text \<open>
  \<open>UnmarshalVT\<close> merges into the message it is called on: headers are appended, scalar fields
  that are on the wire replace the old value. (Messages without unknown fields; a message built
  through the API has none.)
\<close>

definition request_merge :: "request \<Rightarrow> request \<Rightarrow> request" where
  "request_merge m0 m =
     m0\<lparr>rq_Headers := rq_Headers m0 @ rq_Headers m,
        rq_Method := (if rq_Method m = [] then rq_Method m0 else rq_Method m),
        rq_RequestId := (if rq_RequestId m = 0 then rq_RequestId m0 else rq_RequestId m),
        rq_Body := (if rq_Body m = [] then rq_Body m0 else rq_Body m)\<rparr>"

definition response_merge :: "response \<Rightarrow> response \<Rightarrow> response" where
  "response_merge m0 m =
     m0\<lparr>rs_Headers := rs_Headers m0 @ rs_Headers m,
        rs_Method := (if rs_Method m = [] then rs_Method m0 else rs_Method m),
        rs_RequestId := (if rs_RequestId m = 0 then rs_RequestId m0 else rs_RequestId m),
        rs_Body := (if rs_Body m = [] then rs_Body m0 else rs_Body m),
        rs_Code := (if rs_Code m = 0 then rs_Code m0 else rs_Code m)\<rparr>"

lemma fold_rq_Headers:
  "fold (\<lambda>v m. m\<lparr>rq_Headers := rq_Headers m @ [v]\<rparr>) hs m = m\<lparr>rq_Headers := rq_Headers m @ hs\<rparr>"
  by (induction hs arbitrary: m) auto

lemma fold_rs_Headers:
  "fold (\<lambda>v m. m\<lparr>rs_Headers := rs_Headers m @ [v]\<rparr>) hs m = m\<lparr>rs_Headers := rs_Headers m @ hs\<rparr>"
  by (induction hs arbitrary: m) auto

lemma parses_if:
  "parses step e f \<Longrightarrow> parses step (if b then [] else e) (\<lambda>m. if b then m else f m)"
  using parses_Nil by (cases b) auto

lemma Request_UnmarshalVT_merge:
  assumes "request_fits m" and "rq_unknownFields m = []"
  shows "Request_UnmarshalVT ph m0 (enc_request m) = Ok (request_merge m0 m)"
proof -
  have h: "parses (Request_step ph) (concat (map (enc_bytes 0x0a) (rq_Headers m)))
      (fold (\<lambda>v m. m\<lparr>rq_Headers := rq_Headers m @ [v]\<rparr>) (rq_Headers m))"
    by (rule parses_concat [OF Request_parses(1)])
  note p = parses_append [OF h parses_append [OF
      parses_if [OF Request_parses(2) [where ph = ph and v = "rq_Method m"],
        where b = "rq_Method m = []"] parses_append [OF
      parses_if [OF Request_parses(3) [where ph = ph and w = "rq_RequestId m"],
        where b = "rq_RequestId m = 0"]
      parses_if [OF Request_parses(4) [where ph = ph and v = "rq_Body m"],
        where b = "rq_Body m = []"]]]]
  have "unmarshal_loop (Request_step ph) (enc_request m) 0 m0 = Ok (request_merge m0 m)"
    using parses_whole [OF p, of m0] assms
    by (simp add: request_fits_def enc_request_def enc_headers_def enc_opt_bytes_def
        enc_opt_varint_def fold_rq_Headers request_merge_def)
  then show ?thesis by (simp add: Request_UnmarshalVT_def)
qed

lemma Response_UnmarshalVT_merge:
  assumes "response_fits m" and "rs_unknownFields m = []"
  shows "Response_UnmarshalVT ph m0 (enc_response m) = Ok (response_merge m0 m)"
proof -
  have h: "parses (Response_step ph) (concat (map (enc_bytes 0x0a) (rs_Headers m)))
      (fold (\<lambda>v m. m\<lparr>rs_Headers := rs_Headers m @ [v]\<rparr>) (rs_Headers m))"
    by (rule parses_concat [OF Response_parses(1)])
  note p = parses_append [OF h parses_append [OF
      parses_if [OF Response_parses(2) [where ph = ph and v = "rs_Method m"],
        where b = "rs_Method m = []"] parses_append [OF
      parses_if [OF Response_parses(3) [where ph = ph and w = "rs_RequestId m"],
        where b = "rs_RequestId m = 0"] parses_append [OF
      parses_if [OF Response_parses(4) [where ph = ph and v = "rs_Body m"],
        where b = "rs_Body m = []"]
      parses_if [OF Response_parses(5) [where ph = ph and c = "rs_Code m"],
        where b = "rs_Code m = 0"]]]]]
  have "unmarshal_loop (Response_step ph) (enc_response m) 0 m0 = Ok (response_merge m0 m)"
    using parses_whole [OF p, of m0] assms
    by (simp add: response_fits_def enc_response_def enc_headers_def enc_opt_bytes_def
        enc_opt_varint_def fold_rs_Headers response_merge_def ucast_u32_eq_0)
  then show ?thesis by (simp add: Response_UnmarshalVT_def)
qed

lemma request_merge_zero: "rq_unknownFields m = [] \<Longrightarrow> request_merge Request_zero m = m"
  by (simp add: request_merge_def)

lemma response_merge_zero: "rs_unknownFields m = [] \<Longrightarrow> response_merge Response_zero m = m"
  by (simp add: response_merge_def)

section \<open>Arbitrary input: no panic, no endless loop, no amplification\<close>

lemma varint_loop_returns: "returns (varint_loop d i shift acc)"
proof (induction d i shift acc rule: varint_loop.induct)
  case (1 d i shift acc)
  then show ?case by (subst varint_loop.simps) (simp add: Let_def)
qed

lemma varint_loop_bounds: "varint_loop d i shift acc = Ok (v, j) \<Longrightarrow> i < j \<and> j \<le> length d"
proof (induction d i shift acc rule: varint_loop.induct)
  case (1 d i shift acc)
  show ?case
    using "1.prems" "1.IH" [OF _ _ refl refl]
    by (subst (asm) varint_loop.simps) (fastforce simp: Let_def split: if_splits)
qed

lemma sint_nonneg_unat:
  assumes "0 \<le> sint (w :: u64)"
  shows "unat w < 2 ^ 63" and "sint w = int (unat w)"
proof -
  let ?n = "nat (sint w)"
  have w: "w = word_of_nat ?n"
    using assms by simp
  have "?n < 2 ^ 63"
    using assms sint_less [of w] by simp
  then have n: "unat w = ?n"
    by (subst w) (rule unat_u64_of_nat_63)
  show "unat w < 2 ^ 63" and "sint w = int (unat w)"
    using \<open>?n < 2 ^ 63\<close> assms by (simp_all add: n)
qed

lemma index_add:
  assumes "i < 2 ^ 63" and "0 \<le> sint (w :: u64)" and "0 \<le> sint (word_of_nat i + w)"
  shows "unat (word_of_nat i + w) = i + unat w"
    and "sint (word_of_nat i + w) \<le> int n \<Longrightarrow> unat (word_of_nat i + w) \<le> n"
proof -
  have "unat w < 2 ^ 63" by (rule sint_nonneg_unat(1) [OF assms(2)])
  then have "i + unat w < 2 ^ 64" using assms(1) by simp
  then have "unat (word_of_nat (i + unat w) :: u64) = i + unat w" by (rule unat_u64_of_nat)
  then show "unat (word_of_nat i + w) = i + unat w" by simp
  show "unat (word_of_nat i + w) \<le> n" if "sint (word_of_nat i + w) \<le> int n"
    using that by (simp only: sint_nonneg_unat(2) [OF assms(3)] of_nat_le_iff)
qed

lemma read_bytes_Ok:
  assumes "read_bytes d i = Ok (v, j)" and "length d < 2 ^ 63"
  shows "i + length v < j \<and> j \<le> length d"
proof -
  from assms(1) obtain n k where vl: "varint_loop d i 0 (0 :: u64) = Ok (n, k)"
    and nn: "0 \<le> sint n" "0 \<le> sint (word_of_nat k + n)"
    and v: "v = slice d k (unat (word_of_nat k + n))" "j = unat (word_of_nat k + n)"
      "k \<le> j" "j \<le> length d"
    by (auto simp: read_bytes_def obind_eq_Ok Let_def slice_expr_def split: if_splits)
  have "i < k" "k \<le> length d" using varint_loop_bounds [OF vl] by auto
  then show ?thesis using v by auto
qed

lemma read_bytes_returns:
  assumes "length d < 2 ^ 63"
  shows "returns (read_bytes d i)"
  unfolding read_bytes_def
proof (rule returns_obindI [OF varint_loop_returns], clarify)
  fix n k
  assume vl: "varint_loop d i 0 (0 :: u64) = Ok (n, k)"
  have k: "k \<le> length d" using varint_loop_bounds [OF vl] by auto
  let ?p = "word_of_nat k + n"
  have "k \<le> unat ?p \<and> unat ?p \<le> length d"
    if nn: "0 \<le> sint n" "0 \<le> sint ?p" and le: "sint ?p \<le> int (length d)"
    using index_add [OF _ nn] le k assms by simp
  then show "returns (if sint n < 0 then Err ErrInvalidLength
     else let postIndex = ?p in
       if sint postIndex < 0 then Err ErrInvalidLength
       else if sint postIndex > int (length d) then Err ErrUnexpectedEOF
       else obind (slice_expr d k (unat postIndex)) (\<lambda>v. Ok (v, unat postIndex)))"
    by (auto simp: Let_def slice_expr_def)
qed

lemma read_tag_returns: "returns (read_tag msg d i)"
  unfolding read_tag_def by (rule returns_obindI [OF varint_loop_returns]) (auto simp: Let_def)

lemma read_tag_Ok: "read_tag msg d i = Ok (f, t, j) \<Longrightarrow> i < j \<and> j \<le> length d"
  by (auto simp: read_tag_def obind_eq_Ok Let_def split: if_splits dest: varint_loop_bounds)

lemma skip_field_returns:
  assumes "i \<le> length d" and "length d < 2 ^ 63"
  shows "returns (skip_field ph d i)"
proof (cases "Skip ph (slice d i (length d))")
  case (Inl e)
  with assms show ?thesis by (simp add: skip_field_def slice_expr_def)
next
  case (Inr n)
  let ?p = "word_of_nat i + n"
  have "i \<le> unat ?p \<and> unat ?p \<le> length d"
    if nn: "0 \<le> sint n" "0 \<le> sint ?p" and le: "sint ?p \<le> int (length d)"
    using index_add [OF _ nn] le assms by simp
  with Inr assms show ?thesis
    by (auto simp: skip_field_def slice_expr_def Let_def)
qed

lemma skip_field_Ok:
  assumes "skip_field ph d i = Ok (v, j)" and "length d < 2 ^ 63"
  shows "i + length v = j" and "j \<le> length d"
    and "j \<le> i \<Longrightarrow> v = [] \<and> Skip ph (drop i d) = Inr 0"
proof -
  from assms(1) have i: "i \<le> length d"
    by (auto simp: skip_field_def slice_expr_def split: if_splits)
  with assms(1) obtain n where n: "Skip ph (slice d i (length d)) = Inr n"
    by (cases "Skip ph (slice d i (length d))") (auto simp: skip_field_def slice_expr_def)
  let ?j = "unat (word_of_nat i + n)"
  from assms(1) i n have nn: "0 \<le> sint n" "0 \<le> sint (word_of_nat i + n)"
    by (auto simp: skip_field_def slice_expr_def Let_def split: if_splits)
  from assms(1) i n nn have v: "v = slice d i ?j" "j = ?j" "i \<le> ?j" "?j \<le> length d"
    by (auto simp: skip_field_def slice_expr_def Let_def split: if_splits)
  then show le: "i + length v = j" "j \<le> length d" by auto
  have "j = i + unat n" using index_add(1) [OF _ nn] v(2) i assms(2) by simp
  then show "v = [] \<and> Skip ph (drop i d) = Inr 0" if "j \<le> i"
    using that le(1) n by (simp add: slice_def unat_eq_0)
qed

text \<open>What a message holds, in bytes and headers.\<close>

definition request_weight :: "request \<Rightarrow> nat" where
  "request_weight m =
     sum_list (map (\<lambda>h. Suc (length h)) (rq_Headers m)) + length (rq_Method m) +
     length (rq_Body m) + length (rq_unknownFields m)"

lemma Request_field_returns:
  "pre \<le> length d \<Longrightarrow> length d < 2 ^ 63 \<Longrightarrow> returns (Request_field ph d pre f t i m)"
  unfolding Request_field_def
  by (auto intro!: returns_obindI read_bytes_returns varint_loop_returns skip_field_returns)

lemma Request_field_Ok:
  assumes "Request_field ph d pre f t i m = Ok (j, m')" and "pre < i" and "length d < 2 ^ 63"
  shows "j \<le> length d"
    and "request_weight m' + pre \<le> request_weight m + j"
    and "pre < j \<or> j = pre \<and> m' = m \<and> Skip ph (drop pre d) = Inr 0"
proof -
  have rb: "i + length v < j \<and> j \<le> length d" if "read_bytes d i = Ok (v, j)" for v
    using read_bytes_Ok [OF that assms(3)] .
  have sk: "pre + length v = j" "j \<le> length d"
    "\<not> pre < j \<Longrightarrow> v = [] \<and> Skip ph (drop pre d) = Inr 0"
    if "skip_field ph d pre = Ok (v, j)" for v
    using skip_field_Ok [OF that assms(3)] by auto
  show "j \<le> length d"
    using assms(1,2) rb sk
    by (auto simp: Request_field_def obind_eq_Ok dest: varint_loop_bounds split: if_splits)
  show "request_weight m' + pre \<le> request_weight m + j"
    using assms(1,2)
    by (auto simp: Request_field_def obind_eq_Ok request_weight_def
        dest!: varint_loop_bounds rb sk(1) split: if_splits)
  show "pre < j \<or> j = pre \<and> m' = m \<and> Skip ph (drop pre d) = Inr 0"
    using assms(1,2)
    by (auto simp: Request_field_def obind_eq_Ok
        dest!: varint_loop_bounds rb dest: sk split: if_splits)
qed

definition response_weight :: "response \<Rightarrow> nat" where
  "response_weight m =
     sum_list (map (\<lambda>h. Suc (length h)) (rs_Headers m)) + length (rs_Method m) +
     length (rs_Body m) + length (rs_unknownFields m)"

lemma Response_field_returns:
  "pre \<le> length d \<Longrightarrow> length d < 2 ^ 63 \<Longrightarrow> returns (Response_field ph d pre f t i m)"
  unfolding Response_field_def
  by (auto intro!: returns_obindI read_bytes_returns varint_loop_returns skip_field_returns)

lemma Response_field_Ok:
  assumes "Response_field ph d pre f t i m = Ok (j, m')" and "pre < i" and "length d < 2 ^ 63"
  shows "j \<le> length d"
    and "response_weight m' + pre \<le> response_weight m + j"
    and "pre < j \<or> j = pre \<and> m' = m \<and> Skip ph (drop pre d) = Inr 0"
proof -
  have rb: "i + length v < j \<and> j \<le> length d" if "read_bytes d i = Ok (v, j)" for v
    using read_bytes_Ok [OF that assms(3)] .
  have sk: "pre + length v = j" "j \<le> length d"
    "\<not> pre < j \<Longrightarrow> v = [] \<and> Skip ph (drop pre d) = Inr 0"
    if "skip_field ph d pre = Ok (v, j)" for v
    using skip_field_Ok [OF that assms(3)] by auto
  show "j \<le> length d"
    using assms(1,2) rb sk
    by (auto simp: Response_field_def obind_eq_Ok dest: varint_loop_bounds split: if_splits)
  show "response_weight m' + pre \<le> response_weight m + j"
    using assms(1,2)
    by (auto simp: Response_field_def obind_eq_Ok response_weight_def
        dest!: varint_loop_bounds rb sk(1) split: if_splits)
  show "pre < j \<or> j = pre \<and> m' = m \<and> Skip ph (drop pre d) = Inr 0"
    using assms(1,2)
    by (auto simp: Response_field_def obind_eq_Ok
        dest!: varint_loop_bounds rb dest: sk split: if_splits)
qed

section \<open>The loop over any well-behaved body\<close>

locale unmarshal_body =
  fixes step :: "bytes \<Rightarrow> nat \<Rightarrow> 'm \<Rightarrow> (nat \<times> 'm) outcome"
    and weight :: "'m \<Rightarrow> nat"
  assumes step_returns: "i < length d \<Longrightarrow> length d < 2 ^ 63 \<Longrightarrow> returns (step d i m)"
    and step_progress:
      "i < length d \<Longrightarrow> length d < 2 ^ 63 \<Longrightarrow> step d i m = Ok (j, m') \<Longrightarrow> i < j \<and> j \<le> length d"
    and step_weight:
      "i < length d \<Longrightarrow> length d < 2 ^ 63 \<Longrightarrow> step d i m = Ok (j, m') \<Longrightarrow>
       weight m' + i \<le> weight m + j"
begin

lemma loop_step:
  assumes "length d < 2 ^ 63" and "i < length d" and "step d i m = Ok (j, m')"
  shows "unmarshal_loop step d i m = unmarshal_loop step d j m'"
  using assms step_progress [OF assms(2,1,3)] by (simp add: unmarshal_loop.simps [of step d i m])

lemma loop_returns:
  assumes "length d < 2 ^ 63" and "i \<le> length d"
  shows "returns (unmarshal_loop step d i m)"
  using assms(2)
proof (induction "length d - i" arbitrary: i m rule: less_induct)
  case less
  show ?case
  proof (cases "i < length d")
    case True
    show ?thesis
    proof (cases "\<exists>j m'. step d i m = Ok (j, m')")
      case True
      then obtain j m' where s: "step d i m = Ok (j, m')" by blast
      from step_progress [OF \<open>i < length d\<close> assms(1) s]
      have "returns (unmarshal_loop step d j m')"
        by (intro less.hyps) auto
      then show ?thesis
        by (simp add: loop_step [OF assms(1) \<open>i < length d\<close> s])
    next
      case False
      with step_returns [OF \<open>i < length d\<close> assms(1), of m] \<open>i < length d\<close> show ?thesis
        by (cases "step d i m") (auto simp: unmarshal_loop.simps [of step d i m])
    qed
  next
    case False
    then show ?thesis by (simp add: unmarshal_loop.simps [of step d i m])
  qed
qed

lemma loop_weight:
  assumes "length d < 2 ^ 63" and "i \<le> length d" and "unmarshal_loop step d i m = Ok r"
  shows "weight r + i \<le> weight m + length d"
  using assms(2,3)
proof (induction "length d - i" arbitrary: i m rule: less_induct)
  case less
  show ?case
  proof (cases "i < length d")
    case True
    with less.prems(2) obtain j m' where s: "step d i m = Ok (j, m')"
      by (auto simp: unmarshal_loop.simps [of step d i m] split: outcome.splits)
    have p: "i < j" "j \<le> length d"
      using step_progress [OF True assms(1) s] by auto
    have "weight r + j \<le> weight m' + length d"
      using less.prems(2) p True by (intro less.hyps) (auto simp: loop_step [OF assms(1) True s])
    with step_weight [OF True assms(1) s] show ?thesis by linarith
  next
    case False
    with less.prems(1) have "i = length d" by simp
    with less.prems(2) have "m = r" by (subst (asm) unmarshal_loop.simps) simp
    with \<open>i = length d\<close> show ?thesis by simp
  qed
qed

end

lemma Request_step_no_progress:
  assumes "Request_step ph d i m = Ok (j, m')" and "j \<le> i" and "length d < 2 ^ 63"
  shows "j = i \<and> m' = m"
  using assms Request_field_Ok(3) [of ph d i]
  by (fastforce simp: Request_step_def obind_eq_Ok dest: read_tag_Ok)

lemma Response_step_no_progress:
  assumes "Response_step ph d i m = Ok (j, m')" and "j \<le> i" and "length d < 2 ^ 63"
  shows "j = i \<and> m' = m"
  using assms Response_field_Ok(3) [of ph d i]
  by (fastforce simp: Response_step_def obind_eq_Ok dest: read_tag_Ok)

sublocale vt_helpers_skip \<subseteq> rq: unmarshal_body "Request_step ph" request_weight
proof unfold_locales
  fix d :: bytes and i j m m'
  assume i: "i < length d" and len: "length d < 2 ^ 63"
  show "returns (Request_step ph d i m)"
    unfolding Request_step_def using i len
    by (auto intro!: returns_obindI read_tag_returns Request_field_returns)
  assume "Request_step ph d i m = Ok (j, m')"
  then obtain f t k where k: "read_tag ''Request'' d i = Ok (f, t, k)"
    and s: "Request_field ph d i f t k m = Ok (j, m')"
    by (auto simp: Request_step_def obind_eq_Ok)
  have "i < k" using read_tag_Ok [OF k] by simp
  note r = Request_field_Ok [OF s this len]
  have "length (drop i d) < 2 ^ 63"
    by (rule le_less_trans [OF _ len]) simp
  then have "Skip ph (drop i d) \<noteq> Inr 0"
    using Skip_positive by blast
  with r show "i < j \<and> j \<le> length d" and "request_weight m' + i \<le> request_weight m + j"
    by auto
qed

sublocale vt_helpers_skip \<subseteq> rs: unmarshal_body "Response_step ph" response_weight
proof unfold_locales
  fix d :: bytes and i j m m'
  assume i: "i < length d" and len: "length d < 2 ^ 63"
  show "returns (Response_step ph d i m)"
    unfolding Response_step_def using i len
    by (auto intro!: returns_obindI read_tag_returns Response_field_returns)
  assume "Response_step ph d i m = Ok (j, m')"
  then obtain f t k where k: "read_tag ''Response'' d i = Ok (f, t, k)"
    and s: "Response_field ph d i f t k m = Ok (j, m')"
    by (auto simp: Response_step_def obind_eq_Ok)
  have "i < k" using read_tag_Ok [OF k] by simp
  note r = Response_field_Ok [OF s this len]
  have "length (drop i d) < 2 ^ 63"
    by (rule le_less_trans [OF _ len]) simp
  then have "Skip ph (drop i d) \<noteq> Inr 0"
    using Skip_positive by blast
  with r show "i < j \<and> j \<le> length d" and "response_weight m' + i \<le> response_weight m + j"
    by auto
qed

section \<open>An instance of the contract\<close>

text \<open>
  Functions with the documented behaviour of \<open>protohelpers\<close>, to show that the contract can be
  met: the varint written back to front, its length, and the length of the first record.
\<close>

definition ref_Skip :: "bytes \<Rightarrow> go_error + u64" where
  "ref_Skip d =
     (case varint_loop d 0 0 (0 :: u64) of
        Ok (wire, i) \<Rightarrow>
          let t = wire AND 7;
              r = (if t = 0 then
                     (case varint_loop d i 0 (0 :: u64) of Ok (_, j) \<Rightarrow> word_of_nat j | _ \<Rightarrow> 0)
                   else if t = 1 then word_of_nat (i + 8)
                   else if t = 2 then
                     (case varint_loop d i 0 (0 :: u64) of Ok (n, j) \<Rightarrow> word_of_nat j + n | _ \<Rightarrow> 0)
                   else if t = 5 then word_of_nat (i + 4)
                   else 0)
          in if r = 0 then Inl ErrUnexpectedEOF else Inr r
      | _ \<Rightarrow> Inl ErrUnexpectedEOF)"

definition ref_helpers :: protohelpers where
  "ref_helpers =
     \<lparr>EncodeVarint = (\<lambda>d i v. back_copy d i (uvarint v)),
      SizeOfVarint = (\<lambda>v. length (uvarint v)),
      Skip = ref_Skip\<rparr>"

lemma ref_Skip_positive: "ref_Skip d = Inr n \<Longrightarrow> n \<noteq> 0"
  by (auto simp: ref_Skip_def Let_def split: outcome.splits if_splits)

interpretation ref: vt_helpers_skip ref_helpers
  by unfold_locales (auto simp: ref_helpers_def back_copy_append dest: ref_Skip_positive)

end
