(* ===== verification/Vt_Codec.thy ===== *)
theory Vt_Codec
  imports Vt_Unmarshal
begin

text \<open>
  The generated code as a codec. The locale \<open>message_codec\<close> is the interface that the frame
  encoder and the read loops rely on: a size, a marshaller that fills the end of a buffer, and an
  unmarshaller that reads it back. Both messages provide it (two \<open>sublocale\<close>s of
  \<open>vt_helpers\<close>). The theory ends with the properties of the codec as a whole.
\<close>

section \<open>The interface\<close>

locale message_codec =
  fixes zero :: 'm
    and size_of :: "'m \<Rightarrow> nat"
    and marshal_into :: "'m \<Rightarrow> bytes \<Rightarrow> (bytes \<times> nat) outcome"
    and unmarshal_from :: "'m \<Rightarrow> bytes \<Rightarrow> 'm outcome"
    and enc :: "'m \<Rightarrow> bytes"
    and wf_msg :: "'m \<Rightarrow> bool"
  assumes size_enc: "wf_msg m \<Longrightarrow> size_of m = length (enc m)"
    and marshal_enc:
      "wf_msg m \<Longrightarrow> length (enc m) \<le> length d \<Longrightarrow>
       marshal_into m d = Ok (take (length d - length (enc m)) d @ enc m, length (enc m))"
    and unmarshal_enc: "wf_msg m \<Longrightarrow> unmarshal_from zero (enc m) = Ok m"
    and enc_bound: "wf_msg m \<Longrightarrow> length (enc m) < 2 ^ 63"
begin

lemma marshal_exact: "wf_msg m \<Longrightarrow> length d = size_of m \<Longrightarrow> marshal_into m d = Ok (enc m, length (enc m))"
  using marshal_enc [of m d] size_enc [of m] by simp

lemma enc_inj: "wf_msg m \<Longrightarrow> wf_msg m' \<Longrightarrow> enc m = enc m' \<Longrightarrow> m = m'"
  by (metis outcome.inject(1) unmarshal_enc)

end

text \<open>A message that the API can build: it fits in memory and has no unknown fields.\<close>

definition wf_request :: "request \<Rightarrow> bool" where
  "wf_request m \<longleftrightarrow> request_fits m \<and> rq_unknownFields m = []"

definition wf_response :: "response \<Rightarrow> bool" where
  "wf_response m \<longleftrightarrow> response_fits m \<and> rs_unknownFields m = []"

sublocale vt_helpers \<subseteq> rq_codec: message_codec Request_zero "\<lambda>m. Request_SizeVT ph (Some m)"
    "\<lambda>m. Request_MarshalToSizedBufferVT ph (Some m)" "Request_UnmarshalVT ph" enc_request wf_request
  by unfold_locales
    (auto simp: wf_request_def Request_SizeVT_eq Request_MarshalToSizedBufferVT_eq
      Request_UnmarshalVT_merge request_merge_zero request_fits_def)

sublocale vt_helpers \<subseteq> rs_codec: message_codec Response_zero "\<lambda>m. Response_SizeVT ph (Some m)"
    "\<lambda>m. Response_MarshalToSizedBufferVT ph (Some m)" "Response_UnmarshalVT ph" enc_response wf_response
  by unfold_locales
    (auto simp: wf_response_def Response_SizeVT_eq Response_MarshalToSizedBufferVT_eq
      Response_UnmarshalVT_merge response_merge_zero response_fits_def)

context vt_helpers
begin

lemma Request_MarshalVT_eq:
  assumes "request_fits m"
  shows "Request_MarshalVT ph (Some m) = Ok (enc_request m)"
  using assms
  by (simp add: Request_MarshalVT_def Request_SizeVT_eq Request_MarshalToSizedBufferVT_eq Let_def)

lemma Response_MarshalVT_eq:
  assumes "response_fits m"
  shows "Response_MarshalVT ph (Some m) = Ok (enc_response m)"
  using assms
  by (simp add: Response_MarshalVT_def Response_SizeVT_eq Response_MarshalToSizedBufferVT_eq Let_def)

end

context vt_helpers_skip
begin

lemma UnmarshalVT_returns:
  assumes "length d < 2 ^ 63"
  shows "returns (Request_UnmarshalVT ph m d)" and "returns (Response_UnmarshalVT ph r d)"
  using rq.loop_returns [OF assms, of 0 m] rs.loop_returns [OF assms, of 0 r]
  by (simp_all add: Request_UnmarshalVT_def Response_UnmarshalVT_def)

lemma UnmarshalVT_weight:
  assumes "length d < 2 ^ 63"
  shows "Request_UnmarshalVT ph m d = Ok m' \<Longrightarrow> request_weight m' \<le> request_weight m + length d"
    and "Response_UnmarshalVT ph r d = Ok r' \<Longrightarrow> response_weight r' \<le> response_weight r + length d"
  using rq.loop_weight [OF assms, of 0 m] rs.loop_weight [OF assms, of 0 r]
  by (simp_all add: Request_UnmarshalVT_def Response_UnmarshalVT_def)

end

section \<open>Properties\<close>

lemma request_roundtrip:
  assumes "vt_helpers ph" and "request_fits m" and "rq_unknownFields m = []"
  shows "\<exists>d. Request_MarshalVT ph (Some m) = Ok d \<and> length d = Request_SizeVT ph (Some m) \<and>
    Request_UnmarshalVT ph Request_zero d = Ok m"
  using vt_helpers.Request_MarshalVT_eq [OF assms(1,2)] vt_helpers.Request_SizeVT_eq [OF assms(1,2)]
    Request_UnmarshalVT_merge [OF assms(2,3), of ph Request_zero] assms(3)
  by (simp add: request_merge_zero)

definition sample_request :: request where
  "sample_request =
     \<lparr>rq_RequestId = 300, rq_Headers = [[0x61], []], rq_Method = [0x65, 0x63], rq_Body = [1, 2, 3],
      rq_unknownFields = []\<rparr>"

lemma enc_sample_request:
  "enc_request sample_request =
     [0x0a, 1, 0x61, 0x0a, 0, 0x12, 2, 0x65, 0x63, 0x18, 0xac, 0x02, 0x22, 3, 1, 2, 3]"
  by (simp add: sample_request_def enc_request_def enc_headers_def enc_opt_bytes_def
      enc_opt_varint_def enc_bytes_def enc_varint_def uvarint_def venc.simps)

lemma sample_request_fits: "request_fits sample_request"
  by (simp add: request_fits_def enc_sample_request)

lemma response_roundtrip:
  assumes "vt_helpers ph" and "response_fits m" and "rs_unknownFields m = []"
  shows "\<exists>d. Response_MarshalVT ph (Some m) = Ok d \<and> length d = Response_SizeVT ph (Some m) \<and>
    Response_UnmarshalVT ph Response_zero d = Ok m"
  using vt_helpers.Response_MarshalVT_eq [OF assms(1,2)] vt_helpers.Response_SizeVT_eq [OF assms(1,2)]
    Response_UnmarshalVT_merge [OF assms(2,3), of ph Response_zero] assms(3)
  by (simp add: response_merge_zero)

definition sample_response :: response where
  "sample_response =
     \<lparr>rs_RequestId = 300, rs_Code = 200, rs_Headers = [], rs_Method = [], rs_Body = [7],
      rs_unknownFields = []\<rparr>"

lemma enc_sample_response:
  "enc_response sample_response = [0x18, 0xac, 0x02, 0x22, 1, 7, 0x28, 0xc8, 0x01]"
  by (simp add: sample_response_def enc_response_def enc_headers_def enc_opt_bytes_def
      enc_opt_varint_def enc_bytes_def enc_varint_def uvarint_def venc.simps)

lemma sample_response_fits: "response_fits sample_response"
  by (simp add: response_fits_def enc_sample_response)

text \<open>
  C17. Marshalling a message and unmarshalling the bytes into a fresh message gives it back, for
  requests and for responses with their status code, and the bytes are exactly as many as \<open>SizeVT\<close>
  announces.
\<close>

theorem messages_roundtrip:
  assumes "vt_helpers ph" and "request_fits rq" and "rq_unknownFields rq = []"
    and "response_fits rs" and "rs_unknownFields rs = []"
  shows "(\<exists>d. Request_MarshalVT ph (Some rq) = Ok d \<and> length d = Request_SizeVT ph (Some rq) \<and>
      Request_UnmarshalVT ph Request_zero d = Ok rq) \<and>
    (\<exists>d. Response_MarshalVT ph (Some rs) = Ok d \<and> length d = Response_SizeVT ph (Some rs) \<and>
      Response_UnmarshalVT ph Response_zero d = Ok rs)"
  by (intro conjI request_roundtrip response_roundtrip assms)

theorem messages_roundtrip_witness:
  "(\<exists>d. Request_MarshalVT ref_helpers (Some sample_request) = Ok d \<and>
      length d = Request_SizeVT ref_helpers (Some sample_request) \<and>
      Request_UnmarshalVT ref_helpers Request_zero d = Ok sample_request) \<and>
   (\<exists>d. Response_MarshalVT ref_helpers (Some sample_response) = Ok d \<and>
      length d = Response_SizeVT ref_helpers (Some sample_response) \<and>
      Response_UnmarshalVT ref_helpers Response_zero d = Ok sample_response)"
  by (rule messages_roundtrip [OF ref.vt_helpers_axioms sample_request_fits _ sample_response_fits])
    (simp_all add: sample_request_def sample_response_def)

text \<open>
  \<open>MarshalToSizedBufferVT\<close> on a buffer with room for the message fills exactly its last
  \<open>SizeVT\<close> bytes with the wire format of the message, leaves the bytes before them as they
  were, returns their number and does not panic.
\<close>

theorem request_marshal_fills_tail:
  assumes "vt_helpers ph" and "request_fits m" and "length free + Request_SizeVT ph (Some m) = length d"
    and "d = free @ old"
  shows "Request_MarshalToSizedBufferVT ph (Some m) d =
    Ok (free @ enc_request m, Request_SizeVT ph (Some m))"
  using vt_helpers.Request_MarshalToSizedBufferVT_eq [OF assms(1,2), of d]
    vt_helpers.Request_SizeVT_eq [OF assms(1,2)] assms(3,4) by auto

theorem request_marshal_fills_tail_witness:
  "Request_MarshalToSizedBufferVT ref_helpers (Some sample_request) (replicate 20 9) =
     Ok (replicate 3 9 @ enc_request sample_request, 17)"
proof -
  have "Request_SizeVT ref_helpers (Some sample_request) = 17"
    using ref.Request_SizeVT_eq [OF sample_request_fits] by (simp add: enc_sample_request)
  moreover have "replicate 20 9 = replicate 3 9 @ replicate 17 (9 :: byte)"
    by (simp flip: replicate_add)
  ultimately show ?thesis
    using request_marshal_fills_tail [OF ref.vt_helpers_axioms sample_request_fits,
        of "replicate 3 9" "replicate 20 9" "replicate 17 9"] by simp
qed

text \<open>
  C19. On arbitrary input bytes (any the network may deliver) both \<open>UnmarshalVT\<close> methods return:
  a message or an error, never an out-of-range panic and never an endless loop, provided
  \<open>Skip\<close> reports a positive length when it succeeds.
\<close>

theorem unmarshal_total:
  assumes "vt_helpers_skip ph" and "length d < 2 ^ 63"
  shows "returns (Request_UnmarshalVT ph m d) \<and> returns (Response_UnmarshalVT ph r d)"
  using vt_helpers_skip.UnmarshalVT_returns [OF assms] by blast

theorem unmarshal_total_witness:
  "returns (Request_UnmarshalVT ref_helpers Request_zero (replicate 11 0xff)) \<and>
   returns (Response_UnmarshalVT ref_helpers Response_zero (replicate 11 0xff))"
  by (rule unmarshal_total [OF ref.vt_helpers_skip_axioms]) simp



end
