(* ===== verification/Wire_Types.thy ===== *)
theory Wire_Types
  imports Go_Base
begin

text \<open>
  The frame flags of \<open>transport/types/flag.go\<close>. The sentinel error of
  \<open>transport/types/errors.go\<close> is the constructor \<open>StreamsListIsEmpty\<close> of \<open>go_error\<close>.
\<close>

section \<open>Flags\<close>

definition REQUEST_FLAG :: byte where "REQUEST_FLAG = 1"
definition RESPONSE_FLAG :: byte where "RESPONSE_FLAG = 2"
definition EVENT_FLAG :: byte where "EVENT_FLAG = 3"
definition REQUEST_ZSTD_FLAG :: byte where "REQUEST_ZSTD_FLAG = 4"
definition RESPONSE_ZSTD_FLAG :: byte where "RESPONSE_ZSTD_FLAG = 5"
definition EVENT_ZSTD_FLAG :: byte where "EVENT_ZSTD_FLAG = 6"

lemmas flag_defs =
  REQUEST_FLAG_def RESPONSE_FLAG_def EVENT_FLAG_def
  REQUEST_ZSTD_FLAG_def RESPONSE_ZSTD_FLAG_def EVENT_ZSTD_FLAG_def

lemma flags_distinct:
  "distinct [REQUEST_FLAG, RESPONSE_FLAG, EVENT_FLAG,
     REQUEST_ZSTD_FLAG, RESPONSE_ZSTD_FLAG, EVENT_ZSTD_FLAG]"
  by (simp add: flag_defs)

end
