(* ===== verification/Object_Pools.thy ===== *)
theory Object_Pools
  imports Proto_Schema
begin

text \<open>
  The pools of protobuf messages of \<open>transport/quic/client/multiplexer.go\<close> (\<open>GetRequest\<close>,
  \<open>ReleaseRequest\<close>, \<open>GetResponse\<close>, \<open>ReleaseResponse\<close>), and the locale \<open>clean_pool\<close> that all
  object pools of the program satisfy: what is put back is clean, so whatever the pool hands out,
  an old object or a new one, is clean.

  The pool of a \<open>sync.Pool\<close> variable is a list; a \<open>Get\<close> takes the choice the runtime makes as
  an argument (\<open>pool_get\<close>).
\<close>

section \<open>The interface of object pools\<close>

locale clean_pool =
  fixes new :: 'a
    and clean :: "'a \<Rightarrow> bool"
  assumes new_clean: "clean new"
begin

definition pool_ok :: "'a list \<Rightarrow> bool" where
  "pool_ok pool \<longleftrightarrow> (\<forall>x \<in> set pool. clean x)"

lemma pool_ok_empty: "pool_ok []"
  by (simp add: pool_ok_def)

lemma get_clean: "pool_ok pool \<Longrightarrow> clean (fst (pool_get k new pool))"
  using pool_get_in [OF refl, of k new pool] new_clean by (auto simp: pool_ok_def)

lemma get_ok: "pool_ok pool \<Longrightarrow> pool_ok (snd (pool_get k new pool))"
  using pool_get_rest [of k new pool] by (auto simp: pool_ok_def)

lemma put_ok: "pool_ok pool \<Longrightarrow> clean x \<Longrightarrow> pool_ok (pool_put x pool)"
  by (simp add: pool_ok_def pool_put_def)

end

section \<open>Requests and responses\<close>

definition GetRequest :: "nat \<Rightarrow> request list \<Rightarrow> request \<times> request list" where
  "GetRequest k requests = pool_get k Request_zero requests"

definition GetResponse :: "nat \<Rightarrow> response list \<Rightarrow> response \<times> response list" where
  "GetResponse k responses = pool_get k Response_zero responses"

text \<open>
  What \<open>ReleaseRequest\<close> leaves in the message: the slices are kept with length 0, for their
  capacity; the other fields are reset. The caller's pointer still points to it.
\<close>

definition reset_request :: "request \<Rightarrow> request" where
  "reset_request req =
     (let headers = take 0 (rq_Headers req);
          meth = take 0 (rq_Method req);
          body = take 0 (rq_Body req)
      in (Request_Reset req)\<lparr>rq_Headers := headers, rq_Method := meth, rq_Body := body\<rparr>)"

definition ReleaseRequest :: "request \<Rightarrow> request list \<Rightarrow> request list" where
  "ReleaseRequest req requests = pool_put (reset_request req) requests"

definition ReleaseResponse :: "response \<Rightarrow> response list \<Rightarrow> response list" where
  "ReleaseResponse resp responses =
     (let headers = take 0 (rs_Headers resp);
          meth = take 0 (rs_Method resp);
          body = take 0 (rs_Body resp)
      in pool_put
           ((Response_Reset resp)\<lparr>rs_Headers := headers, rs_Method := meth, rs_Body := body\<rparr>)
           responses)"

interpretation rq_pool: clean_pool Request_zero "\<lambda>m. m = Request_zero"
  by unfold_locales simp

interpretation rs_pool: clean_pool Response_zero "\<lambda>m. m = Response_zero"
  by unfold_locales simp

lemma reset_request_eq [simp]: "reset_request req = Request_zero"
  by (simp add: reset_request_def Let_def)

lemma ReleaseRequest_eq: "ReleaseRequest req requests = Request_zero # requests"
  by (simp add: ReleaseRequest_def pool_put_def)

lemma ReleaseResponse_eq: "ReleaseResponse resp responses = Response_zero # responses"
  by (simp add: ReleaseResponse_def pool_put_def Let_def)

lemma ReleaseRequest_ok: "rq_pool.pool_ok p \<Longrightarrow> rq_pool.pool_ok (ReleaseRequest req p)"
  by (simp add: ReleaseRequest_eq rq_pool.pool_ok_def)

lemma ReleaseResponse_ok: "rs_pool.pool_ok p \<Longrightarrow> rs_pool.pool_ok (ReleaseResponse resp p)"
  by (simp add: ReleaseResponse_eq rs_pool.pool_ok_def)

lemma GetRequest_ok:
  assumes "rq_pool.pool_ok p"
  shows "fst (GetRequest k p) = Request_zero" and "rq_pool.pool_ok (snd (GetRequest k p))"
  using rq_pool.get_clean [OF assms, of k] rq_pool.get_ok [OF assms, of k]
  by (simp_all add: GetRequest_def)

lemma GetResponse_ok:
  assumes "rs_pool.pool_ok p"
  shows "fst (GetResponse k p) = Response_zero" and "rs_pool.pool_ok (snd (GetResponse k p))"
  using rs_pool.get_clean [OF assms, of k] rs_pool.get_ok [OF assms, of k]
  by (simp_all add: GetResponse_def)

end
