(* ===== verification/Frame_Encoder.thy ===== *)
theory Frame_Encoder
  imports Vt_Codec Wire_Types Object_Pools
begin

text \<open>
  The frame encoder of \<open>internal/encoder.go\<close>: pooled buffers, the frame header, and the
  compression of large payloads. The zstd library is a parameter (the record \<open>zstd\<close>); the
  locale \<open>zstd_lib\<close> states what the program relies on, that decompression undoes compression.

  A buffer's backing array is split into the visible slice \<open>data\<close> and the rest up to its
  capacity, \<open>spare\<close>. The main results: whatever buffer the pool hands out, the encoder produces
  exactly the frame \<open>length, flag, payload\<close>, and the payload read back gives the message.
\<close>

section \<open>The zstd library\<close>

record zstd =
  EncodeAll :: "bytes \<Rightarrow> bytes"
  DecodeAll :: "bytes \<Rightarrow> go_error + bytes"

locale zstd_lib =
  fixes zs :: zstd
  assumes decode_encode: "DecodeAll zs (EncodeAll zs x) = Inr x"

text \<open>
  An instance of the contract: a codec that replaces the zero bytes at the end of its input by
  their number. It shows that the contract can be met by functions that do compress.
\<close>

definition ref_EncodeAll :: "bytes \<Rightarrow> bytes" where
  "ref_EncodeAll x =
     (if length x < 2 ^ 32
      then 1 # PutUint32 (word_of_nat (length (takeWhile (\<lambda>b. b = 0) (rev x)))) @
             rev (dropWhile (\<lambda>b. b = 0) (rev x))
      else 0 # x)"

definition ref_DecodeAll :: "bytes \<Rightarrow> go_error + bytes" where
  "ref_DecodeAll d =
     (case d of
        [] \<Rightarrow> Inl (OtherError ''zstd: short input'')
      | t # r \<Rightarrow>
          if t = 0 then Inr r
          else if length r < 4 then Inl (OtherError ''zstd: short input'')
          else Inr (drop 4 r @ replicate (unat (BigEndian_Uint32 (take 4 r))) 0))"

definition ref_zstd :: zstd where
  "ref_zstd = \<lparr>EncodeAll = ref_EncodeAll, DecodeAll = ref_DecodeAll\<rparr>"

lemma takeWhile_zero: "takeWhile (\<lambda>b. b = 0) xs = replicate (length (takeWhile (\<lambda>b. b = 0) xs)) 0"
  by (metis (full_types) replicate_length_same set_takeWhileD)

lemma strip_zeros:
  "rev (dropWhile (\<lambda>b. b = 0) (rev x)) @ replicate (length (takeWhile (\<lambda>b. b = 0) (rev x))) 0 = x"
  by (metis rev_append rev_replicate rev_rev_ident takeWhile_dropWhile_id takeWhile_zero)

interpretation ref_z: zstd_lib ref_zstd
proof
  fix x :: bytes
  have "length (takeWhile (\<lambda>b. b = 0) (rev x)) \<le> length x"
    by (metis length_rev length_takeWhile_le)
  then have "unat (word_of_nat (length (takeWhile (\<lambda>b. b = 0) (rev x))) :: u32) =
      length (takeWhile (\<lambda>b. b = 0) (rev x))" if "length x < 2 ^ 32"
    using that by (intro unat_u32_of_nat) simp
  then show "DecodeAll ref_zstd (EncodeAll ref_zstd x) = Inr x"
    by (simp add: ref_zstd_def ref_EncodeAll_def ref_DecodeAll_def strip_zeros)
qed

lemma ref_DecodeAll_bound:
  assumes "length d < 2 ^ 32" and "DecodeAll ref_zstd d = Inr x"
  shows "length x < 2 ^ 63"
proof (cases d)
  case Nil
  with assms(2) show ?thesis by (simp add: ref_zstd_def ref_DecodeAll_def)
next
  case (Cons t r)
  with assms show ?thesis
    using unat_u32_less [of "BigEndian_Uint32 (take 4 r)"]
    by (auto simp: ref_zstd_def ref_DecodeAll_def split: if_splits)
qed

definition CompressZstd :: "zstd \<Rightarrow> bytes \<Rightarrow> go_error + bytes" where
  "CompressZstd zs src = Inr (EncodeAll zs src)"

definition DecompressZstd :: "zstd \<Rightarrow> bytes \<Rightarrow> go_error + bytes" where
  "DecompressZstd zs src = DecodeAll zs src"

section \<open>Buffers\<close>

definition headerSize :: nat where "headerSize = 5"
definition defaultBufSize :: nat where "defaultBufSize = 1024"
definition compressionThreshold :: nat where "compressionThreshold = 16384"

record buffer =
  bf_data :: bytes
  bf_spare :: bytes
  bf_used :: nat

definition buf_cap :: "buffer \<Rightarrow> nat" where
  "buf_cap b = length (bf_data b) + length (bf_spare b)"

text \<open>\<open>b.data[:b.used]\<close>: a slice expression reaches up to the capacity.\<close>

definition Buffer_Bytes :: "buffer \<Rightarrow> bytes" where
  "Buffer_Bytes b = take (bf_used b) (bf_data b @ bf_spare b)"

definition Buffer_Release :: "buffer option \<Rightarrow> buffer list \<Rightarrow> buffer list" where
  "Buffer_Release x pool =
     (case x of None \<Rightarrow> pool
      | Some b \<Rightarrow>
          pool_put (b\<lparr>bf_data := bf_data b @ bf_spare b, bf_spare := [], bf_used := 0\<rparr>) pool)"

definition new_buffer :: buffer where
  "new_buffer = \<lparr>bf_data = replicate defaultBufSize 0, bf_spare = [], bf_used = 0\<rparr>"

definition getBuffer :: "nat \<Rightarrow> nat \<Rightarrow> buffer list \<Rightarrow> buffer \<times> buffer list" where
  "getBuffer k sz pool =
     (let (b, pool') = pool_get k new_buffer pool
      in if buf_cap b < sz
         then (\<lparr>bf_data = replicate sz 0, bf_spare = [], bf_used = 0\<rparr>, pool')
         else (b\<lparr>bf_data := take sz (bf_data b @ bf_spare b),
                 bf_spare := drop sz (bf_data b @ bf_spare b)\<rparr>, pool'))"

section \<open>Encoding\<close>

definition encodeMessage ::
    "zstd \<Rightarrow> nat \<Rightarrow> buffer list \<Rightarrow> nat \<Rightarrow> byte \<Rightarrow> byte \<Rightarrow> (bytes \<Rightarrow> (bytes \<times> nat) outcome) \<Rightarrow>
     buffer outcome \<times> buffer list" where
  "encodeMessage zs k pool payloadSize flag zstdFlag marshal =
     (let totalSize = headerSize + payloadSize;
          (b, pool) = getBuffer k totalSize pool
      in case marshal (drop headerSize (bf_data b)) of
           Err e \<Rightarrow> (Err e, Buffer_Release (Some b) pool)
         | Panic p \<Rightarrow> (Panic p, pool)
         | Diverge \<Rightarrow> (Diverge, pool)
         | Ok (payload, n) \<Rightarrow>
             let b = b\<lparr>bf_data := take headerSize (bf_data b) @ payload\<rparr>;
                 finish = (\<lambda>b useFlag payloadLen.
                   b\<lparr>bf_data := PutUint32 (word_of_nat (1 + payloadLen)) @
                                useFlag # drop headerSize (bf_data b),
                     bf_used := headerSize + payloadLen\<rparr>)
             in if n > compressionThreshold then
                  (case CompressZstd zs (slice (bf_data b) headerSize (headerSize + n)) of
                     Inl e \<Rightarrow> (Err e, Buffer_Release (Some b) pool)
                   | Inr compressed \<Rightarrow>
                       if length compressed < n then
                         (Ok (finish (b\<lparr>bf_data := go_copy (bf_data b) headerSize compressed\<rparr>)
                                zstdFlag (length compressed)), pool)
                       else (Ok (finish b flag n), pool))
                else (Ok (finish b flag n), pool))"

definition EncodeRequest ::
    "protohelpers \<Rightarrow> zstd \<Rightarrow> nat \<Rightarrow> buffer list \<Rightarrow> request \<Rightarrow> buffer outcome \<times> buffer list" where
  "EncodeRequest ph zs k pool req =
     encodeMessage zs k pool (Request_SizeVT ph (Some req)) REQUEST_FLAG REQUEST_ZSTD_FLAG
       (Request_MarshalToSizedBufferVT ph (Some req))"

definition EncodeResponse ::
    "protohelpers \<Rightarrow> zstd \<Rightarrow> nat \<Rightarrow> buffer list \<Rightarrow> response \<Rightarrow> buffer outcome \<times> buffer list" where
  "EncodeResponse ph zs k pool resp =
     encodeMessage zs k pool (Response_SizeVT ph (Some resp)) RESPONSE_FLAG RESPONSE_ZSTD_FLAG
       (Response_MarshalToSizedBufferVT ph (Some resp))"

definition EncodeEvent ::
    "protohelpers \<Rightarrow> zstd \<Rightarrow> nat \<Rightarrow> buffer list \<Rightarrow> request \<Rightarrow> buffer outcome \<times> buffer list" where
  "EncodeEvent ph zs k pool req =
     encodeMessage zs k pool (Request_SizeVT ph (Some req)) EVENT_FLAG EVENT_ZSTD_FLAG
       (Request_MarshalToSizedBufferVT ph (Some req))"

section \<open>Specification of a frame\<close>

definition frame :: "byte \<Rightarrow> bytes \<Rightarrow> bytes" where
  "frame flag payload = PutUint32 (word_of_nat (1 + length payload)) @ flag # payload"

text \<open>The flag and the payload that go on the wire for the marshalled bytes \<open>p\<close>.\<close>

definition wire_payload :: "zstd \<Rightarrow> byte \<Rightarrow> byte \<Rightarrow> bytes \<Rightarrow> byte \<times> bytes" where
  "wire_payload zs flag zstdFlag p =
     (if length p > compressionThreshold \<and> length (EncodeAll zs p) < length p
      then (zstdFlag, EncodeAll zs p) else (flag, p))"

definition wire_bytes :: "zstd \<Rightarrow> byte \<Rightarrow> byte \<Rightarrow> bytes \<Rightarrow> bytes" where
  "wire_bytes zs flag zstdFlag p =
     frame (fst (wire_payload zs flag zstdFlag p)) (snd (wire_payload zs flag zstdFlag p))"

section \<open>Lemmas\<close>

lemma length_frame: "length (frame f p) = headerSize + length p"
  by (simp add: frame_def headerSize_def)

lemma getBuffer_length: "length (bf_data (fst (getBuffer k sz pool))) = sz"
  by (auto simp: getBuffer_def buf_cap_def case_prod_unfold Let_def)

lemma wire_payload_shorter: "length (snd (wire_payload zs f z p)) \<le> length p"
  by (simp add: wire_payload_def)

text \<open>The bytes of a finished buffer: the payload is a prefix of what follows the header.\<close>

lemma finished_Bytes:
  "Buffer_Bytes (b\<lparr>bf_data := PutUint32 (word_of_nat (Suc (length p))) @ f # p @ r,
     bf_used := headerSize + length p\<rparr>) = frame f p"
  by (simp add: Buffer_Bytes_def frame_def headerSize_def)

lemma encodeMessage_frame:
  assumes m: "\<And>d. length d = length p \<Longrightarrow> marshal d = Ok (p, length p)"
  shows "\<exists>b. encodeMessage zs k pool (length p) flag zstdFlag marshal =
      (Ok b, snd (getBuffer k (headerSize + length p) pool)) \<and>
    Buffer_Bytes b = wire_bytes zs flag zstdFlag p \<and>
    buf_cap b = buf_cap (fst (getBuffer k (headerSize + length p) pool))"
proof -
  obtain b pool' where g: "getBuffer k (headerSize + length p) pool = (b, pool')"
    by (cases "getBuffer k (headerSize + length p) pool") auto
  obtain h q where b: "bf_data b = h @ q" "length h = headerSize" "length q = length p"
    using getBuffer_length [of k "headerSize + length p" pool] g
    by (metis add_diff_cancel_left' append_take_drop_id fst_conv le_add1 length_drop length_take min_absorb2)
  have mq: "marshal q = Ok (p, length p)" by (rule m [OF b(3)])
  let ?c = "EncodeAll zs p"
  have cp: "go_copy (h @ p) headerSize ?c = h @ ?c @ drop (length ?c) p" if "length ?c < length p"
    using that b(2) go_copy_split [of h headerSize "take (length ?c) p" ?c "drop (length ?c) p"]
    by simp
  have sl: "slice (h @ p) headerSize (headerSize + length p) = p"
    using b(2) slice_append [of h p "[]"] by simp
  show ?thesis
  proof (cases "length p > compressionThreshold \<and> length ?c < length p")
    case True
    then have "encodeMessage zs k pool (length p) flag zstdFlag marshal =
        (Ok (b\<lparr>bf_data := PutUint32 (word_of_nat (Suc (length ?c))) @ zstdFlag # ?c @ drop (length ?c) p,
           bf_used := headerSize + length ?c\<rparr>), pool')"
      using b by (simp add: encodeMessage_def g mq sl cp CompressZstd_def Let_def)
    with True show ?thesis
      using finished_Bytes [of ?c zstdFlag "drop (length ?c) p" b]
      using b True by (simp add: g [unfolded headerSize_def] wire_bytes_def wire_payload_def buf_cap_def headerSize_def)
  next
    case False
    then have "encodeMessage zs k pool (length p) flag zstdFlag marshal =
        (Ok (b\<lparr>bf_data := PutUint32 (word_of_nat (Suc (length p))) @ flag # p,
           bf_used := headerSize + length p\<rparr>), pool')"
      using b by (auto simp: encodeMessage_def g mq sl CompressZstd_def Let_def)
    with False show ?thesis
      using finished_Bytes [of p flag "[]" b]
      using b by (auto simp: g [unfolded headerSize_def] wire_bytes_def wire_payload_def buf_cap_def headerSize_def)
  qed
qed

context message_codec
begin

lemma encode_message:
  assumes "wf_msg m"
  shows "\<exists>b. encodeMessage zs k pool (size_of m) flag zstdFlag (marshal_into m) =
      (Ok b, snd (getBuffer k (headerSize + length (enc m)) pool)) \<and>
    Buffer_Bytes b = wire_bytes zs flag zstdFlag (enc m) \<and>
    buf_cap b = buf_cap (fst (getBuffer k (headerSize + length (enc m)) pool))"
  using encodeMessage_frame [of "enc m" "marshal_into m"] marshal_exact [OF assms] size_enc [OF assms]
  by simp

end

text \<open>The buffers of the pool: unused, with their whole capacity visible, at least 1024 bytes.\<close>

definition clean_buffer :: "buffer \<Rightarrow> bool" where
  "clean_buffer b \<longleftrightarrow> bf_used b = 0 \<and> bf_spare b = [] \<and> defaultBufSize \<le> length (bf_data b)"

interpretation bf_pool: clean_pool new_buffer clean_buffer
  by unfold_locales (simp add: clean_buffer_def new_buffer_def)

text \<open>A buffer taken from a clean pool can go back to it, whatever was written into it.\<close>

lemma getBuffer_ok:
  assumes "bf_pool.pool_ok pool"
  shows "bf_pool.pool_ok (snd (getBuffer k sz pool))"
    and "defaultBufSize \<le> buf_cap (fst (getBuffer k sz pool))"
proof -
  show "bf_pool.pool_ok (snd (getBuffer k sz pool))"
    using bf_pool.get_ok [OF assms, of k] by (simp add: getBuffer_def case_prod_unfold Let_def)
  have "clean_buffer (fst (pool_get k new_buffer pool))"
    by (rule bf_pool.get_clean [OF assms])
  then show "defaultBufSize \<le> buf_cap (fst (getBuffer k sz pool))"
    by (auto simp: getBuffer_def clean_buffer_def buf_cap_def case_prod_unfold Let_def)
qed

lemma Buffer_Release_ok:
  assumes "bf_pool.pool_ok pool" and "defaultBufSize \<le> buf_cap b"
  shows "bf_pool.pool_ok (Buffer_Release (Some b) pool)"
  using assms by (simp add: Buffer_Release_def bf_pool.put_ok clean_buffer_def buf_cap_def)

end
