(* ===== verification/Frame_Reader.thy ===== *)
theory Frame_Reader
  imports Frame_Encoder
begin

text \<open>
  Reading frames, the part that the server's \<open>streamReadCycle\<close> and the client's \<open>readCycle\<close>
  share: \<open>io.ReadFull\<close> on a stream, the length header, the flag and the payload, and the
  decompression by flag. What a QUIC stream delivers is a parameter: the bytes that reads will
  return, in order, and the error that ends them.

  The two loops test for the idle-timeout error at different places (the server only when it reads
  the length), which decides what they log; the argument \<open>tmo\<close> says whether the flag and payload
  reads test for it. The reused payload buffer is filled completely by every read, so it is not
  part of the state.
\<close>

section \<open>Streams\<close>

record instream =
  in_bytes :: bytes
  in_err :: go_error

text \<open>
  \<open>io.ReadFull\<close>: the error is \<open>ErrUnexpectedEOF\<close> when the stream ends after some of the bytes.
\<close>

definition ReadFull :: "nat \<Rightarrow> instream \<Rightarrow> (go_error + bytes) \<times> instream" where
  "ReadFull n s =
     (if n \<le> length (in_bytes s)
      then (Inr (take n (in_bytes s)), s\<lparr>in_bytes := drop n (in_bytes s)\<rparr>)
      else (Inl (if in_bytes s \<noteq> [] \<and> in_err s = ErrEOF then ErrUnexpectedEOF else in_err s),
            s\<lparr>in_bytes := []\<rparr>))"

definition IsTimeoutErr :: "go_error \<Rightarrow> bool" where
  "IsTimeoutErr err \<longleftrightarrow> (if err = IdleTimeoutError then True else False)"

definition isApplicationErr :: "go_error \<Rightarrow> bool" where
  "isApplicationErr err \<longleftrightarrow> err = ApplicationError"

section \<open>Frames\<close>

text \<open>Why a read loop returns, as it logs it.\<close>

datatype read_exit =
    PeerDisconnected
  | ClientClosedConnection
  | InvalidFrameLength
  | ReadFailed string go_error

definition classify :: "bool \<Rightarrow> string \<Rightarrow> go_error \<Rightarrow> read_exit" where
  "classify tmo what err =
     (if tmo \<and> IsTimeoutErr err then PeerDisconnected
      else if isApplicationErr err then ClientClosedConnection
      else ReadFailed what err)"

definition read_frame :: "bool \<Rightarrow> instream \<Rightarrow> (read_exit + byte \<times> bytes) \<times> instream" where
  "read_frame tmo s =
     (case ReadFull 4 s of
        (Inl err, s) \<Rightarrow> (Inl (classify True ''header length'' err), s)
      | (Inr headerLengthBuff, s) \<Rightarrow>
          let len = BigEndian_Uint32 headerLengthBuff
          in if len < 1 then (Inl InvalidFrameLength, s)
             else
               (case ReadFull 1 s of
                  (Inl err, s) \<Rightarrow> (Inl (classify tmo ''flag'' err), s)
                | (Inr flagBuff, s) \<Rightarrow>
                    let payloadLen = unat len - 1
                    in (case ReadFull payloadLen s of
                          (Inl err, s) \<Rightarrow> (Inl (classify tmo ''payload'' err), s)
                        | (Inr reqBuff, s) \<Rightarrow> (Inr (flagBuff ! 0, reqBuff), s))))"

text \<open>\<open>maybeDecompress\<close> of \<open>server.go\<close> and of \<open>multiplexer.go\<close>.\<close>

definition Server_maybeDecompress :: "zstd \<Rightarrow> bytes \<Rightarrow> byte \<Rightarrow> go_error + bytes" where
  "Server_maybeDecompress zs data flag =
     (if flag = REQUEST_ZSTD_FLAG \<or> flag = EVENT_ZSTD_FLAG then DecompressZstd zs data
      else Inr data)"

definition Client_maybeDecompress :: "zstd \<Rightarrow> bytes \<Rightarrow> byte \<Rightarrow> go_error + bytes" where
  "Client_maybeDecompress zs data flag =
     (if flag = REQUEST_ZSTD_FLAG \<or> flag = RESPONSE_ZSTD_FLAG \<or> flag = EVENT_ZSTD_FLAG
      then DecompressZstd zs data else Inr data)"

section \<open>Read loops\<close>

text \<open>
  How a read loop of the server or the client ends. \<open>Crashed\<close> is a panic, which ends the process;
  \<open>Stuck\<close> a call that does not return.
\<close>

datatype stream_end =
    NilStream
  | ReadEnd read_exit
  | HandlerNotFound gostring
  | WriteFailed go_error
  | FlushFailed go_error
  | Crashed go_panic
  | Stuck

text \<open>
  Going on with the result of a call: an error goes to the code's error branch, a panic or a call
  that does not return ends the loop. For a call without an error result (\<open>no_error\<close>) the error
  branch is never taken.
\<close>

definition on_result ::
    "'x outcome \<Rightarrow> 's \<Rightarrow> (go_error \<Rightarrow> stream_end option \<times> 's) \<Rightarrow> ('x \<Rightarrow> stream_end option \<times> 's) \<Rightarrow>
     stream_end option \<times> 's" where
  "on_result r st err go =
     (case r of
        Ok x \<Rightarrow> go x
      | Err e \<Rightarrow> err e
      | Panic p \<Rightarrow> (Some (Crashed p), st)
      | Diverge \<Rightarrow> (Some Stuck, st))"

definition no_error :: "'s \<Rightarrow> go_error \<Rightarrow> stream_end option \<times> 's" where
  "no_error st e = (None, st)"

lemma on_result_simps [simp]:
  "on_result (Ok x) st err go = go x"
  "on_result (Err e) st err go = err e"
  "on_result (Panic p) st err go = (Some (Crashed p), st)"
  "on_result Diverge st err go = (Some Stuck, st)"
  by (simp_all add: on_result_def)

section \<open>Lemmas\<close>

lemma ReadFull_append:
  "length b = n \<Longrightarrow> ReadFull n \<lparr>in_bytes = b @ r, in_err = e\<rparr> = (Inr b, \<lparr>in_bytes = r, in_err = e\<rparr>)"
  by (simp add: ReadFull_def)

lemma ReadFull_Inr:
  "ReadFull n s = (Inr b, s') \<longleftrightarrow>
     length b = n \<and> in_bytes s = b @ in_bytes s' \<and> in_err s' = in_err s"
  by (cases s; cases s') (auto simp: ReadFull_def)

lemma PutUint32_BigEndian:
  assumes "length h = 4"
  shows "PutUint32 (BigEndian_Uint32 h) = h"
proof -
  obtain a b c d where h: "h = [a, b, c, d]"
    using assms by (auto simp: numeral_eq_Suc length_Suc_conv)
  have "ucast (drop_bit 24 (BigEndian_Uint32 h)) = a" and "ucast (drop_bit 16 (BigEndian_Uint32 h)) = b"
    and "ucast (drop_bit 8 (BigEndian_Uint32 h)) = c" and "ucast (BigEndian_Uint32 h) = d"
    by (rule bit_word_eqI; auto simp: h BigEndian_Uint32_def bit_simps dest: bit_imp_le_length)+
  then show ?thesis by (simp add: PutUint32_def h)
qed

lemma word_of_nat_lt_1: "n < 2 ^ 32 \<Longrightarrow> (word_of_nat n :: u32) < 1 \<longleftrightarrow> n = 0"
  by (simp add: word_less_nat_alt unat_u32_of_nat)

lemma read_frame_frame:
  assumes "length p + 1 < 2 ^ 32"
  shows "read_frame tmo \<lparr>in_bytes = frame f p @ r, in_err = e\<rparr> = (Inr (f, p), \<lparr>in_bytes = r, in_err = e\<rparr>)"
proof -
  have u: "unat (word_of_nat (1 + length p) :: u32) = 1 + length p"
    using assms by (intro unat_u32_of_nat) simp
  have nz: "\<not> (word_of_nat (1 + length p) :: u32) < 1"
    using assms by (subst word_of_nat_lt_1) auto
  have r4: "ReadFull 4 \<lparr>in_bytes = frame f p @ r, in_err = e\<rparr> =
      (Inr (PutUint32 (word_of_nat (1 + length p))), \<lparr>in_bytes = f # p @ r, in_err = e\<rparr>)"
    by (simp add: ReadFull_append frame_def)
  have r1: "ReadFull 1 \<lparr>in_bytes = f # p @ r, in_err = e\<rparr> = (Inr [f], \<lparr>in_bytes = p @ r, in_err = e\<rparr>)"
    using ReadFull_append [of "[f]" 1 "p @ r" e] by simp
  show ?thesis
    unfolding read_frame_def r4 using r1 u nz
    by (simp add: ReadFull_append Let_def del: of_nat_add of_nat_Suc)
qed

text \<open>
  The converse: a frame that was read is what stood at the front of the stream.
\<close>

lemma read_frame_Inr:
  assumes "read_frame tmo s = (Inr (f, p), s')"
  shows "in_bytes s = frame f p @ in_bytes s' \<and> in_err s' = in_err s \<and> length p + 1 < 2 ^ 32"
proof -
  from assms obtain h fb s1 s2 where
    h: "ReadFull 4 s = (Inr h, s1)" and nz: "\<not> BigEndian_Uint32 h < 1"
    and fb: "ReadFull 1 s1 = (Inr fb, s2)" and f: "f = fb ! 0"
    and p: "ReadFull (unat (BigEndian_Uint32 h) - 1) s2 = (Inr p, s')"
    by (auto simp: read_frame_def Let_def split: prod.splits sum.splits if_splits)
  let ?len = "BigEndian_Uint32 h"
  have "unat ?len \<noteq> 0" using nz by (simp add: word_less_nat_alt)
  moreover have lp: "length p = unat ?len - 1" using p by (simp add: ReadFull_Inr)
  ultimately have len: "unat ?len = 1 + length p" by simp
  have "word_of_nat (1 + length p) = ?len" unfolding len [symmetric] by simp
  then have hp: "PutUint32 (word_of_nat (1 + length p)) = h"
    using h by (simp add: ReadFull_Inr PutUint32_BigEndian)
  have "fb = [f]" using fb f by (cases fb) (auto simp: ReadFull_Inr)
  then have "in_bytes s = frame f p @ in_bytes s'"
    using h fb p hp by (simp add: ReadFull_Inr frame_def)
  moreover have "length p + 1 < 2 ^ 32" using unat_u32_less [of ?len] len by simp
  ultimately show ?thesis using h fb p by (simp add: ReadFull_Inr)
qed

lemma read_frame_shorter:
  "read_frame tmo s = (Inr fp, s') \<Longrightarrow> length (in_bytes s') < length (in_bytes s)"
  using read_frame_Inr [of tmo s "fst fp" "snd fp" s'] by (auto simp: length_frame headerSize_def)

section \<open>From the encoder to the reader\<close>

text \<open>
  A message codec with the two flags of its frames and the decompression of the reading side:
  the interface between the encoder of one peer and the read loop of the other.
\<close>

locale framed_codec = message_codec zero size_of marshal_into unmarshal_from enc wf_msg + zstd_lib zs
  for zero :: 'm and size_of marshal_into unmarshal_from enc wf_msg and zs +
  fixes flag :: byte and zflag :: byte
    and decompress :: "bytes \<Rightarrow> byte \<Rightarrow> go_error + bytes"
  assumes decompress_plain: "decompress d flag = Inr d"
    and decompress_zstd: "decompress d zflag = DecodeAll zs d"
begin

text \<open>What the reader does with the bytes of a message: one frame, decompressed and parsed.\<close>

lemma decode_wire:
  assumes "wf_msg m" and "length (enc m) + 1 < 2 ^ 32"
  obtains f p where
    "f = flag \<or> f = zflag \<and> compressionThreshold < length (enc m)"
    and "\<And>tmo r e. read_frame tmo \<lparr>in_bytes = wire_bytes zs flag zflag (enc m) @ r, in_err = e\<rparr> =
        (Inr (f, p), \<lparr>in_bytes = r, in_err = e\<rparr>)"
    and "decompress p f = Inr (enc m)" and "unmarshal_from zero (enc m) = Ok m"
proof
  let ?w = "wire_payload zs flag zflag (enc m)"
  have "length (snd ?w) + 1 < 2 ^ 32"
    using wire_payload_shorter [of zs flag zflag "enc m"] assms(2) by linarith
  then show "read_frame tmo \<lparr>in_bytes = wire_bytes zs flag zflag (enc m) @ r, in_err = e\<rparr> =
      (Inr (fst ?w, snd ?w), \<lparr>in_bytes = r, in_err = e\<rparr>)" for tmo r e
    by (simp add: wire_bytes_def read_frame_frame)
  show "fst ?w = flag \<or> fst ?w = zflag \<and> compressionThreshold < length (enc m)" by (simp add: wire_payload_def)
  show "decompress (snd ?w) (fst ?w) = Inr (enc m)"
    by (simp add: wire_payload_def decompress_plain decompress_zstd decode_encode)
  show "unmarshal_from zero (enc m) = Ok m" by (rule unmarshal_enc [OF assms(1)])
qed

lemma length_wire: "length (wire_bytes zs flag zflag (enc m)) \<le> headerSize + length (enc m)"
  using wire_payload_shorter [of zs flag zflag "enc m"] by (simp add: wire_bytes_def length_frame)

lemma encode_wire:
  assumes "wf_msg m"
  shows "\<exists>b. encodeMessage zs k pool (size_of m) flag zflag (marshal_into m) =
      (Ok b, snd (getBuffer k (headerSize + length (enc m)) pool)) \<and>
    Buffer_Bytes b = wire_bytes zs flag zflag (enc m) \<and> buf_cap b = buf_cap (fst (getBuffer k (headerSize + length (enc m)) pool))"
  using encode_message [OF assms, of zs k pool flag zflag] by (simp add: wire_bytes_def)

text \<open>The encoder leaves a clean pool clean, and its buffer can be released into it.\<close>

lemma encode_wire_pool:
  assumes "wf_msg m" and "bf_pool.pool_ok pool"
  obtains b pool' where
    "encodeMessage zs k pool (size_of m) flag zflag (marshal_into m) = (Ok b, pool')"
    and "Buffer_Bytes b = wire_bytes zs flag zflag (enc m)" and "bf_pool.pool_ok pool'"
    and "bf_pool.pool_ok (Buffer_Release (Some b) pool')"
proof -
  let ?g = "getBuffer k (headerSize + length (enc m)) pool"
  obtain b where b: "encodeMessage zs k pool (size_of m) flag zflag (marshal_into m) = (Ok b, snd ?g)"
      "Buffer_Bytes b = wire_bytes zs flag zflag (enc m)" "buf_cap b = buf_cap (fst ?g)"
    using encode_wire [OF assms(1)] by blast
  have "bf_pool.pool_ok (Buffer_Release (Some b) (snd ?g))"
    using getBuffer_ok [OF assms(2)] b(3) by (intro Buffer_Release_ok) auto
  with b getBuffer_ok(1) [OF assms(2)] that show thesis by blast
qed

end

text \<open>Both peers: the generated code and zstd, with the three kinds of frames.\<close>

locale wire_stack = vt_helpers ph + zstd_lib zs for ph and zs

sublocale wire_stack \<subseteq> rq_frame: framed_codec Request_zero "\<lambda>m. Request_SizeVT ph (Some m)"
    "\<lambda>m. Request_MarshalToSizedBufferVT ph (Some m)" "Request_UnmarshalVT ph" enc_request wf_request
    zs REQUEST_FLAG REQUEST_ZSTD_FLAG "Server_maybeDecompress zs"
  by unfold_locales (simp_all add: Server_maybeDecompress_def DecompressZstd_def flag_defs)

sublocale wire_stack \<subseteq> ev_frame: framed_codec Request_zero "\<lambda>m. Request_SizeVT ph (Some m)"
    "\<lambda>m. Request_MarshalToSizedBufferVT ph (Some m)" "Request_UnmarshalVT ph" enc_request wf_request
    zs EVENT_FLAG EVENT_ZSTD_FLAG "Server_maybeDecompress zs"
  by unfold_locales (simp_all add: Server_maybeDecompress_def DecompressZstd_def flag_defs)

sublocale wire_stack \<subseteq> rs_frame: framed_codec Response_zero "\<lambda>m. Response_SizeVT ph (Some m)"
    "\<lambda>m. Response_MarshalToSizedBufferVT ph (Some m)" "Response_UnmarshalVT ph" enc_response wf_response
    zs RESPONSE_FLAG RESPONSE_ZSTD_FLAG "Client_maybeDecompress zs"
  by unfold_locales (simp_all add: Client_maybeDecompress_def DecompressZstd_def flag_defs)

text \<open>The client's loop also accepts request frames.\<close>

sublocale wire_stack \<subseteq> rqc_frame: framed_codec Request_zero "\<lambda>m. Request_SizeVT ph (Some m)"
    "\<lambda>m. Request_MarshalToSizedBufferVT ph (Some m)" "Request_UnmarshalVT ph" enc_request wf_request
    zs REQUEST_FLAG REQUEST_ZSTD_FLAG "Client_maybeDecompress zs"
  by unfold_locales (simp_all add: Client_maybeDecompress_def DecompressZstd_def flag_defs)

interpretation ref_stack: wire_stack ref_helpers ref_zstd
  by unfold_locales

context wire_stack
begin

lemma encode_request_reads:
  assumes "wf_request m" and "Request_SizeVT ph (Some m) + 1 < 2 ^ 32"
  shows "\<exists>b pool' f p d. EncodeRequest ph zs k pool m = (Ok b, pool') \<and>
    length (Buffer_Bytes b) \<le> headerSize + Request_SizeVT ph (Some m) \<and>
    (\<forall>rest e. read_frame False \<lparr>in_bytes = Buffer_Bytes b @ rest, in_err = e\<rparr> =
       (Inr (f, p), \<lparr>in_bytes = rest, in_err = e\<rparr>)) \<and>
    (f = REQUEST_FLAG \<or> f = REQUEST_ZSTD_FLAG \<and> compressionThreshold < Request_SizeVT ph (Some m)) \<and>
    Server_maybeDecompress zs p f = Inr d \<and> Request_UnmarshalVT ph Request_zero d = Ok m"
proof -
  have sz: "Request_SizeVT ph (Some m) = length (enc_request m)"
    using rq_codec.size_enc [OF assms(1)] .
  obtain f p where "f = REQUEST_FLAG \<or> f = REQUEST_ZSTD_FLAG \<and> compressionThreshold < length (enc_request m)"
    and "\<And>r e. read_frame False \<lparr>in_bytes = wire_bytes zs REQUEST_FLAG REQUEST_ZSTD_FLAG (enc_request m) @ r, in_err = e\<rparr> =
        (Inr (f, p), \<lparr>in_bytes = r, in_err = e\<rparr>)"
    and "Server_maybeDecompress zs p f = Inr (enc_request m)"
    and "Request_UnmarshalVT ph Request_zero (enc_request m) = Ok m"
    using rq_frame.decode_wire [OF assms(1)] assms(2) unfolding sz by metis
  moreover obtain b where "EncodeRequest ph zs k pool m =
      (Ok b, snd (getBuffer k (headerSize + length (enc_request m)) pool))"
    and "Buffer_Bytes b = wire_bytes zs REQUEST_FLAG REQUEST_ZSTD_FLAG (enc_request m)"
    using rq_frame.encode_wire [OF assms(1)] unfolding EncodeRequest_def by blast
  ultimately show ?thesis
    using rq_frame.length_wire [of m] unfolding sz by (metis (no_types, lifting))
qed

lemma encode_response_reads:
  assumes "wf_response m" and "Response_SizeVT ph (Some m) + 1 < 2 ^ 32"
  shows "\<exists>b pool' f p d. EncodeResponse ph zs k pool m = (Ok b, pool') \<and>
    length (Buffer_Bytes b) \<le> headerSize + Response_SizeVT ph (Some m) \<and>
    (\<forall>rest e. read_frame True \<lparr>in_bytes = Buffer_Bytes b @ rest, in_err = e\<rparr> =
       (Inr (f, p), \<lparr>in_bytes = rest, in_err = e\<rparr>)) \<and>
    (f = RESPONSE_FLAG \<or> f = RESPONSE_ZSTD_FLAG \<and> compressionThreshold < Response_SizeVT ph (Some m)) \<and>
    Client_maybeDecompress zs p f = Inr d \<and> Response_UnmarshalVT ph Response_zero d = Ok m"
proof -
  have sz: "Response_SizeVT ph (Some m) = length (enc_response m)"
    using rs_codec.size_enc [OF assms(1)] .
  obtain f p where "f = RESPONSE_FLAG \<or> f = RESPONSE_ZSTD_FLAG \<and> compressionThreshold < length (enc_response m)"
    and "\<And>r e. read_frame True \<lparr>in_bytes = wire_bytes zs RESPONSE_FLAG RESPONSE_ZSTD_FLAG (enc_response m) @ r, in_err = e\<rparr> =
        (Inr (f, p), \<lparr>in_bytes = r, in_err = e\<rparr>)"
    and "Client_maybeDecompress zs p f = Inr (enc_response m)"
    and "Response_UnmarshalVT ph Response_zero (enc_response m) = Ok m"
    using rs_frame.decode_wire [OF assms(1)] assms(2) unfolding sz by metis
  moreover obtain b where "EncodeResponse ph zs k pool m =
      (Ok b, snd (getBuffer k (headerSize + length (enc_response m)) pool))"
    and "Buffer_Bytes b = wire_bytes zs RESPONSE_FLAG RESPONSE_ZSTD_FLAG (enc_response m)"
    using rs_frame.encode_wire [OF assms(1)] unfolding EncodeResponse_def by blast
  ultimately show ?thesis
    using rs_frame.length_wire [of m] unfolding sz by (metis (no_types, lifting))
qed

end

section \<open>Messages on the wire\<close>

text \<open>Messages that a frame can carry: no unknown fields, and a length that fits 32 bits.\<close>

definition request_ok :: "request \<Rightarrow> bool" where
  "request_ok m \<longleftrightarrow> rq_unknownFields m = [] \<and> length (enc_request m) + 1 < 2 ^ 32"

definition response_ok :: "response \<Rightarrow> bool" where
  "response_ok m \<longleftrightarrow> rs_unknownFields m = [] \<and> length (enc_response m) + 1 < 2 ^ 32"

lemma response_ok_wf: "response_ok r \<Longrightarrow> wf_response r"
  by (simp add: response_ok_def wf_response_def response_fits_def)

lemma request_ok_wf: "request_ok m \<Longrightarrow> wf_request m"
  by (simp add: request_ok_def wf_request_def request_fits_def)

text \<open>The bytes of the three kinds of frames.\<close>

definition request_wire :: "zstd \<Rightarrow> request \<Rightarrow> bytes" where
  "request_wire zs m = wire_bytes zs REQUEST_FLAG REQUEST_ZSTD_FLAG (enc_request m)"

definition event_wire :: "zstd \<Rightarrow> request \<Rightarrow> bytes" where
  "event_wire zs m = wire_bytes zs EVENT_FLAG EVENT_ZSTD_FLAG (enc_request m)"

definition response_wire :: "zstd \<Rightarrow> response \<Rightarrow> bytes" where
  "response_wire zs r = wire_bytes zs RESPONSE_FLAG RESPONSE_ZSTD_FLAG (enc_response r)"

section \<open>Properties\<close>

text \<open>
  C16. Reading a frame succeeds exactly when the stream starts with a frame: the reader returns flag
  and payload and leaves the rest of the stream, whatever follows. So frames are self-delimiting
  and no byte of the next frame is consumed.
\<close>

theorem read_frame_iff:
  "read_frame tmo s = (Inr (f, p), s') \<longleftrightarrow>
     in_bytes s = frame f p @ in_bytes s' \<and> in_err s' = in_err s \<and> length p + 1 < 2 ^ 32"
proof
  show "read_frame tmo s = (Inr (f, p), s')"
    if "in_bytes s = frame f p @ in_bytes s' \<and> in_err s' = in_err s \<and> length p + 1 < 2 ^ 32"
    using that read_frame_frame [of p tmo f "in_bytes s'" "in_err s'"] by (cases s; cases s') simp
qed (rule read_frame_Inr)

text \<open>A request with a large body, which the encoder compresses.\<close>

definition big_request :: request where
  "big_request =
     \<lparr>rq_RequestId = 7, rq_Headers = [], rq_Method = [0x65], rq_Body = replicate 20000 0,
      rq_unknownFields = []\<rparr>"

lemma length_big_request: "length (enc_request big_request) = 20009"
  by (simp add: big_request_def enc_request_def enc_headers_def enc_opt_bytes_def
      enc_opt_varint_def enc_bytes_def enc_varint_def uvarint_def venc.simps)

lemma wf_big_request: "wf_request big_request"
  by (simp add: wf_request_def request_fits_def length_big_request) (simp add: big_request_def)

text \<open>
  C15. A message that one side encodes is read by the other: whatever buffer the pool hands out and
  whatever follows on the stream, the encoder succeeds, its frame is no longer than the marshalled
  message and its header, the frame reader of the server (for a request) or of the client (for a
  response) finds exactly that frame, and decompressing by the flag and unmarshalling gives the
  message back. Payloads up to the threshold are sent uncompressed.
\<close>

theorem encoded_messages_read:
  assumes "vt_helpers ph" and "zstd_lib zs" and "wf_request rq" and "Request_SizeVT ph (Some rq) + 1 < 2 ^ 32"
    and "wf_response rs" and "Response_SizeVT ph (Some rs) + 1 < 2 ^ 32"
  shows "(\<exists>b pool' f p d. EncodeRequest ph zs k pool rq = (Ok b, pool') \<and>
      length (Buffer_Bytes b) \<le> headerSize + Request_SizeVT ph (Some rq) \<and>
      (\<forall>rest e. read_frame False \<lparr>in_bytes = Buffer_Bytes b @ rest, in_err = e\<rparr> =
         (Inr (f, p), \<lparr>in_bytes = rest, in_err = e\<rparr>)) \<and>
      (f = REQUEST_FLAG \<or> f = REQUEST_ZSTD_FLAG \<and> compressionThreshold < Request_SizeVT ph (Some rq)) \<and>
      Server_maybeDecompress zs p f = Inr d \<and> Request_UnmarshalVT ph Request_zero d = Ok rq) \<and>
    (\<exists>b pool' f p d. EncodeResponse ph zs k pool rs = (Ok b, pool') \<and>
      length (Buffer_Bytes b) \<le> headerSize + Response_SizeVT ph (Some rs) \<and>
      (\<forall>rest e. read_frame True \<lparr>in_bytes = Buffer_Bytes b @ rest, in_err = e\<rparr> =
         (Inr (f, p), \<lparr>in_bytes = rest, in_err = e\<rparr>)) \<and>
      (f = RESPONSE_FLAG \<or> f = RESPONSE_ZSTD_FLAG \<and> compressionThreshold < Response_SizeVT ph (Some rs)) \<and>
      Client_maybeDecompress zs p f = Inr d \<and> Response_UnmarshalVT ph Response_zero d = Ok rs)"
  by (rule conjI [OF wire_stack.encode_request_reads [OF wire_stack.intro [OF assms(1,2)] assms(3,4)]
        wire_stack.encode_response_reads [OF wire_stack.intro [OF assms(1,2)] assms(5,6)]])

theorem encoded_messages_read_witness:
  "(\<exists>b pool' f p d. EncodeRequest ref_helpers ref_zstd 3 [new_buffer] big_request = (Ok b, pool') \<and>
      Server_maybeDecompress ref_zstd p f = Inr d \<and> Request_UnmarshalVT ref_helpers Request_zero d = Ok big_request) \<and>
   (\<exists>b pool' f p d. EncodeResponse ref_helpers ref_zstd 3 [new_buffer] sample_response = (Ok b, pool') \<and>
      Client_maybeDecompress ref_zstd p f = Inr d \<and> Response_UnmarshalVT ref_helpers Response_zero d = Ok sample_response)"
proof -
  have rs: "wf_response sample_response"
    using sample_response_fits by (simp add: wf_response_def sample_response_def)
  have "Request_SizeVT ref_helpers (Some big_request) + 1 < 2 ^ 32"
    "Response_SizeVT ref_helpers (Some sample_response) + 1 < 2 ^ 32"
    using ref.rq_codec.size_enc [OF wf_big_request] ref.rs_codec.size_enc [OF rs]
    by (simp_all add: length_big_request enc_sample_response)
  from encoded_messages_read [OF ref.vt_helpers_axioms ref_z.zstd_lib_axioms wf_big_request this(1) rs this(2),
      of 3 "[new_buffer]"] show ?thesis by blast
qed

end
