(* ===== verification/Rpc_Ctx.thy ===== *)
theory Rpc_Ctx
  imports Object_Pools
begin

text \<open>
  The handler contexts and the client's request and response wrappers of \<open>ctx.go\<close>, with their
  pools. A method that dereferences a nil pointer panics, and so does \<open>GetHeader\<close> when it reads
  past the last header. The values of \<open>Locals.Set\<close> have the type \<open>'a\<close> (Go's \<open>any\<close>); a
  missing key reads as the zero value.
\<close>

section \<open>Locals\<close>

record 'a locals =
  lc_anyes :: "gostring \<rightharpoonup> 'a"
  lc_strings :: "gostring \<rightharpoonup> gostring"

definition NewLocals :: "'a locals" where
  "NewLocals = \<lparr>lc_anyes = Map.empty, lc_strings = Map.empty\<rparr>"

definition Locals_SetString :: "gostring \<Rightarrow> gostring \<Rightarrow> 'a locals \<Rightarrow> 'a locals" where
  "Locals_SetString key val l = l\<lparr>lc_strings := (lc_strings l)(key \<mapsto> val)\<rparr>"

definition Locals_GetString :: "gostring \<Rightarrow> 'a locals \<Rightarrow> gostring" where
  "Locals_GetString key l = (case lc_strings l key of None \<Rightarrow> [] | Some v \<Rightarrow> v)"

definition Locals_Get :: "gostring \<Rightarrow> 'a locals \<Rightarrow> 'a option" where
  "Locals_Get key l = lc_anyes l key"

definition Locals_Set :: "gostring \<Rightarrow> 'a \<Rightarrow> 'a locals \<Rightarrow> 'a locals" where
  "Locals_Set key val l = l\<lparr>lc_anyes := (lc_anyes l)(key \<mapsto> val)\<rparr>"

definition Locals_Reset :: "'a locals \<Rightarrow> 'a locals" where
  "Locals_Reset l = l\<lparr>lc_anyes := Map.empty, lc_strings := Map.empty\<rparr>"

section \<open>Strings and bytes\<close>

definition bytesToString :: "bytes \<Rightarrow> gostring" where
  "bytesToString b = (if length b = 0 then [] else b)"

definition stringToBytes :: "gostring \<Rightarrow> bytes" where
  "stringToBytes s = (if length s = 0 then [] else s)"

section \<open>The context of a handler\<close>

record 'a ctx =
  cx_req :: "request option"
  cx_resp :: "response option"
  cx_locals :: "'a locals option"

definition new_ctx :: "'a ctx" where
  "new_ctx = \<lparr>cx_req = None, cx_resp = None, cx_locals = None\<rparr>"

definition NewCtx ::
    "nat \<Rightarrow> request option \<Rightarrow> response option \<Rightarrow> 'a ctx list \<Rightarrow> 'a ctx \<times> 'a ctx list" where
  "NewCtx k req resp ctxPool =
     (let (c, pool) = pool_get k new_ctx ctxPool;
          c = c\<lparr>cx_req := req, cx_resp := resp\<rparr>
      in (if cx_locals c = None then c\<lparr>cx_locals := Some NewLocals\<rparr> else c, pool))"

definition ReleaseCtx :: "'a ctx \<Rightarrow> 'a ctx list \<Rightarrow> 'a ctx list outcome" where
  "ReleaseCtx c ctxPool =
     (case cx_locals c of
        None \<Rightarrow> Panic NilDereference
      | Some l \<Rightarrow>
          Ok (pool_put (c\<lparr>cx_req := None, cx_resp := None, cx_locals := Some (Locals_Reset l)\<rparr>)
                ctxPool))"

definition Ctx_Locals :: "'a ctx \<Rightarrow> 'a locals option" where
  "Ctx_Locals c = cx_locals c"

text \<open>A field of the request or response that the context points to.\<close>

definition deref :: "'m option \<Rightarrow> ('m \<Rightarrow> 'b) \<Rightarrow> 'b outcome" where
  "deref p f = (case p of None \<Rightarrow> Panic NilDereference | Some m \<Rightarrow> Ok (f m))"

definition Ctx_Body :: "'a ctx \<Rightarrow> bytes outcome" where
  "Ctx_Body c = deref (cx_req c) rq_Body"

definition Ctx_Headers :: "'a ctx \<Rightarrow> bytes list outcome" where
  "Ctx_Headers c = deref (cx_req c) rq_Headers"

definition Ctx_Method :: "'a ctx \<Rightarrow> bytes outcome" where
  "Ctx_Method c = deref (cx_req c) rq_Method"

text \<open>
  \<open>for i := 0; i < len(h); i += 2 { if h[i] == key { return h[i+1] } }\<close>: an index past the end
  panics.
\<close>

fun get_header_loop :: "bytes list \<Rightarrow> bytes \<Rightarrow> gostring \<Rightarrow> gostring outcome" where
  "get_header_loop [] key defaultValue = Ok defaultValue"
| "get_header_loop [h] key defaultValue =
     (if h = key then Panic IndexOutOfRange else Ok defaultValue)"
| "get_header_loop (h # v # hs) key defaultValue =
     (if h = key then Ok (bytesToString v) else get_header_loop hs key defaultValue)"

definition Ctx_GetHeader :: "'a ctx \<Rightarrow> gostring \<Rightarrow> gostring \<Rightarrow> gostring outcome" where
  "Ctx_GetHeader c key defaultValue =
     obind (Ctx_Headers c) (\<lambda>hs. get_header_loop hs (stringToBytes key) defaultValue)"

definition Ctx_SetBody :: "bytes \<Rightarrow> 'a ctx \<Rightarrow> 'a ctx outcome" where
  "Ctx_SetBody buff c = deref (cx_resp c) (\<lambda>r. c\<lparr>cx_resp := Some (r\<lparr>rs_Body := buff\<rparr>)\<rparr>)"

definition Ctx_SetHeaders :: "bytes list \<Rightarrow> 'a ctx \<Rightarrow> 'a ctx outcome" where
  "Ctx_SetHeaders buff c = deref (cx_resp c) (\<lambda>r. c\<lparr>cx_resp := Some (r\<lparr>rs_Headers := buff\<rparr>)\<rparr>)"

definition Ctx_SetCode :: "u32 \<Rightarrow> 'a ctx \<Rightarrow> 'a ctx outcome" where
  "Ctx_SetCode code c = deref (cx_resp c) (\<lambda>r. c\<lparr>cx_resp := Some (r\<lparr>rs_Code := code\<rparr>)\<rparr>)"

definition Ctx_SetHeader :: "gostring \<Rightarrow> gostring \<Rightarrow> 'a ctx \<Rightarrow> 'a ctx outcome" where
  "Ctx_SetHeader key val c =
     deref (cx_resp c) (\<lambda>r.
       c\<lparr>cx_resp := Some (r\<lparr>rs_Headers := rs_Headers r @ [stringToBytes key, stringToBytes val]\<rparr>)\<rparr>)"

section \<open>The client's request\<close>

record 'a request_impl =
  ri_req :: "request option"
  ri_locals :: "'a locals option"

definition new_request_impl :: "'a request_impl" where
  "new_request_impl = \<lparr>ri_req = None, ri_locals = None\<rparr>"

definition NewRequest ::
    "nat \<Rightarrow> request option \<Rightarrow> 'a request_impl list \<Rightarrow> 'a request_impl \<times> 'a request_impl list" where
  "NewRequest k req reqCtxPool =
     (let (c, pool) = pool_get k new_request_impl reqCtxPool;
          c = c\<lparr>ri_req := req\<rparr>
      in (if ri_locals c = None then c\<lparr>ri_locals := Some NewLocals\<rparr> else c, pool))"

definition ReleaseRequestImpl :: "'a request_impl \<Rightarrow> 'a request_impl list \<Rightarrow> 'a request_impl list outcome" where
  "ReleaseRequestImpl c reqCtxPool =
     (case ri_locals c of
        None \<Rightarrow> Panic NilDereference
      | Some l \<Rightarrow> Ok (pool_put (c\<lparr>ri_req := None, ri_locals := Some (Locals_Reset l)\<rparr>) reqCtxPool))"

definition Request_Locals :: "'a request_impl \<Rightarrow> 'a locals option" where
  "Request_Locals c = ri_locals c"

definition Request_Body :: "'a request_impl \<Rightarrow> bytes outcome" where
  "Request_Body c = deref (ri_req c) rq_Body"

definition Request_SetBody :: "bytes \<Rightarrow> 'a request_impl \<Rightarrow> 'a request_impl outcome" where
  "Request_SetBody b c = deref (ri_req c) (\<lambda>r. c\<lparr>ri_req := Some (r\<lparr>rq_Body := b\<rparr>)\<rparr>)"

definition Request_Headers :: "'a request_impl \<Rightarrow> bytes list outcome" where
  "Request_Headers c = deref (ri_req c) rq_Headers"

definition Request_SetHeaders :: "bytes list \<Rightarrow> 'a request_impl \<Rightarrow> 'a request_impl outcome" where
  "Request_SetHeaders h c = deref (ri_req c) (\<lambda>r. c\<lparr>ri_req := Some (r\<lparr>rq_Headers := h\<rparr>)\<rparr>)"

definition Request_Method :: "'a request_impl \<Rightarrow> bytes outcome" where
  "Request_Method c = deref (ri_req c) rq_Method"

definition Request_SetMethod :: "bytes \<Rightarrow> 'a request_impl \<Rightarrow> 'a request_impl outcome" where
  "Request_SetMethod m c = deref (ri_req c) (\<lambda>r. c\<lparr>ri_req := Some (r\<lparr>rq_Method := m\<rparr>)\<rparr>)"

definition Request_RequestId :: "'a request_impl \<Rightarrow> u64 outcome" where
  "Request_RequestId c = deref (ri_req c) rq_RequestId"

definition Request_Req :: "'a request_impl \<Rightarrow> request option" where
  "Request_Req c = ri_req c"

section \<open>The client's response\<close>

record response_impl =
  si_resp :: "response option"

definition new_response_impl :: response_impl where
  "new_response_impl = \<lparr>si_resp = None\<rparr>"

definition NewResponse ::
    "nat \<Rightarrow> response option \<Rightarrow> response_impl list \<Rightarrow> response_impl \<times> response_impl list" where
  "NewResponse k resp respCtxPool =
     (let (c, pool) = pool_get k new_response_impl respCtxPool in (c\<lparr>si_resp := resp\<rparr>, pool))"

definition ReleaseResponseImpl :: "response_impl \<Rightarrow> response_impl list \<Rightarrow> response_impl list" where
  "ReleaseResponseImpl c respCtxPool = pool_put (c\<lparr>si_resp := None\<rparr>) respCtxPool"

definition Response_Body :: "response_impl \<Rightarrow> bytes outcome" where
  "Response_Body c = deref (si_resp c) rs_Body"

definition Response_Headers :: "response_impl \<Rightarrow> bytes list outcome" where
  "Response_Headers c = deref (si_resp c) rs_Headers"

definition Response_Code :: "response_impl \<Rightarrow> u32 outcome" where
  "Response_Code c = deref (si_resp c) rs_Code"

definition Response_RequestId :: "response_impl \<Rightarrow> u64 outcome" where
  "Response_RequestId c = deref (si_resp c) rs_RequestId"

definition Response_Resp :: "response_impl \<Rightarrow> response option" where
  "Response_Resp c = si_resp c"

section \<open>The pools are clean\<close>

definition clean_locals :: "'a locals option \<Rightarrow> bool" where
  "clean_locals l \<longleftrightarrow> l = None \<or> l = Some NewLocals"

definition clean_ctx :: "'a ctx \<Rightarrow> bool" where
  "clean_ctx c \<longleftrightarrow> cx_req c = None \<and> cx_resp c = None \<and> clean_locals (cx_locals c)"

definition clean_request_impl :: "'a request_impl \<Rightarrow> bool" where
  "clean_request_impl c \<longleftrightarrow> ri_req c = None \<and> clean_locals (ri_locals c)"

interpretation cx_pool: clean_pool new_ctx clean_ctx
  by unfold_locales (simp add: clean_ctx_def new_ctx_def clean_locals_def)

interpretation ri_pool: clean_pool new_request_impl clean_request_impl
  by unfold_locales (simp add: clean_request_impl_def new_request_impl_def clean_locals_def)

interpretation si_pool: clean_pool new_response_impl "\<lambda>c. c = new_response_impl"
  by unfold_locales simp

lemma Locals_Reset_eq [simp]: "Locals_Reset l = NewLocals"
  by (simp add: Locals_Reset_def NewLocals_def)

lemma NewCtx_ok:
  assumes "cx_pool.pool_ok pool"
  shows "fst (NewCtx k req resp pool) = \<lparr>cx_req = req, cx_resp = resp, cx_locals = Some NewLocals\<rparr>"
    and "cx_pool.pool_ok (snd (NewCtx k req resp pool))"
proof -
  have "clean_ctx (fst (pool_get k new_ctx pool))"
    by (rule cx_pool.get_clean [OF assms])
  then show "fst (NewCtx k req resp pool) = \<lparr>cx_req = req, cx_resp = resp, cx_locals = Some NewLocals\<rparr>"
    by (cases "fst (pool_get k new_ctx pool)")
      (auto simp: NewCtx_def clean_ctx_def clean_locals_def case_prod_unfold Let_def)
  show "cx_pool.pool_ok (snd (NewCtx k req resp pool))"
    using cx_pool.get_ok [OF assms, of k] by (simp add: NewCtx_def case_prod_unfold Let_def)
qed

lemma ReleaseCtx_ok:
  assumes "cx_pool.pool_ok pool" and "cx_locals c = Some l"
  shows "\<exists>pool'. ReleaseCtx c pool = Ok pool' \<and> cx_pool.pool_ok pool'"
  using assms by (auto simp: ReleaseCtx_def clean_ctx_def clean_locals_def intro!: cx_pool.put_ok)

lemma NewRequest_ok:
  assumes "ri_pool.pool_ok pool"
  shows "fst (NewRequest k req pool) = \<lparr>ri_req = req, ri_locals = Some NewLocals\<rparr>"
    and "ri_pool.pool_ok (snd (NewRequest k req pool))"
proof -
  have "clean_request_impl (fst (pool_get k new_request_impl pool))"
    by (rule ri_pool.get_clean [OF assms])
  then show "fst (NewRequest k req pool) = \<lparr>ri_req = req, ri_locals = Some NewLocals\<rparr>"
    by (cases "fst (pool_get k new_request_impl pool)")
      (auto simp: NewRequest_def clean_request_impl_def clean_locals_def case_prod_unfold Let_def)
  show "ri_pool.pool_ok (snd (NewRequest k req pool))"
    using ri_pool.get_ok [OF assms, of k] by (simp add: NewRequest_def case_prod_unfold Let_def)
qed

lemma ReleaseRequestImpl_ok:
  assumes "ri_pool.pool_ok pool" and "ri_locals c = Some l"
  shows "\<exists>pool'. ReleaseRequestImpl c pool = Ok pool' \<and> ri_pool.pool_ok pool'"
  using assms
  by (auto simp: ReleaseRequestImpl_def clean_request_impl_def clean_locals_def intro!: ri_pool.put_ok)

lemma NewResponse_ok:
  assumes "si_pool.pool_ok pool"
  shows "fst (NewResponse k resp pool) = \<lparr>si_resp = resp\<rparr>"
    and "si_pool.pool_ok (snd (NewResponse k resp pool))"
  using si_pool.get_clean [OF assms, of k] si_pool.get_ok [OF assms, of k]
  by (simp_all add: NewResponse_def new_response_impl_def case_prod_unfold)

section \<open>Properties of the contexts\<close>

text \<open>What a handler does with its locals, and a sequence of handler invocations.\<close>

datatype 'a locals_op = LSet gostring 'a | LSetString gostring gostring | LReset

fun apply_locals_op :: "'a locals_op \<Rightarrow> 'a locals \<Rightarrow> 'a locals" where
  "apply_locals_op (LSet key val) l = Locals_Set key val l"
| "apply_locals_op (LSetString key val) l = Locals_SetString key val l"
| "apply_locals_op LReset l = Locals_Reset l"

fun ctx_uses ::
    "(nat \<times> request option \<times> response option \<times> 'a locals_op list) list \<Rightarrow> 'a ctx list \<Rightarrow>
     'a ctx list outcome" where
  "ctx_uses [] pool = Ok pool"
| "ctx_uses ((k, req, resp, ops) # us) pool =
     (let (c, pool) = NewCtx k req resp pool;
          c = c\<lparr>cx_locals := map_option (fold apply_locals_op ops) (cx_locals c)\<rparr>
      in obind (ReleaseCtx c pool) (ctx_uses us))"

lemma ctx_uses_ok: "cx_pool.pool_ok pool \<Longrightarrow> \<exists>pool'. ctx_uses us pool = Ok pool' \<and> cx_pool.pool_ok pool'"
proof (induction us arbitrary: pool)
  case Nil
  then show ?case by simp
next
  case (Cons u us)
  obtain k req resp ops where u: "u = (k, req, resp, ops)" by (cases u)
  let ?c = "fst (NewCtx k req resp pool)" and ?p = "snd (NewCtx k req resp pool)"
  let ?c' = "?c\<lparr>cx_locals := map_option (fold apply_locals_op ops) (cx_locals ?c)\<rparr>"
  have "cx_locals ?c' = Some (fold apply_locals_op ops NewLocals)"
    by (simp add: NewCtx_ok [OF Cons.prems])
  from ReleaseCtx_ok [OF NewCtx_ok(2) [OF Cons.prems] this]
  obtain p where "ReleaseCtx ?c' ?p = Ok p" "cx_pool.pool_ok p" by blast
  with Cons.IH [of p] show ?case
    by (simp add: u case_prod_unfold Let_def)
qed

text \<open>
  C28. A handler never sees another request's locals: after any sequence of handler invocations
  that store what they like in their contexts, from an empty pool, \<open>NewCtx\<close> returns a context
  with the given request and response and empty locals, whichever pooled context it reuses.
\<close>

theorem ctx_locals_fresh:
  "\<exists>pool. ctx_uses us [] = Ok pool \<and>
     (\<forall>k req resp. fst (NewCtx k req resp pool) =
        \<lparr>cx_req = req, cx_resp = resp, cx_locals = Some NewLocals\<rparr>)"
  using ctx_uses_ok [OF cx_pool.pool_ok_empty, of us] NewCtx_ok(1) by blast

text \<open>Headers as a flat list of keys and values.\<close>

definition header_list :: "(gostring \<times> gostring) list \<Rightarrow> bytes list" where
  "header_list kvs = concat (map (\<lambda>(k, v). [k, v]) kvs)"

lemma header_list_simps [simp]:
  "header_list [] = []" "header_list ((k, v) # kvs) = k # v # header_list kvs"
  by (simp_all add: header_list_def)

lemma bytes_string_id [simp]: "bytesToString b = b" "stringToBytes s = s"
  by (simp_all add: bytesToString_def stringToBytes_def)

lemma get_header_loop_pairs:
  "get_header_loop (header_list kvs) key d = Ok (case map_of kvs key of Some v \<Rightarrow> v | None \<Rightarrow> d)"
  by (induction kvs) auto

lemma get_header_loop_odd:
  "get_header_loop (header_list kvs @ [h]) key d =
     (case map_of kvs key of
        Some v \<Rightarrow> Ok v
      | None \<Rightarrow> if h = key then Panic IndexOutOfRange else Ok d)"
  by (induction kvs) auto

lemma header_list_inj [simp]: "header_list kvs = header_list kvs' \<longleftrightarrow> kvs = kvs'"
proof (induction kvs arbitrary: kvs')
  case Nil
  then show ?case by (cases kvs') auto
next
  case step: (Cons kv kvs)
  show ?case
  proof (cases kvs')
    case Nil
    then show ?thesis by (cases kv) simp
  next
    case (Cons kv' kvs'')
    then show ?thesis by (cases kv; cases kv') (simp add: step.IH)
  qed
qed

lemma header_list_odd [simp]: "header_list kvs \<noteq> header_list kvs' @ [h]"
proof (induction kvs arbitrary: kvs')
  case Nil
  then show ?case by (cases kvs') auto
next
  case step: (Cons kv kvs)
  show ?case
  proof (cases kvs')
    case Nil
    then show ?thesis by (cases kv) simp
  next
    case (Cons kv' kvs'')
    then show ?thesis by (cases kv; cases kv') (simp add: step.IH)
  qed
qed

lemma header_list_cases:
  obtains (even) kvs where "hs = header_list kvs" | (odd) kvs h where "hs = header_list kvs @ [h]"
proof (induction hs arbitrary: thesis rule: induct_list012)
  case 1
  show ?case by (rule "1"(1) [of "[]"]) simp
next
  case (2 x)
  show ?case by (rule "2"(2) [of "[]" x]) simp
next
  case (3 x y hs)
  show ?case
    by (rule "3.IH"(1)) (metis "3.prems" append_Cons header_list_simps(2))+
qed

text \<open>The calls of \<open>SetHeader\<close> for a list of pairs.\<close>

fun set_headers :: "(gostring \<times> gostring) list \<Rightarrow> 'a ctx \<Rightarrow> 'a ctx outcome" where
  "set_headers [] c = Ok c"
| "set_headers ((k, v) # kvs) c = obind (Ctx_SetHeader k v c) (set_headers kvs)"

lemma set_headers_eq:
  "cx_resp c = Some r \<Longrightarrow>
   set_headers kvs c = Ok (c\<lparr>cx_resp := Some (r\<lparr>rs_Headers := rs_Headers r @ header_list kvs\<rparr>)\<rparr>)"
  by (induction kvs c arbitrary: r rule: set_headers.induct)
    (auto simp: Ctx_SetHeader_def deref_def)

text \<open>
  C29. Headers round trip: the headers that \<open>SetHeader\<close> calls leave in a fresh response, read with
  \<open>GetHeader\<close> on a request that carries them, give for every key the value of its first
  \<open>SetHeader\<close>, and the default value for a key that was never set.
\<close>

theorem headers_roundtrip:
  assumes "cx_resp c = Some Response_zero"
  shows "\<exists>r. obind (set_headers kvs c) (\<lambda>c'. deref (cx_resp c') id) = Ok r \<and>
    (\<forall>c2 req key d. cx_req c2 = Some req \<and> rq_Headers req = rs_Headers r \<longrightarrow>
       Ctx_GetHeader c2 key d = Ok (case map_of kvs key of Some v \<Rightarrow> v | None \<Rightarrow> d))"
  using set_headers_eq [OF assms, of kvs]
  by (auto simp: deref_def Ctx_GetHeader_def Ctx_Headers_def get_header_loop_pairs)

theorem headers_roundtrip_witness:
  "\<exists>r. obind (set_headers [(gostr ''k'', gostr ''v'')]
        \<lparr>cx_req = None, cx_resp = Some Response_zero, cx_locals = (None :: unit locals option)\<rparr>)
      (\<lambda>c'. deref (cx_resp c') id) = Ok r \<and>
    (\<forall>c2 :: unit ctx. \<forall>req key d. cx_req c2 = Some req \<and> rq_Headers req = rs_Headers r \<longrightarrow>
       Ctx_GetHeader c2 key d =
         Ok (case map_of [(gostr ''k'', gostr ''v'')] key of Some v \<Rightarrow> v | None \<Rightarrow> d))"
  by (rule headers_roundtrip) simp

text \<open>
  C30. \<open>GetHeader\<close> panics exactly when the request has an odd number of headers, no pair before the
  last one has the key, and the last header equals the key: one request that a peer sends can
  crash a handler that reads a header.
\<close>

theorem get_header_panics_iff:
  assumes "cx_req c = Some req"
  shows "Ctx_GetHeader c key d = Panic IndexOutOfRange \<longleftrightarrow>
    (\<exists>kvs. rq_Headers req = header_list kvs @ [key] \<and> map_of kvs key = None)"
  using assms
  by (cases "rq_Headers req" rule: header_list_cases)
    (auto simp: Ctx_GetHeader_def Ctx_Headers_def deref_def get_header_loop_pairs
      get_header_loop_odd split: option.splits)

theorem get_header_panics_iff_witness:
  "Ctx_GetHeader \<lparr>cx_req = Some (Request_zero\<lparr>rq_Headers := [gostr ''a'', gostr ''b'', gostr ''k'']\<rparr>),
      cx_resp = None, cx_locals = (None :: unit locals option)\<rparr> (gostr ''k'') [] =
   Panic IndexOutOfRange"
proof -
  let ?req = "Request_zero\<lparr>rq_Headers := [gostr ''a'', gostr ''b'', gostr ''k'']\<rparr>"
  have "rq_Headers ?req = header_list [(gostr ''a'', gostr ''b'')] @ [gostr ''k'']" by simp
  moreover have "map_of [(gostr ''a'', gostr ''b'')] (gostr ''k'') = None" by (simp add: gostr_def)
  ultimately show ?thesis
    by (subst get_header_panics_iff [of _ ?req]) (simp, blast)
qed

end
