(* ===== verification/Rpc_Server.thy ===== *)
theory Rpc_Server
  imports Frame_Reader Rpc_Ctx
begin

text \<open>
  The server of \<open>server.go\<close>: the handler tables and the loop \<open>streamReadCycle\<close> that reads the
  frames of one stream, runs the handlers and writes the responses. All its calls that change
  state are made in the order of the code: taking messages, contexts and buffers out of their
  pools and putting them back, the handler, the encoder, the write.

  A handler is a parameter: a function of the world (whatever the application keeps) and the
  context, which either panics or makes a list of calls on the context. The environment \<open>env\<close>
  holds the libraries, the choices that \<open>sync.Pool\<close> makes and the errors that stream writes
  return.

  The specification \<open>serve_spec\<close> has no pools, buffers, frames or bytes: it maps a list of
  messages to a list of responses. The loop implements it (\<open>cycle_serves\<close>), whatever the pools
  hold.
\<close>

section \<open>Handlers\<close>

datatype 'a ctx_op =
    CSetBody bytes
  | CSetHeaders "bytes list"
  | CSetHeader gostring gostring
  | CSetCode u32
  | CLocals "'a locals_op"

fun ctx_op_step :: "'a ctx_op \<Rightarrow> 'a ctx \<Rightarrow> 'a ctx outcome" where
  "ctx_op_step (CSetBody b) c = Ctx_SetBody b c"
| "ctx_op_step (CSetHeaders h) c = Ctx_SetHeaders h c"
| "ctx_op_step (CSetHeader key val) c = Ctx_SetHeader key val c"
| "ctx_op_step (CSetCode code) c = Ctx_SetCode code c"
| "ctx_op_step (CLocals op) c = Ok (c\<lparr>cx_locals := map_option (apply_locals_op op) (cx_locals c)\<rparr>)"

fun ctx_ops :: "'a ctx_op list \<Rightarrow> 'a ctx \<Rightarrow> 'a ctx outcome" where
  "ctx_ops [] c = Ok c"
| "ctx_ops (op # ops) c = obind (ctx_op_step op c) (ctx_ops ops)"

text \<open>
  \<open>func(Ctx)\<close> and \<open>func(EventCtx)\<close>: the second interface has no setters, only locals. A nil
  function value is a handler that panics.
\<close>

type_synonym ('a, 'w) handler = "'w \<Rightarrow> 'a ctx \<Rightarrow> (go_panic + 'a ctx_op list) \<times> 'w"
type_synonym ('a, 'w) event_handler = "'w \<Rightarrow> 'a ctx \<Rightarrow> (go_panic + 'a locals_op list) \<times> 'w"

section \<open>The server\<close>

record ('a, 'w) server =
  handlers :: "gostring \<rightharpoonup> ('a, 'w) handler"
  eventHandlers :: "gostring \<rightharpoonup> ('a, 'w) event_handler"

definition newServer :: "('a, 'w) server" where
  "newServer = \<lparr>handlers = Map.empty, eventHandlers = Map.empty\<rparr>"

definition AddHandler :: "gostring \<Rightarrow> ('a, 'w) handler \<Rightarrow> ('a, 'w) server \<Rightarrow> ('a, 'w) server" where
  "AddHandler meth handler s = s\<lparr>handlers := (handlers s)(meth \<mapsto> handler)\<rparr>"

definition AddEventHandler ::
    "gostring \<Rightarrow> ('a, 'w) event_handler \<Rightarrow> ('a, 'w) server \<Rightarrow> ('a, 'w) server" where
  "AddEventHandler meth handler s = s\<lparr>eventHandlers := (eventHandlers s)(meth \<mapsto> handler)\<rparr>"

text \<open>
  The libraries; the choice of the \<open>n\<close>-th \<open>Get\<close> on a pool; what the write of a frame returns,
  given the frames written before it.
\<close>

record env =
  e_ph :: protohelpers
  e_zstd :: zstd
  e_pick :: "nat \<Rightarrow> nat"
  e_write :: "bytes list \<Rightarrow> bytes \<Rightarrow> go_error option"

text \<open>The pools (package variables), the application's world and the frames written so far.\<close>

record ('a, 'w) srv =
  sv_requests :: "request list"
  sv_responses :: "response list"
  sv_ctxs :: "'a ctx list"
  sv_buffers :: "buffer list"
  sv_tick :: nat
  sv_world :: 'w
  sv_out :: "bytes list"

definition sv_GetRequest :: "env \<Rightarrow> ('a, 'w) srv \<Rightarrow> request \<times> ('a, 'w) srv" where
  "sv_GetRequest E st =
     (let (req, pool) = GetRequest (e_pick E (sv_tick st)) (sv_requests st)
      in (req, st\<lparr>sv_requests := pool, sv_tick := sv_tick st + 1\<rparr>))"

definition sv_GetResponse :: "env \<Rightarrow> ('a, 'w) srv \<Rightarrow> response \<times> ('a, 'w) srv" where
  "sv_GetResponse E st =
     (let (resp, pool) = GetResponse (e_pick E (sv_tick st)) (sv_responses st)
      in (resp, st\<lparr>sv_responses := pool, sv_tick := sv_tick st + 1\<rparr>))"

definition sv_NewCtx ::
    "env \<Rightarrow> request option \<Rightarrow> response option \<Rightarrow> ('a, 'w) srv \<Rightarrow> 'a ctx \<times> ('a, 'w) srv" where
  "sv_NewCtx E req resp st =
     (let (c, pool) = NewCtx (e_pick E (sv_tick st)) req resp (sv_ctxs st)
      in (c, st\<lparr>sv_ctxs := pool, sv_tick := sv_tick st + 1\<rparr>))"

definition sv_EncodeResponse :: "env \<Rightarrow> response \<Rightarrow> ('a, 'w) srv \<Rightarrow> buffer outcome \<times> ('a, 'w) srv" where
  "sv_EncodeResponse E resp st =
     (let (r, pool) = EncodeResponse (e_ph E) (e_zstd E) (e_pick E (sv_tick st)) (sv_buffers st) resp
      in (r, st\<lparr>sv_buffers := pool, sv_tick := sv_tick st + 1\<rparr>))"

definition sv_ReleaseRequest :: "request \<Rightarrow> ('a, 'w) srv \<Rightarrow> ('a, 'w) srv" where
  "sv_ReleaseRequest req st = st\<lparr>sv_requests := ReleaseRequest req (sv_requests st)\<rparr>"

definition sv_ReleaseResponse :: "response \<Rightarrow> ('a, 'w) srv \<Rightarrow> ('a, 'w) srv" where
  "sv_ReleaseResponse resp st = st\<lparr>sv_responses := ReleaseResponse resp (sv_responses st)\<rparr>"

section \<open>The read loop\<close>

text \<open>\<open>stream.Write(buf.Bytes())\<close>, then \<open>buf.Release()\<close>.\<close>

definition sv_write :: "env \<Rightarrow> buffer \<Rightarrow> ('a, 'w) srv \<Rightarrow> stream_end option \<times> ('a, 'w) srv" where
  "sv_write E b st =
     (let st' = st\<lparr>sv_buffers := Buffer_Release (Some b) (sv_buffers st)\<rparr>
      in case e_write E (sv_out st) (Buffer_Bytes b) of
           Some err \<Rightarrow> (Some (WriteFailed err), st')
         | None \<Rightarrow> (None, st'\<lparr>sv_out := sv_out st @ [Buffer_Bytes b]\<rparr>))"

text \<open>
  The case of a request frame. The result \<open>None\<close> is \<open>continue\<close> (or the end of the case).
  When unmarshalling fails the message that is released may be partly filled; releasing forgets
  its contents.
\<close>

definition serve_request ::
    "env \<Rightarrow> ('a, 'w) server \<Rightarrow> byte \<Rightarrow> bytes \<Rightarrow> ('a, 'w) srv \<Rightarrow> stream_end option \<times> ('a, 'w) srv" where
  "serve_request E s flag reqBuff st =
     (case Server_maybeDecompress (e_zstd E) reqBuff flag of
        Inl err \<Rightarrow> (None, st)
      | Inr data \<Rightarrow>
          let (req, st) = sv_GetRequest E st;
              (resp, st) = sv_GetResponse E st
          in on_result (Request_UnmarshalVT (e_ph E) req data) st
               (\<lambda>err. (None, sv_ReleaseResponse resp (sv_ReleaseRequest req st)))
               (\<lambda>req. case handlers s (rq_Method req) of
                  None \<Rightarrow>
                    (Some (HandlerNotFound (rq_Method req)),
                     sv_ReleaseResponse resp (sv_ReleaseRequest req st))
                | Some handler \<Rightarrow>
                    let resp = resp\<lparr>rs_RequestId := rq_RequestId req\<rparr>;
                        (ctx, st) = sv_NewCtx E (Some req) (Some resp) st;
                        (r, w) = handler (sv_world st) ctx;
                        st = st\<lparr>sv_world := w\<rparr>
                    in on_result (case r of Inl p \<Rightarrow> Panic p | Inr ops \<Rightarrow> ctx_ops ops ctx) st (no_error st)
                         (\<lambda>ctx.
                            let resp = (case cx_resp ctx of Some r \<Rightarrow> r | None \<Rightarrow> resp)
                            in on_result (ReleaseCtx ctx (sv_ctxs st)) st (no_error st)
                                 (\<lambda>ctxs.
                                    let st = sv_ReleaseRequest req (st\<lparr>sv_ctxs := ctxs\<rparr>);
                                        (buf, st) = sv_EncodeResponse E resp st;
                                        st = sv_ReleaseResponse resp st
                                    in on_result buf st (\<lambda>err. (None, st))
                                         (\<lambda>b. sv_write E b st)))))"

text \<open>The case of an event frame.\<close>

definition serve_event ::
    "env \<Rightarrow> ('a, 'w) server \<Rightarrow> byte \<Rightarrow> bytes \<Rightarrow> ('a, 'w) srv \<Rightarrow> stream_end option \<times> ('a, 'w) srv" where
  "serve_event E s flag reqBuff st =
     (case Server_maybeDecompress (e_zstd E) reqBuff flag of
        Inl err \<Rightarrow> (None, st)
      | Inr data \<Rightarrow>
          let (req, st) = sv_GetRequest E st
          in on_result (Request_UnmarshalVT (e_ph E) req data) st
               (\<lambda>err. (None, sv_ReleaseRequest req st))
               (\<lambda>req. case eventHandlers s (rq_Method req) of
                  None \<Rightarrow> (None, sv_ReleaseRequest req st)
                | Some handler \<Rightarrow>
                    let (ctx, st) = sv_NewCtx E (Some req) None st;
                        (r, w) = handler (sv_world st) ctx;
                        st = st\<lparr>sv_world := w\<rparr>
                    in on_result (case r of Inl p \<Rightarrow> Panic p | Inr ops \<Rightarrow> Ok ops) st (no_error st)
                         (\<lambda>ops.
                            let ctx = ctx\<lparr>cx_locals := map_option (fold apply_locals_op ops) (cx_locals ctx)\<rparr>
                            in on_result (ReleaseCtx ctx (sv_ctxs st)) st (no_error st)
                                 (\<lambda>ctxs. (None, sv_ReleaseRequest req (st\<lparr>sv_ctxs := ctxs\<rparr>))))))"

text \<open>The switch on the flag: other flags are ignored.\<close>

definition serve_frame ::
    "env \<Rightarrow> ('a, 'w) server \<Rightarrow> byte \<Rightarrow> bytes \<Rightarrow> ('a, 'w) srv \<Rightarrow> stream_end option \<times> ('a, 'w) srv" where
  "serve_frame E s flag reqBuff st =
     (if flag = REQUEST_FLAG \<or> flag = REQUEST_ZSTD_FLAG then serve_request E s flag reqBuff st
      else if flag = EVENT_FLAG \<or> flag = EVENT_ZSTD_FLAG then serve_event E s flag reqBuff st
      else (None, st))"

text \<open>The loop: every iteration that goes on has consumed a frame of the stream.\<close>

function streamReadCycle ::
    "env \<Rightarrow> ('a, 'w) server \<Rightarrow> instream option \<Rightarrow> ('a, 'w) srv \<Rightarrow> stream_end \<times> ('a, 'w) srv" where
  "streamReadCycle E s None st = (NilStream, st)"
| "streamReadCycle E s (Some stream) st =
     (case read_frame False stream of
        (Inl x, stream') \<Rightarrow> (ReadEnd x, st)
      | (Inr (flag, reqBuff), stream') \<Rightarrow>
          (case serve_frame E s flag reqBuff st of
             (Some x, st') \<Rightarrow> (x, st')
           | (None, st') \<Rightarrow> streamReadCycle E s (Some stream') st'))"
  by pat_completeness auto
termination
  by (relation "measure (\<lambda>(E, s, stream, st). case stream of None \<Rightarrow> 0 | Some x \<Rightarrow> length (in_bytes x))")
    (auto dest: read_frame_shorter [OF sym])

declare streamReadCycle.simps(2) [simp del]

section \<open>Specification\<close>

text \<open>What a handler makes of a request: the response, or its panic.\<close>

definition fresh_ctx :: "request \<Rightarrow> response option \<Rightarrow> 'a ctx" where
  "fresh_ctx m resp = \<lparr>cx_req = Some m, cx_resp = resp, cx_locals = Some NewLocals\<rparr>"

definition call_handler :: "('a, 'w) handler \<Rightarrow> 'w \<Rightarrow> request \<Rightarrow> response outcome \<times> 'w" where
  "call_handler h w m =
     (let c = fresh_ctx m (Some (Response_zero\<lparr>rs_RequestId := rq_RequestId m\<rparr>));
          (r, w') = h w c
      in (case r of Inl p \<Rightarrow> Panic p | Inr ops \<Rightarrow> obind (ctx_ops ops c) (\<lambda>c'. deref (cx_resp c') id), w'))"

datatype inmsg = Call request | Notify request

text \<open>
  The responses to a list of messages, the world after them, and why the service stopped (\<open>None\<close>:
  it goes on).
\<close>

fun serve_spec :: "('a, 'w) server \<Rightarrow> inmsg list \<Rightarrow> 'w \<Rightarrow> response list \<times> 'w \<times> stream_end option" where
  "serve_spec s [] w = ([], w, None)"
| "serve_spec s (Call m # ms) w =
     (case handlers s (rq_Method m) of
        None \<Rightarrow> ([], w, Some (HandlerNotFound (rq_Method m)))
      | Some h \<Rightarrow>
          (case call_handler h w m of
             (Ok r, w') \<Rightarrow> (let (rs, w'', x) = serve_spec s ms w' in (r # rs, w'', x))
           | (Panic p, w') \<Rightarrow> ([], w', Some (Crashed p))
           | (_, w') \<Rightarrow> ([], w', Some Stuck)))"
| "serve_spec s (Notify m # ms) w =
     (case eventHandlers s (rq_Method m) of
        None \<Rightarrow> serve_spec s ms w
      | Some h \<Rightarrow>
          (case h w (fresh_ctx m None) of
             (Inl p, w') \<Rightarrow> ([], w', Some (Crashed p))
           | (Inr ops, w') \<Rightarrow> serve_spec s ms w'))"

fun inmsg_request :: "inmsg \<Rightarrow> request" where
  "inmsg_request (Call m) = m"
| "inmsg_request (Notify m) = m"

text \<open>The bytes that the client's encoder writes for a message.\<close>

fun inmsg_wire :: "zstd \<Rightarrow> inmsg \<Rightarrow> bytes" where
  "inmsg_wire zs (Call m) = request_wire zs m"
| "inmsg_wire zs (Notify m) = event_wire zs m"

text \<open>The invariant of the pools.\<close>

definition pools_ok :: "('a, 'w) srv \<Rightarrow> bool" where
  "pools_ok st \<longleftrightarrow>
     rq_pool.pool_ok (sv_requests st) \<and> rs_pool.pool_ok (sv_responses st) \<and>
     cx_pool.pool_ok (sv_ctxs st) \<and> bf_pool.pool_ok (sv_buffers st)"

text \<open>Handlers that do not panic and whose responses fit in memory.\<close>

definition handlers_safe :: "('a, 'w) server \<Rightarrow> bool" where
  "handlers_safe s \<longleftrightarrow>
     (\<forall>meth h w m. handlers s meth = Some h \<longrightarrow>
        (\<exists>r w'. call_handler h w m = (Ok r, w') \<and> response_fits r)) \<and>
     (\<forall>meth h w m. eventHandlers s meth = Some h \<longrightarrow>
        (\<exists>ops w'. h w (fresh_ctx m None) = (Inr ops, w')))"

definition initial_srv :: "'w \<Rightarrow> ('a, 'w) srv" where
  "initial_srv w =
     \<lparr>sv_requests = [], sv_responses = [], sv_ctxs = [], sv_buffers = [], sv_tick = 0,
      sv_world = w, sv_out = []\<rparr>"

section \<open>Lemmas\<close>

subsection \<open>Pools\<close>

lemma pools_ok_initial: "pools_ok (initial_srv w)"
  by (simp add: pools_ok_def initial_srv_def rq_pool.pool_ok_empty rs_pool.pool_ok_empty
      cx_pool.pool_ok_empty bf_pool.pool_ok_empty)

lemma pools_ok_updates [simp]:
  "pools_ok (st\<lparr>sv_world := w\<rparr>) = pools_ok st"
  "pools_ok (st\<lparr>sv_out := out\<rparr>) = pools_ok st"
  "pools_ok (st\<lparr>sv_tick := n\<rparr>) = pools_ok st"
  by (simp_all add: pools_ok_def)

lemma sv_GetRequest_ok:
  assumes "pools_ok st"
  shows "fst (sv_GetRequest E st) = Request_zero" and "pools_ok (snd (sv_GetRequest E st))"
  using assms GetRequest_ok [of "sv_requests st"]
  by (simp_all add: sv_GetRequest_def case_prod_unfold pools_ok_def)

lemma sv_GetResponse_ok:
  assumes "pools_ok st"
  shows "fst (sv_GetResponse E st) = Response_zero" and "pools_ok (snd (sv_GetResponse E st))"
  using assms GetResponse_ok [of "sv_responses st"]
  by (simp_all add: sv_GetResponse_def case_prod_unfold pools_ok_def)

lemma sv_NewCtx_ok:
  assumes "pools_ok st"
  shows "fst (sv_NewCtx E (Some m) resp st) = fresh_ctx m resp"
    and "pools_ok (snd (sv_NewCtx E (Some m) resp st))"
  using assms NewCtx_ok [of "sv_ctxs st"]
  by (simp_all add: sv_NewCtx_def fresh_ctx_def case_prod_unfold pools_ok_def)

lemma sv_Release_ok:
  assumes "pools_ok st"
  shows "pools_ok (sv_ReleaseRequest req st)" and "pools_ok (sv_ReleaseResponse resp st)"
  using assms
  by (simp_all add: sv_ReleaseRequest_def sv_ReleaseResponse_def pools_ok_def ReleaseRequest_ok
      ReleaseResponse_ok)

text \<open>Pool operations touch neither the world nor the output.\<close>

lemma sv_io [simp]:
  "sv_world (snd (sv_GetRequest E st)) = sv_world st" "sv_out (snd (sv_GetRequest E st)) = sv_out st"
  "sv_world (snd (sv_GetResponse E st)) = sv_world st" "sv_out (snd (sv_GetResponse E st)) = sv_out st"
  "sv_world (snd (sv_NewCtx E q r st)) = sv_world st" "sv_out (snd (sv_NewCtx E q r st)) = sv_out st"
  "sv_world (sv_ReleaseRequest m st) = sv_world st" "sv_out (sv_ReleaseRequest m st) = sv_out st"
  "sv_world (sv_ReleaseResponse x st) = sv_world st" "sv_out (sv_ReleaseResponse x st) = sv_out st"
  "sv_world (snd (sv_EncodeResponse E x st)) = sv_world st"
  "sv_out (snd (sv_EncodeResponse E x st)) = sv_out st"
  by (simp_all add: sv_GetRequest_def sv_GetResponse_def sv_NewCtx_def sv_ReleaseRequest_def
      sv_ReleaseResponse_def sv_EncodeResponse_def case_prod_unfold Let_def)

lemmas sv_pool_simps = sv_GetRequest_ok sv_GetResponse_ok sv_NewCtx_ok sv_Release_ok

subsection \<open>Calls on the context\<close>

lemma ctx_op_step_keeps:
  assumes "cx_resp c = Some r" and "cx_locals c = Some l"
  shows "\<exists>c' r' l'. ctx_op_step op c = Ok c' \<and> cx_resp c' = Some r' \<and> cx_locals c' = Some l' \<and>
    rs_RequestId r' = rs_RequestId r \<and> rs_unknownFields r' = rs_unknownFields r"
  using assms
  by (cases op)
    (auto simp: Ctx_SetBody_def Ctx_SetHeaders_def Ctx_SetHeader_def Ctx_SetCode_def deref_def)

lemma ctx_ops_keeps:
  assumes "cx_resp c = Some r" and "cx_locals c = Some l"
  shows "\<exists>c' r' l'. ctx_ops ops c = Ok c' \<and> cx_resp c' = Some r' \<and> cx_locals c' = Some l' \<and>
    rs_RequestId r' = rs_RequestId r \<and> rs_unknownFields r' = rs_unknownFields r"
  using assms
proof (induction ops arbitrary: c r l)
  case Nil
  then show ?case by simp
next
  case (Cons op ops)
  from ctx_op_step_keeps [OF Cons.prems, of op] obtain c' r' l' where
    s: "ctx_op_step op c = Ok c'" "cx_resp c' = Some r'" "cx_locals c' = Some l'"
      "rs_RequestId r' = rs_RequestId r" "rs_unknownFields r' = rs_unknownFields r" by blast
  from Cons.IH [OF s(2,3)] show ?case by (simp add: s)
qed

text \<open>A handler's response carries the id of its request; the setters return no error.\<close>

lemma call_handler_cases:
  obtains (panic) p w' where "call_handler h w m = (Panic p, w')"
    "h w (fresh_ctx m (Some (Response_zero\<lparr>rs_RequestId := rq_RequestId m\<rparr>))) = (Inl p, w')"
  | (ok) ops c r l w' where "call_handler h w m = (Ok r, w')"
    "h w (fresh_ctx m (Some (Response_zero\<lparr>rs_RequestId := rq_RequestId m\<rparr>))) = (Inr ops, w')"
    "ctx_ops ops (fresh_ctx m (Some (Response_zero\<lparr>rs_RequestId := rq_RequestId m\<rparr>))) = Ok c"
    "cx_resp c = Some r" "cx_locals c = Some l" "rs_RequestId r = rq_RequestId m"
    "rs_unknownFields r = []"
proof -
  let ?c = "fresh_ctx m (Some (Response_zero\<lparr>rs_RequestId := rq_RequestId m\<rparr>))"
  obtain x w' where h: "h w ?c = (x, w')" by (cases "h w ?c") auto
  show thesis
  proof (cases x)
    case (Inl p)
    with h panic show thesis by (simp add: call_handler_def)
  next
    case (Inr ops)
    obtain c r l where c: "ctx_ops ops ?c = Ok c" "cx_resp c = Some r" "cx_locals c = Some l"
      "rs_RequestId r = rq_RequestId m" "rs_unknownFields r = []"
      using ctx_ops_keeps [of ?c _ NewLocals ops]
      by (auto simp: fresh_ctx_def Response_zero_def)
    with h Inr ok show thesis by (simp add: call_handler_def deref_def)
  qed
qed

subsection \<open>One frame\<close>

locale server_stack = wire_stack "e_ph E" "e_zstd E" for E :: env

interpretation ref_server: server_stack
    "\<lparr>e_ph = ref_helpers, e_zstd = ref_zstd, e_pick = pick, e_write = wr\<rparr>" for pick wr
  by unfold_locales (simp_all add: ref.EncodeVarint_spec ref.SizeOfVarint_spec ref_z.decode_encode)

lemma ReleaseCtx_srv_ok:
  assumes "pools_ok st" and "cx_locals c = Some l"
  obtains ctxs where "ReleaseCtx c (sv_ctxs st) = Ok ctxs" and "pools_ok (st\<lparr>sv_ctxs := ctxs\<rparr>)"
  using assms ReleaseCtx_ok [of "sv_ctxs st" c l] by (auto simp: pools_ok_def)

context server_stack
begin

lemma sv_EncodeResponse_ok:
  assumes "pools_ok st" and "wf_response r"
  obtains b st' where "sv_EncodeResponse E r st = (Ok b, st')"
    and "Buffer_Bytes b = response_wire (e_zstd E) r" and "pools_ok st'"
    and "pools_ok (st'\<lparr>sv_buffers := Buffer_Release (Some b) (sv_buffers st')\<rparr>)"
    and "sv_world st' = sv_world st" and "sv_out st' = sv_out st"
proof -
  have bf: "bf_pool.pool_ok (sv_buffers st)" using assms(1) by (simp add: pools_ok_def)
  obtain b pool where b:
    "EncodeResponse (e_ph E) (e_zstd E) (e_pick E (sv_tick st)) (sv_buffers st) r = (Ok b, pool)"
    "Buffer_Bytes b = response_wire (e_zstd E) r" "bf_pool.pool_ok pool"
    "bf_pool.pool_ok (Buffer_Release (Some b) pool)"
    using rs_frame.encode_wire_pool [OF assms(2) bf, of "e_pick E (sv_tick st)"]
    unfolding EncodeResponse_def response_wire_def by metis
  show thesis
  proof (rule that)
    show "sv_EncodeResponse E r st = (Ok b, st\<lparr>sv_buffers := pool, sv_tick := sv_tick st + 1\<rparr>)"
      by (simp add: sv_EncodeResponse_def b(1))
  qed (use b assms(1) in \<open>simp_all add: pools_ok_def\<close>)
qed

lemma serve_request_ok:
  assumes st: "pools_ok st"
    and d: "Server_maybeDecompress (e_zstd E) p f = Inr d"
    and m: "Request_UnmarshalVT (e_ph E) Request_zero d = Ok m"
    and h: "handlers s (rq_Method m) = Some h"
    and r: "call_handler h (sv_world st) m = (Ok r, w)" and wf: "wf_response r"
  shows "\<exists>st'. pools_ok st' \<and> sv_world st' = w \<and>
    (case e_write E (sv_out st) (response_wire (e_zstd E) r) of
       None \<Rightarrow> serve_request E s f p st = (None, st') \<and>
         sv_out st' = sv_out st @ [response_wire (e_zstd E) r]
     | Some err \<Rightarrow> serve_request E s f p st = (Some (WriteFailed err), st') \<and> sv_out st' = sv_out st)"
proof -
  let ?resp = "Response_zero\<lparr>rs_RequestId := rq_RequestId m\<rparr>"
  let ?st1 = "snd (sv_NewCtx E (Some m) (Some ?resp) (snd (sv_GetResponse E (snd (sv_GetRequest E st)))))"
  obtain ops c l where hc: "h (sv_world st) (fresh_ctx m (Some ?resp)) = (Inr ops, w)"
    and c: "ctx_ops ops (fresh_ctx m (Some ?resp)) = Ok c" "cx_resp c = Some r" "cx_locals c = Some l"
    using r by (cases rule: call_handler_cases [of h "sv_world st" m]) auto
  let ?st2 = "?st1\<lparr>sv_world := w\<rparr>"
  have ok2: "pools_ok ?st2" by (simp add: st sv_pool_simps)
  obtain ctxs where rc: "ReleaseCtx c (sv_ctxs ?st2) = Ok ctxs" "pools_ok (?st2\<lparr>sv_ctxs := ctxs\<rparr>)"
    using ReleaseCtx_srv_ok [OF ok2 c(3)] .
  let ?st3 = "sv_ReleaseRequest m (?st2\<lparr>sv_ctxs := ctxs\<rparr>)"
  have "pools_ok ?st3" using rc(2) by (rule sv_Release_ok)
  then obtain b st4 where e: "sv_EncodeResponse E r ?st3 = (Ok b, st4)"
    and b: "Buffer_Bytes b = response_wire (e_zstd E) r"
    and ok4: "pools_ok (st4\<lparr>sv_buffers := Buffer_Release (Some b) (sv_buffers st4)\<rparr>)"
    and io: "sv_world st4 = w" "sv_out st4 = sv_out st"
    by (rule sv_EncodeResponse_ok [OF _ wf]) simp
  have main: "serve_request E s f p st = sv_write E b (sv_ReleaseResponse r st4)"
    using rc(1) e
    by (simp add: serve_request_def d m h hc c case_prod_unfold Let_def st sv_pool_simps)
  have "pools_ok ((sv_ReleaseResponse r st4)\<lparr>sv_buffers :=
      Buffer_Release (Some b) (sv_buffers (sv_ReleaseResponse r st4))\<rparr>)"
    using sv_Release_ok(2) [OF ok4, of r] by (simp add: sv_ReleaseResponse_def pools_ok_def)
  then show ?thesis
    unfolding main
    by (cases "e_write E (sv_out st) (response_wire (e_zstd E) r)") (simp_all add: sv_write_def b io Let_def)
qed

lemma serve_request_panic:
  assumes st: "pools_ok st"
    and d: "Server_maybeDecompress (e_zstd E) p f = Inr d"
    and m: "Request_UnmarshalVT (e_ph E) Request_zero d = Ok m"
    and h: "handlers s (rq_Method m) = Some h"
    and r: "call_handler h (sv_world st) m = (Panic q, w)"
  shows "\<exists>st'. pools_ok st' \<and> sv_world st' = w \<and> sv_out st' = sv_out st \<and>
    serve_request E s f p st = (Some (Crashed q), st')"
proof -
  have "h (sv_world st) (fresh_ctx m (Some (Response_zero\<lparr>rs_RequestId := rq_RequestId m\<rparr>))) = (Inl q, w)"
    using r by (cases rule: call_handler_cases [of h "sv_world st" m]) auto
  then show ?thesis
    by (simp add: serve_request_def d m h case_prod_unfold Let_def st sv_pool_simps)
qed

lemma serve_request_unknown:
  assumes st: "pools_ok st"
    and d: "Server_maybeDecompress (e_zstd E) p f = Inr d"
    and m: "Request_UnmarshalVT (e_ph E) Request_zero d = Ok m"
    and h: "handlers s (rq_Method m) = None"
  shows "\<exists>st'. pools_ok st' \<and> sv_world st' = sv_world st \<and> sv_out st' = sv_out st \<and>
    serve_request E s f p st = (Some (HandlerNotFound (rq_Method m)), st')"
  by (simp add: serve_request_def d m h case_prod_unfold Let_def st sv_pool_simps)

lemma serve_event_known:
  assumes st: "pools_ok st"
    and d: "Server_maybeDecompress (e_zstd E) p f = Inr d"
    and m: "Request_UnmarshalVT (e_ph E) Request_zero d = Ok m"
    and h: "eventHandlers s (rq_Method m) = Some h"
    and r: "h (sv_world st) (fresh_ctx m None) = (x, w)"
  shows "\<exists>st'. pools_ok st' \<and> sv_world st' = w \<and> sv_out st' = sv_out st \<and>
    serve_event E s f p st = ((case x of Inl q \<Rightarrow> Some (Crashed q) | Inr _ \<Rightarrow> None), st')"
proof (cases x)
  case (Inl q)
  with r show ?thesis
    by (simp add: serve_event_def d m h case_prod_unfold Let_def st sv_pool_simps)
next
  case (Inr ops)
  let ?st1 = "(snd (sv_NewCtx E (Some m) None (snd (sv_GetRequest E st))))\<lparr>sv_world := w\<rparr>"
  let ?c = "(fresh_ctx m None)\<lparr>cx_locals := map_option (fold apply_locals_op ops) (cx_locals (fresh_ctx m None))\<rparr>"
  have "pools_ok ?st1" by (simp add: st sv_pool_simps)
  moreover have "cx_locals ?c = Some (fold apply_locals_op ops NewLocals)" by (simp add: fresh_ctx_def)
  ultimately obtain ctxs where "ReleaseCtx ?c (sv_ctxs ?st1) = Ok ctxs" "pools_ok (?st1\<lparr>sv_ctxs := ctxs\<rparr>)"
    by (rule ReleaseCtx_srv_ok)
  with Inr r sv_Release_ok(1) [OF this(2), of m] show ?thesis
    by (simp add: serve_event_def d m h case_prod_unfold Let_def st sv_pool_simps)
qed

lemma serve_event_unknown:
  assumes st: "pools_ok st"
    and d: "Server_maybeDecompress (e_zstd E) p f = Inr d"
    and m: "Request_UnmarshalVT (e_ph E) Request_zero d = Ok m"
    and h: "eventHandlers s (rq_Method m) = None"
  shows "\<exists>st'. pools_ok st' \<and> sv_world st' = sv_world st \<and> sv_out st' = sv_out st \<and>
    serve_event E s f p st = (None, st')"
  by (simp add: serve_event_def d m h case_prod_unfold Let_def st sv_pool_simps)

text \<open>A frame that cannot be decompressed or parsed is dropped.\<close>

lemma serve_frame_bad:
  assumes st: "pools_ok st"
    and bad: "\<And>d. Server_maybeDecompress (e_zstd E) p f = Inr d \<Longrightarrow>
      \<exists>e. Request_UnmarshalVT (e_ph E) Request_zero d = Err e"
  shows "\<exists>st'. pools_ok st' \<and> sv_world st' = sv_world st \<and> sv_out st' = sv_out st \<and>
    serve_frame E s f p st = (None, st')"
proof (cases "Server_maybeDecompress (e_zstd E) p f")
  case (Inl e)
  with st show ?thesis by (simp add: serve_frame_def serve_request_def serve_event_def)
next
  case (Inr d)
  with bad obtain e where "Request_UnmarshalVT (e_ph E) Request_zero d = Err e" by blast
  with Inr st show ?thesis
    by (auto simp: serve_frame_def serve_request_def serve_event_def case_prod_unfold Let_def sv_pool_simps)
qed

text \<open>Serving the frame of a message.\<close>

lemma serve_call:
  assumes "request_ok m"
  obtains f p d where
    "\<And>r e. read_frame False \<lparr>in_bytes = inmsg_wire (e_zstd E) (Call m) @ r, in_err = e\<rparr> =
       (Inr (f, p), \<lparr>in_bytes = r, in_err = e\<rparr>)"
    and "\<And>s st. serve_frame E s f p st = serve_request E s f p st"
    and "Server_maybeDecompress (e_zstd E) p f = Inr d"
    and "Request_UnmarshalVT (e_ph E) Request_zero d = Ok m"
proof -
  have "length (enc_request m) + 1 < 2 ^ 32" using assms by (simp add: request_ok_def)
  from rq_frame.decode_wire [OF request_ok_wf [OF assms] this] that show thesis
    by (metis inmsg_wire.simps(1) request_wire_def serve_frame_def)
qed

lemma serve_notify:
  assumes "request_ok m"
  obtains f p d where
    "\<And>r e. read_frame False \<lparr>in_bytes = inmsg_wire (e_zstd E) (Notify m) @ r, in_err = e\<rparr> =
       (Inr (f, p), \<lparr>in_bytes = r, in_err = e\<rparr>)"
    and "\<And>s st. serve_frame E s f p st = serve_event E s f p st"
    and "Server_maybeDecompress (e_zstd E) p f = Inr d"
    and "Request_UnmarshalVT (e_ph E) Request_zero d = Ok m"
proof -
  have "length (enc_request m) + 1 < 2 ^ 32" using assms by (simp add: request_ok_def)
  moreover have "serve_frame E s f p st = serve_event E s f p st"
    if "f = EVENT_FLAG \<or> f = EVENT_ZSTD_FLAG \<and> P" for s st f p P
    using that by (auto simp: serve_frame_def flag_defs)
  ultimately show thesis
    using ev_frame.decode_wire [OF request_ok_wf [OF assms]] that by (metis inmsg_wire.simps(2) event_wire_def)
qed

subsection \<open>The loop\<close>

lemma cycle_step:
  assumes "read_frame False stream = (Inr (f, p), stream')" and "serve_frame E s f p st = (x, st')"
  shows "streamReadCycle E s (Some stream) st =
    (case x of None \<Rightarrow> streamReadCycle E s (Some stream') st' | Some z \<Rightarrow> (z, st'))"
  using assms by (simp add: streamReadCycle.simps(2) split: option.splits)

lemma serve_message:
  assumes st: "pools_ok st" and m: "request_ok (inmsg_request m)"
    and sp: "serve_spec s [m] (sv_world st) = (rs, w, x)" and rs: "\<forall>r \<in> set rs. response_ok r"
    and wr: "\<And>out b. rs \<noteq> [] \<Longrightarrow> e_write E out b = None"
  obtains f p st' where
    "\<And>r e. read_frame False \<lparr>in_bytes = inmsg_wire (e_zstd E) m @ r, in_err = e\<rparr> =
       (Inr (f, p), \<lparr>in_bytes = r, in_err = e\<rparr>)"
    and "serve_frame E s f p st = (x, st')" and "pools_ok st'" and "sv_world st' = w"
    and "sv_out st' = sv_out st @ map (response_wire (e_zstd E)) rs"
proof (cases m)
  case (Call q)
  with m have "request_ok q" by simp
  then obtain f p d where rd: "\<And>r e. read_frame False \<lparr>in_bytes = inmsg_wire (e_zstd E) (Call q) @ r, in_err = e\<rparr> =
      (Inr (f, p), \<lparr>in_bytes = r, in_err = e\<rparr>)"
    and sf: "serve_frame E s f p st = serve_request E s f p st"
    and d: "Server_maybeDecompress (e_zstd E) p f = Inr d"
    and u: "Request_UnmarshalVT (e_ph E) Request_zero d = Ok q"
    by (rule serve_call) blast
  have "\<exists>st'. pools_ok st' \<and> sv_world st' = w \<and>
      sv_out st' = sv_out st @ map (response_wire (e_zstd E)) rs \<and> serve_request E s f p st = (x, st')"
  proof (cases "handlers s (rq_Method q)")
    case None
    with serve_request_unknown [OF st d u None] sp Call show ?thesis by auto
  next
    case (Some h)
    show ?thesis
    proof (cases rule: call_handler_cases [of h "sv_world st" q])
      case (panic z w')
      with serve_request_panic [OF st d u Some panic(1)] sp Call Some show ?thesis by auto
    next
      case (ok ops c r l w')
      with sp Call Some have "rs = [r]" "w = w'" "x = None" by auto
      with serve_request_ok [OF st d u Some ok(1)] response_ok_wf rs wr show ?thesis by auto
    qed
  qed
  with rd sf Call that show thesis by metis
next
  case (Notify q)
  with m have "request_ok q" by simp
  then obtain f p d where rd: "\<And>r e. read_frame False \<lparr>in_bytes = inmsg_wire (e_zstd E) (Notify q) @ r, in_err = e\<rparr> =
      (Inr (f, p), \<lparr>in_bytes = r, in_err = e\<rparr>)"
    and sf: "serve_frame E s f p st = serve_event E s f p st"
    and d: "Server_maybeDecompress (e_zstd E) p f = Inr d"
    and u: "Request_UnmarshalVT (e_ph E) Request_zero d = Ok q"
    by (rule serve_notify) blast
  have "\<exists>st'. pools_ok st' \<and> sv_world st' = w \<and>
      sv_out st' = sv_out st @ map (response_wire (e_zstd E)) rs \<and> serve_event E s f p st = (x, st')"
  proof (cases "eventHandlers s (rq_Method q)")
    case None
    with serve_event_unknown [OF st d u None] sp Notify show ?thesis by auto
  next
    case (Some h)
    obtain y w' where h: "h (sv_world st) (fresh_ctx q None) = (y, w')" by (cases "h (sv_world st) (fresh_ctx q None)")
    with serve_event_known [OF st d u Some h] sp Notify Some show ?thesis
      by (cases y) auto
  qed
  with rd sf Notify that show thesis by metis
qed

lemma serve_spec_Cons:
  "serve_spec s (m # ms) w =
     (case serve_spec s [m] w of
        (rs, w', Some z) \<Rightarrow> (rs, w', Some z)
      | (rs, w', None) \<Rightarrow> (let (rs', w'', x) = serve_spec s ms w' in (rs @ rs', w'', x)))"
  by (cases m) (auto split: option.splits prod.splits outcome.splits sum.splits)

lemma cycle_serves:
  assumes "pools_ok st" and "\<forall>m \<in> set ms. request_ok (inmsg_request m)"
    and "serve_spec s ms (sv_world st) = (rs, w, x)" and "\<forall>r \<in> set rs. response_ok r"
    and wr: "\<And>out b. rs \<noteq> [] \<Longrightarrow> e_write E out b = None"
  shows "\<exists>st'. pools_ok st' \<and> sv_world st' = w \<and>
    sv_out st' = sv_out st @ map (response_wire (e_zstd E)) rs \<and>
    streamReadCycle E s
      (Some \<lparr>in_bytes = concat (map (inmsg_wire (e_zstd E)) ms) @ rest, in_err = e\<rparr>) st =
      (case x of None \<Rightarrow> streamReadCycle E s (Some \<lparr>in_bytes = rest, in_err = e\<rparr>) st' | Some z \<Rightarrow> (z, st'))"
  using assms
proof (induction ms arbitrary: st rs w x)
  case Nil
  then show ?case by auto
next
  case (Cons m ms)
  obtain rs1 w1 x1 where s1: "serve_spec s [m] (sv_world st) = (rs1, w1, x1)" by (metis prod_cases3)
  have sub: "set rs1 \<subseteq> set rs" using Cons.prems(3) s1
    by (auto simp: serve_spec_Cons [of s m ms] split: option.splits prod.splits)
  have m1: "request_ok (inmsg_request m)" and r1: "\<forall>r \<in> set rs1. response_ok r"
    using Cons.prems(2,4) sub by auto
  have wr1: "e_write E out b = None" if "rs1 \<noteq> []" for out b
    using that sub by (intro Cons.prems(5)) auto
  obtain f p st1 where
    rd: "\<And>r e. read_frame False \<lparr>in_bytes = inmsg_wire (e_zstd E) m @ r, in_err = e\<rparr> =
       (Inr (f, p), \<lparr>in_bytes = r, in_err = e\<rparr>)"
    and sf: "serve_frame E s f p st = (x1, st1)" and st1: "pools_ok st1" "sv_world st1 = w1"
      "sv_out st1 = sv_out st @ map (response_wire (e_zstd E)) rs1"
    using serve_message [OF Cons.prems(1) m1 s1 r1 wr1] by metis
  let ?rest = "concat (map (inmsg_wire (e_zstd E)) ms) @ rest"
  have step: "streamReadCycle E s (Some \<lparr>in_bytes = concat (map (inmsg_wire (e_zstd E)) (m # ms)) @ rest, in_err = e\<rparr>) st =
      (case x1 of None \<Rightarrow> streamReadCycle E s (Some \<lparr>in_bytes = ?rest, in_err = e\<rparr>) st1 | Some z \<Rightarrow> (z, st1))"
    using cycle_step [OF rd [of ?rest e] sf] by simp
  show ?case
  proof (cases x1)
    case (Some z)
    with Cons.prems(3) s1 have "rs = rs1" "w = w1" "x = Some z" by (auto simp: serve_spec_Cons [of s m ms])
    with st1 step Some show ?thesis by (intro exI [of _ st1]) simp
  next
    case None
    obtain rs2 where rs: "rs = rs1 @ rs2" and s2: "serve_spec s ms (sv_world st1) = (rs2, w, x)"
      using Cons.prems(3) s1 None st1(2) by (auto simp: serve_spec_Cons [of s m ms] split: prod.splits)
    from Cons.IH [OF st1(1) _ s2] show ?thesis
      using Cons.prems(2,4,5) rs step None st1(3) by auto
  qed
qed

subsection \<open>Arbitrary input\<close>

lemma serve_frame_safe:
  assumes st: "pools_ok st" and safe: "handlers_safe s"
    and ret: "\<And>d. Server_maybeDecompress (e_zstd E) p f = Inr d \<Longrightarrow>
      returns (Request_UnmarshalVT (e_ph E) Request_zero d)"
  shows "\<exists>x st'. serve_frame E s f p st = (x, st') \<and> pools_ok st' \<and> x \<noteq> Some Stuck \<and>
    (\<forall>q. x \<noteq> Some (Crashed q))"
proof (cases "\<exists>d m. Server_maybeDecompress (e_zstd E) p f = Inr d \<and>
    Request_UnmarshalVT (e_ph E) Request_zero d = Ok m")
  case False
  with ret have bad: "\<exists>e. Request_UnmarshalVT (e_ph E) Request_zero d = Err e"
    if "Server_maybeDecompress (e_zstd E) p f = Inr d" for d
    using that by (cases "Request_UnmarshalVT (e_ph E) Request_zero d") force+
  then show ?thesis using serve_frame_bad [OF st, of p f s] by blast
next
  case True
  then obtain d m where d: "Server_maybeDecompress (e_zstd E) p f = Inr d"
    and u: "Request_UnmarshalVT (e_ph E) Request_zero d = Ok m" by blast
  have "\<exists>x st'. serve_request E s f p st = (x, st') \<and> pools_ok st' \<and> x \<noteq> Some Stuck \<and>
      (\<forall>q. x \<noteq> Some (Crashed q))"
  proof (cases "handlers s (rq_Method m)")
    case None
    with serve_request_unknown [OF st d u None] show ?thesis by auto
  next
    case (Some h)
    with safe obtain r w where r: "call_handler h (sv_world st) m = (Ok r, w)" and fits: "response_fits r"
      unfolding handlers_safe_def by blast
    have "rs_unknownFields r = []"
      using r by (cases rule: call_handler_cases [of h "sv_world st" m]) auto
    with fits have "wf_response r" by (simp add: wf_response_def)
    from serve_request_ok [OF st d u Some r this] show ?thesis
      by (auto split: option.splits)
  qed
  moreover have "\<exists>x st'. serve_event E s f p st = (x, st') \<and> pools_ok st' \<and> x \<noteq> Some Stuck \<and>
      (\<forall>q. x \<noteq> Some (Crashed q))"
  proof (cases "eventHandlers s (rq_Method m)")
    case None
    with serve_event_unknown [OF st d u None] show ?thesis by auto
  next
    case (Some h)
    with safe obtain ops w where "h (sv_world st) (fresh_ctx m None) = (Inr ops, w)"
      unfolding handlers_safe_def by blast
    from serve_event_known [OF st d u Some this] show ?thesis by auto
  qed
  ultimately show ?thesis using st by (auto simp: serve_frame_def)
qed

lemma cycle_safe:
  assumes ret: "\<And>d. length d < 2 ^ 63 \<Longrightarrow> returns (Request_UnmarshalVT (e_ph E) Request_zero d)"
    and dec: "\<And>d x. length d < 2 ^ 32 \<Longrightarrow> DecodeAll (e_zstd E) d = Inr x \<Longrightarrow> length x < 2 ^ 63"
    and safe: "handlers_safe s" and "pools_ok st"
  shows "\<exists>x st'. streamReadCycle E s (Some stream) st = (x, st') \<and> pools_ok st' \<and> x \<noteq> Stuck \<and>
    (\<forall>q. x \<noteq> Crashed q)"
  using assms(4)
proof (induction "length (in_bytes stream)" arbitrary: stream st rule: less_induct)
  case less
  show ?case
  proof (cases "read_frame False stream")
    case (Pair r stream')
    show ?thesis
    proof (cases r)
      case (Inl x)
      with Pair less.prems show ?thesis by (simp add: streamReadCycle.simps(2))
    next
      case (Inr fp)
      obtain f p where fp: "fp = (f, p)" by (cases fp)
      have rd: "read_frame False stream = (Inr (f, p), stream')" using Pair Inr fp by simp
      have "length p < 2 ^ 32" using read_frame_Inr [OF rd] by simp
      then have "returns (Request_UnmarshalVT (e_ph E) Request_zero d)"
        if "Server_maybeDecompress (e_zstd E) p f = Inr d" for d
        using that dec ret by (auto simp: Server_maybeDecompress_def DecompressZstd_def split: if_splits)
      then obtain x st' where sf: "serve_frame E s f p st = (x, st')" "pools_ok st'" "x \<noteq> Some Stuck"
        "\<forall>q. x \<noteq> Some (Crashed q)"
        using serve_frame_safe [OF less.prems safe, of p f] by blast
      show ?thesis
        using sf less.hyps [OF read_frame_shorter [OF rd] sf(2)] cycle_step [OF rd sf(1)]
        by (cases x) auto
    qed
  qed
qed

end

text \<open>The ids of the requests among the messages.\<close>

fun call_ids :: "inmsg list \<Rightarrow> u64 list" where
  "call_ids [] = []"
| "call_ids (Call m # ms) = rq_RequestId m # call_ids ms"
| "call_ids (Notify m # ms) = call_ids ms"

lemma serve_spec_ids:
  "serve_spec s ms w = (rs, w', x) \<Longrightarrow>
   map rs_RequestId rs = take (length rs) (call_ids ms) \<and> (x = None \<longrightarrow> length rs = length (call_ids ms))"
proof (induction s ms w arbitrary: rs w' x rule: serve_spec.induct)
  case (2 s m ms w)
  show ?case
  proof (cases "handlers s (rq_Method m)")
    case None
    with "2.prems" show ?thesis by auto
  next
    case (Some h)
    show ?thesis
    proof (cases rule: call_handler_cases [of h w m])
      case (panic p w1)
      with "2.prems" Some show ?thesis by auto
    next
      case (ok ops c r l w1)
      with "2.prems" Some obtain rs1 where "serve_spec s ms w1 = (rs1, w', x)" "rs = r # rs1"
        by (auto split: prod.splits)
      with "2.IH" [OF Some _ refl] ok show ?thesis by fastforce
    qed
  qed
next
  case (3 s m ms w)
  then show ?case by (auto split: option.splits prod.splits sum.splits)
qed auto

section \<open>Accepting connections and streams\<close>

text \<open>
  The two accept loops, over the results that \<open>Accept\<close> and \<open>AcceptStream\<close> return one after the
  other (the list ends where the loop still waits). They return what was handed to a new goroutine,
  in order, and why the loop ended.
\<close>

datatype accept_end = AcceptWaiting | AcceptPeerDisconnected | AcceptFailed go_error

fun startListen :: "(go_error + 'c) list \<Rightarrow> 'c list \<times> accept_end" where
  "startListen [] = ([], AcceptWaiting)"
| "startListen (Inl err # rest) = ([], AcceptFailed err)"
| "startListen (Inr conn # rest) = (let (cs, x) = startListen rest in (conn # cs, x))"

fun connReadCycle :: "(go_error + 'st) list \<Rightarrow> 'st list \<times> accept_end" where
  "connReadCycle [] = ([], AcceptWaiting)"
| "connReadCycle (Inl err # rest) =
     ([], if IsTimeoutErr err then AcceptPeerDisconnected else AcceptFailed err)"
| "connReadCycle (Inr stream # rest) = (let (ss, x) = connReadCycle rest in (stream # ss, x))"

section \<open>Properties\<close>

text \<open>
  C4. The server implements its specification. For a stream that starts with the frames of any
  sequence of requests and events, whatever follows them, and for clean pools of any content and
  any choices of the pools, the loop runs the handlers in order and writes exactly the frames of
  the responses the specification gives, in order, each with the id of its request; then it goes
  on with the rest of the stream, or has ended for the reason the specification gives (a method
  without handler, a panic of a handler). The pools stay clean.
\<close>

theorem server_serves:
  assumes "vt_helpers (e_ph E)" and "zstd_lib (e_zstd E)" and "\<forall>out b. e_write E out b = None"
    and "pools_ok st" and "\<forall>m \<in> set ms. request_ok (inmsg_request m)"
    and "serve_spec s ms (sv_world st) = (rs, w, x)" and "\<forall>r \<in> set rs. response_ok r"
  shows "\<exists>st'. pools_ok st' \<and> sv_world st' = w \<and>
    sv_out st' = sv_out st @ map (response_wire (e_zstd E)) rs \<and>
    map rs_RequestId rs = take (length rs) (call_ids ms) \<and>
    (x = None \<longrightarrow> length rs = length (call_ids ms)) \<and>
    streamReadCycle E s
      (Some \<lparr>in_bytes = concat (map (inmsg_wire (e_zstd E)) ms) @ rest, in_err = e\<rparr>) st =
      (case x of None \<Rightarrow> streamReadCycle E s (Some \<lparr>in_bytes = rest, in_err = e\<rparr>) st' | Some z \<Rightarrow> (z, st'))"
proof -
  have "server_stack E" using assms(1,2) by (intro server_stack.intro wire_stack.intro)
  from server_stack.cycle_serves [OF this assms(4,5,6,7)] show ?thesis
    using serve_spec_ids [OF assms(6)] assms(3) by blast
qed

text \<open>An application with one handler, which echoes, and one event handler, which counts.\<close>

definition echo_handler :: "(unit, nat) handler" where
  "echo_handler w c =
     (case cx_req c of
        None \<Rightarrow> (Inl NilDereference, w)
      | Some m \<Rightarrow> (Inr [CSetCode 200, CSetBody (rq_Body m)], w))"

definition demo_server :: "(unit, nat) server" where
  "demo_server =
     AddEventHandler (gostr ''log'') (\<lambda>w c. (Inr [LReset], w + 1))
       (AddHandler (gostr ''ec'') echo_handler newServer)"

definition demo_env :: env where
  "demo_env = \<lparr>e_ph = ref_helpers, e_zstd = ref_zstd, e_pick = (\<lambda>n. n), e_write = (\<lambda>out b. None)\<rparr>"

definition demo_messages :: "inmsg list" where
  "demo_messages = [Notify (sample_request\<lparr>rq_Method := gostr ''log''\<rparr>), Call sample_request]"

definition demo_response :: response where
  "demo_response = Response_zero\<lparr>rs_RequestId := 300, rs_Code := 200, rs_Body := [1, 2, 3]\<rparr>"

lemma demo_spec: "serve_spec demo_server demo_messages 5 = ([demo_response], 6, None)"
  by (simp add: demo_server_def demo_messages_def demo_response_def echo_handler_def AddHandler_def
      AddEventHandler_def newServer_def sample_request_def gostr_def call_handler_def fresh_ctx_def
      Ctx_SetCode_def Ctx_SetBody_def deref_def Response_zero_def)

lemma demo_env_simps [simp]:
  "e_ph demo_env = ref_helpers" "e_zstd demo_env = ref_zstd" "e_write demo_env = (\<lambda>out b. None)"
  by (simp_all add: demo_env_def)

lemma initial_srv_simps [simp]: "sv_world (initial_srv w) = w" "sv_out (initial_srv w) = []"
  by (simp_all add: initial_srv_def)

lemma demo_ok:
  "\<forall>m \<in> set demo_messages. request_ok (inmsg_request m)" "response_ok demo_response"
  by (simp_all add: demo_messages_def request_ok_def response_ok_def demo_response_def sample_request_def gostr_def
      enc_request_def enc_response_def enc_headers_def enc_opt_bytes_def enc_opt_varint_def
      enc_bytes_def enc_varint_def uvarint_def venc.simps Response_zero_def)

theorem server_serves_witness:
  "\<exists>st'. pools_ok st' \<and> sv_world st' = 6 \<and> sv_out st' = map (response_wire ref_zstd) [demo_response] \<and>
    map rs_RequestId [demo_response] = take 1 (call_ids demo_messages) \<and>
    streamReadCycle demo_env demo_server
      (Some \<lparr>in_bytes = concat (map (inmsg_wire ref_zstd) demo_messages), in_err = ErrEOF\<rparr>)
      (initial_srv 5) =
    streamReadCycle demo_env demo_server (Some \<lparr>in_bytes = [], in_err = ErrEOF\<rparr>) st'"
  using server_serves [of demo_env "initial_srv 5" demo_messages demo_server "[demo_response]" 6 None
      "[]" ErrEOF]
  by (auto simp: ref.vt_helpers_axioms ref_z.zstd_lib_axioms pools_ok_initial demo_spec demo_ok)

text \<open>
  C8. No input from the network crashes or hangs the server: for any bytes on the stream and any
  way it ends, if the handlers do not panic and their responses fit in memory, the loop returns
  for a reason other than a panic or a call that never returns, and leaves the pools clean.
  (Relied on: \<open>Skip\<close> makes progress, and what a frame's payload decompresses to fits in memory.)
\<close>

theorem server_survives_any_input:
  assumes "vt_helpers_skip (e_ph E)" and "zstd_lib (e_zstd E)"
    and "\<forall>d x. length d < 2 ^ 32 \<and> DecodeAll (e_zstd E) d = Inr x \<longrightarrow> length x < 2 ^ 63"
    and "handlers_safe s" and "pools_ok st"
  shows "\<exists>x st'. streamReadCycle E s (Some stream) st = (x, st') \<and> pools_ok st' \<and>
    x \<noteq> Stuck \<and> (\<forall>q. x \<noteq> Crashed q)"
proof (rule server_stack.cycle_safe)
  show "server_stack E"
    using vt_helpers_skip.axioms(1) [OF assms(1)] assms(2) by (intro server_stack.intro wire_stack.intro)
  show "returns (Request_UnmarshalVT (e_ph E) Request_zero d)" if "length d < 2 ^ 63" for d
    by (rule vt_helpers_skip.UnmarshalVT_returns(1) [OF assms(1) that])
qed (use assms in blast)+

definition pong_server :: "(unit, nat) server" where
  "pong_server =
     AddEventHandler (gostr ''log'') (\<lambda>w c. (Inr [], w + 1))
       (AddHandler (gostr ''ping'') (\<lambda>w c. (Inr [CSetBody (gostr ''pong'')], w)) newServer)"

lemma pong_safe: "handlers_safe pong_server"
proof -
  have fits: "response_fits (Response_zero\<lparr>rs_RequestId := i, rs_Body := gostr ''pong''\<rparr>)" for i
    using length_uvarint_le [of i]
    by (simp add: response_fits_def enc_response_def enc_headers_def enc_opt_bytes_def enc_bytes_def
        enc_opt_varint_def enc_varint_def Response_zero_def gostr_def venc.simps)
  show ?thesis
    using fits
    by (auto simp: handlers_safe_def pong_server_def AddHandler_def AddEventHandler_def newServer_def
        call_handler_def fresh_ctx_def Ctx_SetBody_def deref_def split: if_splits)
qed

theorem server_survives_any_input_witness:
  "\<exists>x st'. streamReadCycle demo_env pong_server
      (Some \<lparr>in_bytes = frame EVENT_ZSTD_FLAG [0xff, 1, 2], in_err = IdleTimeoutError\<rparr>) (initial_srv 0) = (x, st') \<and>
    pools_ok st' \<and> x \<noteq> Stuck \<and> (\<forall>q. x \<noteq> Crashed q)"
proof (rule server_survives_any_input)
  show "vt_helpers_skip (e_ph demo_env)" by (simp add: ref.vt_helpers_skip_axioms)
  show "zstd_lib (e_zstd demo_env)" by (simp add: ref_z.zstd_lib_axioms)
  show "\<forall>d x. length d < 2 ^ 32 \<and> DecodeAll (e_zstd demo_env) d = Inr x \<longrightarrow> length x < 2 ^ 63"
    unfolding demo_env_simps using ref_DecodeAll_bound by blast
qed (rule pong_safe, rule pools_ok_initial)

text \<open>
  C22. A request for a method without handler ends the loop: nothing is answered, and no later
  frame of the stream is read, while an event without handler is dropped and the loop goes on.
\<close>

theorem unknown_method_ends_stream:
  assumes "vt_helpers (e_ph E)" and "zstd_lib (e_zstd E)" and "pools_ok st" and "request_ok m"
    and "handlers s (rq_Method m) = None" and "eventHandlers s (rq_Method m) = None"
  shows "(\<exists>st'. pools_ok st' \<and> sv_out st' = sv_out st \<and> sv_world st' = sv_world st \<and>
      streamReadCycle E s (Some \<lparr>in_bytes = inmsg_wire (e_zstd E) (Call m) @ rest, in_err = e\<rparr>) st =
        (HandlerNotFound (rq_Method m), st')) \<and>
    (\<exists>st'. pools_ok st' \<and> sv_out st' = sv_out st \<and> sv_world st' = sv_world st \<and>
      streamReadCycle E s (Some \<lparr>in_bytes = inmsg_wire (e_zstd E) (Notify m) @ rest, in_err = e\<rparr>) st =
        streamReadCycle E s (Some \<lparr>in_bytes = rest, in_err = e\<rparr>) st')"
proof
  have E: "server_stack E" using assms(1,2) by (intro server_stack.intro wire_stack.intro)
  note run = server_stack.cycle_serves [OF E assms(3), where e = e and rest = rest and rs = "[]"]
  from run [where ms = "[Call m]" and s = s] assms(4-6) show "\<exists>st'. pools_ok st' \<and> sv_out st' = sv_out st \<and>
      sv_world st' = sv_world st \<and>
      streamReadCycle E s (Some \<lparr>in_bytes = inmsg_wire (e_zstd E) (Call m) @ rest, in_err = e\<rparr>) st =
        (HandlerNotFound (rq_Method m), st')" by auto
  from run [where ms = "[Notify m]" and s = s] assms(4-6) show "\<exists>st'. pools_ok st' \<and> sv_out st' = sv_out st \<and>
      sv_world st' = sv_world st \<and>
      streamReadCycle E s (Some \<lparr>in_bytes = inmsg_wire (e_zstd E) (Notify m) @ rest, in_err = e\<rparr>) st =
        streamReadCycle E s (Some \<lparr>in_bytes = rest, in_err = e\<rparr>) st'" by auto
qed

theorem unknown_method_ends_stream_witness:
  "(\<exists>st'. pools_ok st' \<and> sv_out st' = [] \<and> sv_world st' = 0 \<and>
      streamReadCycle demo_env pong_server
        (Some \<lparr>in_bytes = inmsg_wire ref_zstd (Call sample_request) @ [1, 2, 3], in_err = ErrEOF\<rparr>) (initial_srv 0) =
        (HandlerNotFound (gostr ''ec''), st')) \<and>
    (\<exists>st'. pools_ok st' \<and> sv_out st' = [] \<and> sv_world st' = 0 \<and>
      streamReadCycle demo_env pong_server
        (Some \<lparr>in_bytes = inmsg_wire ref_zstd (Notify sample_request) @ [1, 2, 3], in_err = ErrEOF\<rparr>) (initial_srv 0) =
        streamReadCycle demo_env pong_server (Some \<lparr>in_bytes = [1, 2, 3], in_err = ErrEOF\<rparr>) st')"
proof -
  have m: "rq_Method sample_request = gostr ''ec''" by (simp add: sample_request_def gostr_def)
  have "handlers pong_server (gostr ''ec'') = None" "eventHandlers pong_server (gostr ''ec'') = None"
    by (simp_all add: pong_server_def AddHandler_def AddEventHandler_def newServer_def gostr_def)
  then show ?thesis
    using unknown_method_ends_stream [of demo_env "initial_srv 0" sample_request pong_server "[1, 2, 3]" ErrEOF]
      demo_ok(1) m
    by (simp add: demo_messages_def ref.vt_helpers_axioms ref_z.zstd_lib_axioms pools_ok_initial)
qed

text \<open>
  C23. A frame whose payload cannot be decompressed or parsed, or whose flag is not a request or
  event flag, is dropped: the loop writes nothing, runs no handler, and serves the rest of the
  stream as if the frame were not there.
\<close>

theorem malformed_frame_dropped:
  assumes "vt_helpers (e_ph E)" and "zstd_lib (e_zstd E)" and "pools_ok st" and "length p + 1 < 2 ^ 32"
    and "f \<notin> {REQUEST_FLAG, REQUEST_ZSTD_FLAG, EVENT_FLAG, EVENT_ZSTD_FLAG} \<or>
      (\<exists>err. Server_maybeDecompress (e_zstd E) p f = Inl err) \<or>
      (\<exists>d err. Server_maybeDecompress (e_zstd E) p f = Inr d \<and>
         Request_UnmarshalVT (e_ph E) Request_zero d = Err err)"
  shows "\<exists>st'. pools_ok st' \<and> sv_out st' = sv_out st \<and> sv_world st' = sv_world st \<and>
    streamReadCycle E s (Some \<lparr>in_bytes = frame f p @ rest, in_err = e\<rparr>) st =
      streamReadCycle E s (Some \<lparr>in_bytes = rest, in_err = e\<rparr>) st'"
proof -
  have E: "server_stack E" using assms(1,2) by (intro server_stack.intro wire_stack.intro)
  have "\<exists>st'. pools_ok st' \<and> sv_world st' = sv_world st \<and> sv_out st' = sv_out st \<and>
      serve_frame E s f p st = (None, st')"
  proof (cases "f \<in> {REQUEST_FLAG, REQUEST_ZSTD_FLAG, EVENT_FLAG, EVENT_ZSTD_FLAG}")
    case True
    with assms(5) show ?thesis by (intro server_stack.serve_frame_bad [OF E assms(3)]) auto
  next
    case False
    with assms(3) show ?thesis by (simp add: serve_frame_def)
  qed
  then show ?thesis
    using server_stack.cycle_step [OF E read_frame_frame [OF assms(4)]] by fastforce
qed

theorem malformed_frame_dropped_witness:
  "\<exists>st'. pools_ok st' \<and> sv_out st' = [] \<and> sv_world st' = 0 \<and>
    streamReadCycle demo_env pong_server
      (Some \<lparr>in_bytes = frame RESPONSE_FLAG [1, 2] @ [9], in_err = ErrEOF\<rparr>) (initial_srv 0) =
    streamReadCycle demo_env pong_server (Some \<lparr>in_bytes = [9], in_err = ErrEOF\<rparr>) st'"
  using malformed_frame_dropped [of demo_env "initial_srv 0" "[1, 2]" RESPONSE_FLAG pong_server "[9]" ErrEOF]
  by (simp add: ref.vt_helpers_axioms ref_z.zstd_lib_axioms pools_ok_initial flag_defs)

end
