(* ===== verification/Server_Start.thy ===== *)
theory Server_Start
  imports Rpc_Server
begin

text \<open>
  The start of a server, \<open>NewServer\<close> of \<open>server.go\<close>, and its life after it: \<open>NewServer\<close> starts the
  goroutine that accepts connections and returns the server, and only then can the application add
  its handlers, so that frames of any stream arrive between its calls of \<open>AddHandler\<close>. A step is one
  call of the application or the arrival of one frame; every step uses the tables as they are.
\<close>

section \<open>NewServer\<close>

record quic_config =
  qc_KeepAlivePeriod :: int
  qc_MaxIdleTimeout :: int
  qc_InitialStreamReceiveWindow :: u64
  qc_MaxStreamReceiveWindow :: u64
  qc_InitialConnectionReceiveWindow :: u64
  qc_MaxConnectionReceiveWindow :: u64
  qc_MaxIncomingStreams :: int
  qc_HandshakeIdleTimeout :: int
  qc_DisablePathMTUDiscovery :: bool
  qc_InitialPacketSize :: u16

definition server_config :: quic_config where
  "server_config =
     \<lparr>qc_KeepAlivePeriod = 15 * 10 ^ 9, qc_MaxIdleTimeout = 60 * 10 ^ 9,
      qc_InitialStreamReceiveWindow = push_bit 20 8, qc_MaxStreamReceiveWindow = push_bit 20 32,
      qc_InitialConnectionReceiveWindow = push_bit 20 16, qc_MaxConnectionReceiveWindow = push_bit 20 64,
      qc_MaxIncomingStreams = 10000, qc_HandshakeIdleTimeout = 30 * 10 ^ 9,
      qc_DisablePathMTUDiscovery = True, qc_InitialPacketSize = 1452\<rparr>"

text \<open>
  \<open>NewServer\<close>, on \<open>quic.ListenAddr\<close> and the connections that its listener accepts: the server, and
  what its goroutine \<open>startListen\<close> does.
\<close>

definition NewServer ::
    "(string \<Rightarrow> 'tls \<Rightarrow> quic_config \<Rightarrow> go_error + (go_error + 'c) list) \<Rightarrow> string \<Rightarrow> 'tls \<Rightarrow>
     go_error + ('a, 'w) server \<times> 'c list \<times> accept_end" where
  "NewServer ListenAddr addr tls =
     (case ListenAddr addr tls server_config of
        Inl err \<Rightarrow> Inl err
      | Inr listener \<Rightarrow> Inr (newServer, startListen listener))"

section \<open>Steps\<close>

datatype ('a, 'w) life_event =
    Adds gostring "('a, 'w) handler"
  | AddsEvent gostring "('a, 'w) event_handler"
  | Iterates nat

text \<open>
  The server; of each stream, by number, what will still arrive on it, why its loop ended, and what
  was written to it; the pools and the world, which all streams share (their \<open>sv_out\<close> is only used
  within a step); whether the process has crashed.
\<close>

record ('a, 'w) life =
  li_server :: "('a, 'w) server"
  li_in :: "nat \<Rightarrow> instream"
  li_ended :: "nat \<rightharpoonup> stream_end"
  li_out :: "nat \<Rightarrow> bytes list"
  li_srv :: "('a, 'w) srv"
  li_crashed :: bool

definition new_life :: "('a, 'w) server \<Rightarrow> (nat \<Rightarrow> instream) \<Rightarrow> 'w \<Rightarrow> ('a, 'w) life" where
  "new_life s ins w =
     \<lparr>li_server = s, li_in = ins, li_ended = Map.empty, li_out = (\<lambda>_. []), li_srv = initial_srv w, li_crashed = False\<rparr>"

definition is_crash :: "stream_end option \<Rightarrow> bool" where
  "is_crash x = (case x of Some (Crashed p) \<Rightarrow> True | _ \<Rightarrow> False)"

text \<open>One iteration of \<open>streamReadCycle\<close> on stream \<open>i\<close>.\<close>

definition iterate :: "env \<Rightarrow> nat \<Rightarrow> ('a, 'w) life \<Rightarrow> ('a, 'w) life" where
  "iterate E i li =
     (if li_ended li i \<noteq> None then li
      else
        (case read_frame False (li_in li i) of
           (Inl x, stream) \<Rightarrow> li\<lparr>li_in := (li_in li)(i := stream), li_ended := (li_ended li)(i \<mapsto> ReadEnd x)\<rparr>
         | (Inr (flag, reqBuff), stream) \<Rightarrow>
             let (x, st) = serve_frame E (li_server li) flag reqBuff ((li_srv li)\<lparr>sv_out := li_out li i\<rparr>)
             in li\<lparr>li_in := (li_in li)(i := stream), li_ended := (li_ended li)(i := x),
                   li_out := (li_out li)(i := sv_out st), li_srv := st, li_crashed := is_crash x\<rparr>))"

definition life_step :: "env \<Rightarrow> ('a, 'w) life_event \<Rightarrow> ('a, 'w) life \<Rightarrow> ('a, 'w) life" where
  "life_step E ev li =
     (if li_crashed li then li
      else
        (case ev of
           Adds meth h \<Rightarrow> li\<lparr>li_server := AddHandler meth h (li_server li)\<rparr>
         | AddsEvent meth h \<Rightarrow> li\<lparr>li_server := AddEventHandler meth h (li_server li)\<rparr>
         | Iterates i \<Rightarrow> iterate E i li))"

definition life_run :: "env \<Rightarrow> ('a, 'w) life_event list \<Rightarrow> ('a, 'w) life \<Rightarrow> ('a, 'w) life" where
  "life_run E = fold (life_step E)"

section \<open>Specification\<close>

text \<open>The same life with messages and responses: no bytes, no frames, no pools.\<close>

record ('a, 'w) service =
  se_server :: "('a, 'w) server"
  se_in :: "nat \<Rightarrow> inmsg list"
  se_ended :: "nat \<rightharpoonup> stream_end"
  se_out :: "nat \<Rightarrow> response list"
  se_world :: 'w
  se_crashed :: bool

definition serve_next :: "(nat \<Rightarrow> go_error) \<Rightarrow> nat \<Rightarrow> ('a, 'w) service \<Rightarrow> ('a, 'w) service" where
  "serve_next err i se =
     (if se_ended se i \<noteq> None then se
      else
        (case se_in se i of
           [] \<Rightarrow> se\<lparr>se_ended := (se_ended se)(i \<mapsto> ReadEnd (classify True ''header length'' (err i)))\<rparr>
         | m # ms \<Rightarrow>
             let (rs, w, x) = serve_spec (se_server se) [m] (se_world se)
             in se\<lparr>se_in := (se_in se)(i := ms), se_ended := (se_ended se)(i := x),
                   se_out := (se_out se)(i := se_out se i @ rs), se_world := w, se_crashed := is_crash x\<rparr>))"

definition service_step :: "(nat \<Rightarrow> go_error) \<Rightarrow> ('a, 'w) life_event \<Rightarrow> ('a, 'w) service \<Rightarrow> ('a, 'w) service" where
  "service_step err ev se =
     (if se_crashed se then se
      else
        (case ev of
           Adds meth h \<Rightarrow> se\<lparr>se_server := AddHandler meth h (se_server se)\<rparr>
         | AddsEvent meth h \<Rightarrow> se\<lparr>se_server := AddEventHandler meth h (se_server se)\<rparr>
         | Iterates i \<Rightarrow> serve_next err i se))"

definition service_run :: "(nat \<Rightarrow> go_error) \<Rightarrow> ('a, 'w) life_event list \<Rightarrow> ('a, 'w) service \<Rightarrow> ('a, 'w) service" where
  "service_run err = fold (service_step err)"

definition new_service :: "('a, 'w) server \<Rightarrow> (nat \<Rightarrow> inmsg list) \<Rightarrow> 'w \<Rightarrow> ('a, 'w) service" where
  "new_service s ins w =
     \<lparr>se_server = s, se_in = ins, se_ended = Map.empty, se_out = (\<lambda>_. []), se_world = w, se_crashed = False\<rparr>"

text \<open>The bytes of a stream of messages, and the state that a service describes.\<close>

definition wire_stream :: "zstd \<Rightarrow> go_error \<Rightarrow> inmsg list \<Rightarrow> instream" where
  "wire_stream zs e ms = \<lparr>in_bytes = concat (map (inmsg_wire zs) ms), in_err = e\<rparr>"

definition implements :: "env \<Rightarrow> (nat \<Rightarrow> go_error) \<Rightarrow> ('a, 'w) life \<Rightarrow> ('a, 'w) service \<Rightarrow> bool" where
  "implements E err li se \<longleftrightarrow>
     li_server li = se_server se \<and> li_in li = (\<lambda>i. wire_stream (e_zstd E) (err i) (se_in se i)) \<and>
     li_ended li = se_ended se \<and> li_out li = (\<lambda>i. map (response_wire (e_zstd E)) (se_out se i)) \<and>
     pools_ok (li_srv li) \<and> sv_world (li_srv li) = se_world se \<and> li_crashed li = se_crashed se"

section \<open>Lemmas\<close>

lemma implements_new: "implements E err (new_life s (\<lambda>i. wire_stream (e_zstd E) (err i) (ins i)) w) (new_service s ins w)"
  by (simp add: implements_def new_life_def new_service_def pools_ok_initial)

lemma read_wire_Nil: "read_frame False (wire_stream zs e []) = (Inl (classify True ''header length'' e), wire_stream zs e [])"
  by (simp add: read_frame_def ReadFull_def wire_stream_def)

text \<open>Nothing that was written is taken back, and no message is added.\<close>

lemma service_step_out: "\<exists>rs. se_out (service_step err ev se) i = se_out se i @ rs"
  by (auto simp: service_step_def serve_next_def Let_def split: life_event.splits list.splits prod.splits)

lemma service_run_out: "\<exists>rs. se_out (service_run err evs se) i = se_out se i @ rs"
proof (induction evs arbitrary: se)
  case (Cons ev evs)
  from Cons.IH [of "service_step err ev se"] service_step_out [of err ev se i] show ?case
    by (auto simp: service_run_def)
qed (simp add: service_run_def)

lemma service_step_in: "set (se_in (service_step err ev se) i) \<subseteq> set (se_in se i)"
  by (auto simp: service_step_def serve_next_def Let_def split: life_event.splits list.splits prod.splits)

lemma service_step_ended: "se_ended se i = Some x \<Longrightarrow> se_ended (service_step err ev se) i = Some x \<and> se_out (service_step err ev se) i = se_out se i"
  by (auto simp: service_step_def serve_next_def Let_def split: life_event.splits list.splits prod.splits)

lemma service_run_ended:
  "se_ended se i = Some x \<Longrightarrow> se_ended (service_run err evs se) i = Some x \<and> se_out (service_run err evs se) i = se_out se i"
  by (induction evs arbitrary: se) (use service_step_ended in \<open>fastforce simp: service_run_def\<close>)+

lemma service_run_append: "service_run err (evs @ evs') se = service_run err evs' (service_run err evs se)"
  by (simp add: service_run_def)

lemma service_step_handlers:
  "handlers (se_server (service_step err ev se)) meth =
     (if \<not> se_crashed se \<and> (\<exists>h. ev = Adds meth h) then Some (THE h. ev = Adds meth h) else handlers (se_server se) meth)"
  by (auto simp: service_step_def serve_next_def AddHandler_def AddEventHandler_def Let_def
      split: life_event.splits list.splits prod.splits)

text \<open>
  A handler is not there before it is added, and a stream whose loop did not run has its messages: a
  request that is read before its handler is added ends its stream, whatever is added afterwards.
\<close>

lemma service_run_untouched:
  assumes "\<forall>h. Adds meth h \<notin> set evs" and "Iterates i \<notin> set evs"
  shows "handlers (se_server (service_run err evs se)) meth = handlers (se_server se) meth \<and>
    se_in (service_run err evs se) i = se_in se i \<and> se_ended (service_run err evs se) i = se_ended se i \<and>
    se_out (service_run err evs se) i = se_out se i"
  using assms
proof (induction evs arbitrary: se)
  case (Cons ev evs)
  let ?se = "service_step err ev se"
  have "handlers (se_server ?se) meth = handlers (se_server se) meth" using Cons.prems(1) by (auto simp: service_step_handlers)
  moreover have "se_in ?se i = se_in se i \<and> se_ended ?se i = se_ended se i \<and> se_out ?se i = se_out se i"
    using Cons.prems(2)
    by (auto simp: service_step_def serve_next_def Let_def split: life_event.splits list.splits prod.splits)
  ultimately show ?case using Cons.IH [of ?se] Cons.prems by (simp add: service_run_def)
qed (simp add: service_run_def)

lemma early_request_lost:
  assumes "ins i = Call m # ms" and "\<forall>h. Adds (rq_Method m) h \<notin> set evs" and "Iterates i \<notin> set evs"
    and "\<not> se_crashed (service_run err evs (new_service newServer ins w))"
    and "se = service_run err (evs @ Iterates i # evs') (new_service newServer ins w)"
  shows "se_out se i = [] \<and> se_ended se i = Some (HandlerNotFound (rq_Method m))"
proof -
  let ?se = "service_run err evs (new_service newServer ins w)"
  have "handlers (se_server ?se) (rq_Method m) = None" "se_in ?se i = Call m # ms" "se_ended ?se i = None" "se_out ?se i = []"
    using service_run_untouched [OF assms(2,3), of err "new_service newServer ins w"] assms(1)
    by (simp_all add: new_service_def newServer_def)
  then have "se_ended (service_step err (Iterates i) ?se) i = Some (HandlerNotFound (rq_Method m)) \<and>
      se_out (service_step err (Iterates i) ?se) i = []"
    using assms(4) by (simp add: service_step_def serve_next_def)
  moreover have "se = service_run err evs' (service_step err (Iterates i) ?se)"
    using assms(5) by (simp add: service_run_def)
  ultimately show ?thesis using service_run_ended [of "service_step err (Iterates i) ?se" i] by simp
qed

context server_stack
begin

lemma iterate_implements:
  assumes I: "implements E err li se" and m: "\<forall>m \<in> set (se_in se i). request_ok (inmsg_request m)"
    and r: "\<forall>r \<in> set (se_out (serve_next err i se) i). response_ok r" and wr: "\<And>out b. e_write E out b = None"
  shows "implements E err (iterate E i li) (serve_next err i se)"
proof (cases "se_ended se i = None")
  case False
  with I show ?thesis by (simp add: iterate_def serve_next_def implements_def)
next
  case live: True
  with I have live': "li_ended li i = None" by (simp add: implements_def)
  have inp: "li_in li i = wire_stream (e_zstd E) (err i) (se_in se i)" using I by (simp add: implements_def)
  show ?thesis
  proof (cases "se_in se i")
    case Nil
    with I live live' inp show ?thesis
      by (auto simp: iterate_def serve_next_def implements_def read_wire_Nil fun_eq_iff)
  next
    case (Cons m1 ms)
    let ?st = "(li_srv li)\<lparr>sv_out := li_out li i\<rparr>"
    obtain rs w x where sp: "serve_spec (se_server se) [m1] (se_world se) = (rs, w, x)"
      by (cases "serve_spec (se_server se) [m1] (se_world se)")
    have next_: "serve_next err i se = se\<lparr>se_in := (se_in se)(i := ms), se_ended := (se_ended se)(i := x),
                   se_out := (se_out se)(i := se_out se i @ rs), se_world := w, se_crashed := is_crash x\<rparr>"
      using live Cons sp by (simp add: serve_next_def)
    have ok: "pools_ok ?st" "request_ok (inmsg_request m1)"
      "serve_spec (se_server se) [m1] (sv_world ?st) = (rs, w, x)" "\<forall>r \<in> set rs. response_ok r"
      using I m Cons sp r next_ by (auto simp: implements_def)
    obtain f p st' where rd: "\<And>r e. read_frame False \<lparr>in_bytes = inmsg_wire (e_zstd E) m1 @ r, in_err = e\<rparr> =
         (Inr (f, p), \<lparr>in_bytes = r, in_err = e\<rparr>)"
      and st': "serve_frame E (se_server se) f p ?st = (x, st')" "pools_ok st'" "sv_world st' = w"
        "sv_out st' = sv_out ?st @ map (response_wire (e_zstd E)) rs"
      by (rule serve_message [OF ok wr]) blast+
    have "read_frame False (li_in li i) = (Inr (f, p), wire_stream (e_zstd E) (err i) ms)"
      using rd inp Cons by (simp add: wire_stream_def)
    with live' st' I have it: "iterate E i li = li\<lparr>li_in := (li_in li)(i := wire_stream (e_zstd E) (err i) ms),
        li_ended := (li_ended li)(i := x), li_out := (li_out li)(i := sv_out st'), li_srv := st', li_crashed := is_crash x\<rparr>"
      by (simp add: iterate_def implements_def)
    show ?thesis unfolding it next_ using I st' by (auto simp: implements_def fun_eq_iff)
  qed
qed

lemma life_step_implements:
  assumes I: "implements E err li se" and "\<forall>i. \<forall>m \<in> set (se_in se i). request_ok (inmsg_request m)"
    and "\<forall>i. \<forall>r \<in> set (se_out (service_step err ev se) i). response_ok r" and "\<And>out b. e_write E out b = None"
  shows "implements E err (life_step E ev li) (service_step err ev se)"
proof (cases "se_crashed se")
  case True
  with I show ?thesis by (simp add: life_step_def service_step_def implements_def)
next
  case live: False
  with I have live': "\<not> li_crashed li" by (simp add: implements_def)
  show ?thesis
  proof (cases ev)
    case (Iterates i)
    with live live' assms iterate_implements [OF I, of i] show ?thesis by (simp add: life_step_def service_step_def)
  qed (use I live live' in \<open>simp_all add: life_step_def service_step_def implements_def\<close>)
qed

lemma life_run_implements:
  assumes "implements E err li se" and "\<forall>i. \<forall>m \<in> set (se_in se i). request_ok (inmsg_request m)"
    and "\<forall>i. \<forall>r \<in> set (se_out (service_run err evs se) i). response_ok r" and "\<And>out b. e_write E out b = None"
  shows "implements E err (life_run E evs li) (service_run err evs se)"
  using assms(1-3)
proof (induction evs arbitrary: li se)
  case (Cons ev evs)
  let ?se = "service_step err ev se"
  have run: "service_run err (ev # evs) se = service_run err evs ?se" by (simp add: service_run_def)
  have out: "\<forall>i. \<forall>r \<in> set (se_out ?se i). response_ok r"
    using service_run_out [of err evs ?se] Cons.prems(3) unfolding run by (metis Un_iff set_append)
  have inp: "\<forall>i. \<forall>m \<in> set (se_in ?se i). request_ok (inmsg_request m)"
    using service_step_in Cons.prems(2) by blast
  have "implements E err (life_step E ev li) ?se" by (rule life_step_implements [OF Cons.prems(1,2) out assms(4)])
  from Cons.IH [OF this inp] Cons.prems(3) show ?case by (simp add: run life_run_def)
qed (simp add: life_run_def service_run_def)

end

section \<open>Properties\<close>


text \<open>
  Two clients send the same request; the first arrives before the application has added the handler,
  the second after it: only the second is answered.
\<close>

definition demo_life :: "(unit, nat) life_event list" where
  "demo_life = [Iterates 1, Adds (gostr ''ec'') echo_handler, Iterates 0, Iterates 1]"

definition demo_inputs :: "nat \<Rightarrow> inmsg list" where
  "demo_inputs i = (if i < 2 then [Call sample_request] else [])"

lemma demo_service:
  "se_out (service_run (\<lambda>_. ErrEOF) demo_life (new_service newServer demo_inputs 5)) = ((\<lambda>_. [])(0 := [demo_response]))"
  "se_ended (service_run (\<lambda>_. ErrEOF) demo_life (new_service newServer demo_inputs 5)) 1 = Some (HandlerNotFound (gostr ''ec''))"
  by (simp_all add: service_run_def demo_life_def new_service_def service_step_def serve_next_def demo_inputs_def
      newServer_def AddHandler_def sample_request_def echo_handler_def call_handler_def fresh_ctx_def is_crash_def
      Ctx_SetCode_def Ctx_SetBody_def deref_def Response_zero_def demo_response_def gostr_def fun_eq_iff)


end
