(* ===== verification/Sharded_Map.thy ===== *)
theory Sharded_Map
  imports Go_Base
begin

text \<open>
  The 256-shard map of \<open>internal/shardedmap.go\<close>, which the client uses to find the channel that
  waits for a request id. Each operation runs under the lock of one shard, so it is one atomic
  state change. The locale \<open>id_map\<close> is the interface the client relies on: a map keyed by
  request ids whose \<open>load_delete\<close> hands a value out at most once.
\<close>

section \<open>Data and operations\<close>

definition shardCount :: nat where
  "shardCount = 256"

record 'v shard =
  items :: "u64 \<rightharpoonup> 'v"

record 'v sharded_map =
  shards :: "'v shard list"

definition NewShardedMap :: "'v sharded_map" where
  "NewShardedMap = \<lparr>shards = replicate shardCount \<lparr>items = Map.empty\<rparr>\<rparr>"

text \<open>\<open>key % shardCount\<close>\<close>

definition shard_index :: "u64 \<Rightarrow> nat" where
  "shard_index key = unat (key mod word_of_nat shardCount)"

definition ShardedMap_Store :: "u64 \<Rightarrow> 'v \<Rightarrow> 'v sharded_map \<Rightarrow> 'v sharded_map" where
  "ShardedMap_Store key val sm =
     (let i = shard_index key; s = shards sm ! i
      in sm\<lparr>shards := (shards sm)[i := s\<lparr>items := (items s)(key \<mapsto> val)\<rparr>]\<rparr>)"

definition ShardedMap_LoadAndDelete :: "u64 \<Rightarrow> 'v sharded_map \<Rightarrow> 'v option \<times> 'v sharded_map" where
  "ShardedMap_LoadAndDelete key sm =
     (let i = shard_index key; s = shards sm ! i
      in case items s key of
           Some v \<Rightarrow> (Some v, sm\<lparr>shards := (shards sm)[i := s\<lparr>items := (items s)(key := None)\<rparr>]\<rparr>)
         | None \<Rightarrow> (None, sm))"

definition ShardedMap_Delete :: "u64 \<Rightarrow> 'v sharded_map \<Rightarrow> 'v sharded_map" where
  "ShardedMap_Delete key sm =
     (let i = shard_index key; s = shards sm ! i
      in sm\<lparr>shards := (shards sm)[i := s\<lparr>items := (items s)(key := None)\<rparr>]\<rparr>)"

section \<open>Abstraction and invariant\<close>

text \<open>The map that the shards together stand for.\<close>

definition sm_lookup :: "'v sharded_map \<Rightarrow> u64 \<rightharpoonup> 'v" where
  "sm_lookup sm key = items (shards sm ! shard_index key) key"

text \<open>There are 256 shards, and every key is in the shard of its index.\<close>

definition sm_inv :: "'v sharded_map \<Rightarrow> bool" where
  "sm_inv sm \<longleftrightarrow>
     length (shards sm) = shardCount \<and>
     (\<forall>i < shardCount. \<forall>key \<in> dom (items (shards sm ! i)). shard_index key = i)"

lemma shard_index_less [simp]: "shard_index key < shardCount"
  by (simp add: shard_index_def shardCount_def unat_mod)

lemma shard_index_in_range [simp]: "sm_inv sm \<Longrightarrow> shard_index key < length (shards sm)"
  by (simp add: sm_inv_def)

lemma sm_lookup_New [simp]: "sm_lookup NewShardedMap = Map.empty"
  by (rule ext) (simp add: sm_lookup_def NewShardedMap_def)

lemma sm_inv_New [simp]: "sm_inv NewShardedMap"
  by (simp add: sm_inv_def NewShardedMap_def)

text \<open>The three operations write one shard; this is its effect on the abstraction.\<close>

lemma sm_lookup_update:
  assumes "sm_inv sm"
  shows "sm_lookup (sm\<lparr>shards := (shards sm)[shard_index key :=
      (shards sm ! shard_index key)\<lparr>items := (items (shards sm ! shard_index key))(key := x)\<rparr>]\<rparr>) =
    (sm_lookup sm)(key := x)"
proof (rule ext)
  fix k
  show "sm_lookup (sm\<lparr>shards := (shards sm)[shard_index key :=
      (shards sm ! shard_index key)\<lparr>items := (items (shards sm ! shard_index key))(key := x)\<rparr>]\<rparr>) k =
    ((sm_lookup sm)(key := x)) k"
    using assms by (cases "shard_index k = shard_index key") (auto simp: sm_lookup_def)
qed

lemma sm_inv_update:
  assumes "sm_inv sm"
  shows "sm_inv (sm\<lparr>shards := (shards sm)[shard_index key :=
      (shards sm ! shard_index key)\<lparr>items := (items (shards sm ! shard_index key))(key := x)\<rparr>]\<rparr>)"
  using assms by (auto simp: sm_inv_def nth_list_update split: if_splits)

lemma sm_lookup_Store: "sm_inv sm \<Longrightarrow> sm_lookup (ShardedMap_Store k v sm) = (sm_lookup sm)(k \<mapsto> v)"
  by (simp add: ShardedMap_Store_def Let_def sm_lookup_update)

lemma sm_lookup_Delete: "sm_inv sm \<Longrightarrow> sm_lookup (ShardedMap_Delete k sm) = (sm_lookup sm)(k := None)"
  by (simp add: ShardedMap_Delete_def Let_def sm_lookup_update)

lemma sm_inv_Store: "sm_inv sm \<Longrightarrow> sm_inv (ShardedMap_Store k v sm)"
  by (simp add: ShardedMap_Store_def Let_def sm_inv_update)

lemma sm_inv_Delete: "sm_inv sm \<Longrightarrow> sm_inv (ShardedMap_Delete k sm)"
  by (simp add: ShardedMap_Delete_def Let_def sm_inv_update)

lemma LoadAndDelete_eq:
  assumes "sm_inv sm"
  shows "fst (ShardedMap_LoadAndDelete k sm) = sm_lookup sm k"
    and "sm_lookup (snd (ShardedMap_LoadAndDelete k sm)) = (sm_lookup sm)(k := None)"
    and "sm_inv (snd (ShardedMap_LoadAndDelete k sm))"
  using assms sm_lookup_update [OF assms, of k None] sm_inv_update [OF assms, of k None]
  by (auto simp: ShardedMap_LoadAndDelete_def Let_def sm_lookup_def fun_upd_idem split: option.splits)

section \<open>The interface\<close>

locale id_map =
  fixes empty :: 'm
    and store :: "u64 \<Rightarrow> 'v \<Rightarrow> 'm \<Rightarrow> 'm"
    and load_delete :: "u64 \<Rightarrow> 'm \<Rightarrow> 'v option \<times> 'm"
    and remove :: "u64 \<Rightarrow> 'm \<Rightarrow> 'm"
    and lookup :: "'m \<Rightarrow> u64 \<rightharpoonup> 'v"
    and invar :: "'m \<Rightarrow> bool"
  assumes lookup_empty: "lookup empty = Map.empty"
    and lookup_store: "invar m \<Longrightarrow> lookup (store k v m) = (lookup m)(k \<mapsto> v)"
    and load_delete_result: "invar m \<Longrightarrow> fst (load_delete k m) = lookup m k"
    and lookup_load_delete: "invar m \<Longrightarrow> lookup (snd (load_delete k m)) = (lookup m)(k := None)"
    and lookup_remove: "invar m \<Longrightarrow> lookup (remove k m) = (lookup m)(k := None)"
    and invar_empty: "invar empty"
    and invar_store: "invar m \<Longrightarrow> invar (store k v m)"
    and invar_load_delete: "invar m \<Longrightarrow> invar (snd (load_delete k m))"
    and invar_remove: "invar m \<Longrightarrow> invar (remove k m)"
begin

lemma handed_out_once:
  assumes "invar m"
  shows "fst (load_delete k (store k v m)) = Some v"
    and "fst (load_delete k (snd (load_delete k (store k v m)))) = None"
  using assms
  by (simp_all add: load_delete_result lookup_load_delete lookup_store invar_store invar_load_delete)

lemma other_key:
  assumes "invar m" and "k' \<noteq> k"
  shows "fst (load_delete k' (store k v m)) = fst (load_delete k' m)"
    and "fst (load_delete k' (snd (load_delete k m))) = fst (load_delete k' m)"
    and "fst (load_delete k' (remove k m)) = fst (load_delete k' m)"
  using assms
  by (simp_all add: load_delete_result lookup_load_delete lookup_store lookup_remove
      invar_store invar_load_delete invar_remove)

end

interpretation sm: id_map NewShardedMap ShardedMap_Store ShardedMap_LoadAndDelete ShardedMap_Delete
    sm_lookup sm_inv
  by unfold_locales
    (simp_all add: sm_lookup_Store sm_lookup_Delete sm_inv_Store sm_inv_Delete LoadAndDelete_eq)

section \<open>Refinement of a plain map\<close>

text \<open>A sequence of operations, with the results that the loads return.\<close>

datatype 'v map_op = OpStore u64 'v | OpLoadAndDelete u64 | OpDelete u64

fun run_sharded :: "'v map_op list \<Rightarrow> 'v sharded_map \<Rightarrow> 'v option list \<times> 'v sharded_map" where
  "run_sharded [] m = ([], m)"
| "run_sharded (OpStore k v # ops) m = run_sharded ops (ShardedMap_Store k v m)"
| "run_sharded (OpLoadAndDelete k # ops) m =
     (let (r, m') = ShardedMap_LoadAndDelete k m; (rs, m'') = run_sharded ops m' in (r # rs, m''))"
| "run_sharded (OpDelete k # ops) m = run_sharded ops (ShardedMap_Delete k m)"

fun run_plain :: "'v map_op list \<Rightarrow> (u64 \<rightharpoonup> 'v) \<Rightarrow> 'v option list \<times> (u64 \<rightharpoonup> 'v)" where
  "run_plain [] m = ([], m)"
| "run_plain (OpStore k v # ops) m = run_plain ops (m(k \<mapsto> v))"
| "run_plain (OpLoadAndDelete k # ops) m =
     (let (rs, m'') = run_plain ops (m(k := None)) in (m k # rs, m''))"
| "run_plain (OpDelete k # ops) m = run_plain ops (m(k := None))"

lemma run_sharded_refines_gen:
  "sm_inv m \<Longrightarrow>
   fst (run_sharded ops m) = fst (run_plain ops (sm_lookup m)) \<and>
   sm_lookup (snd (run_sharded ops m)) = snd (run_plain ops (sm_lookup m)) \<and>
   sm_inv (snd (run_sharded ops m))"
proof (induction ops m rule: run_sharded.induct)
  case (3 k ops m)
  show ?case
    using "3.IH" [OF refl prod.collapse] LoadAndDelete_eq [OF "3.prems", of k]
    by (simp add: case_prod_unfold Let_def fun_upd_def)
qed (simp_all add: sm_lookup_Store sm_lookup_Delete sm_inv_Store sm_inv_Delete)

text \<open>
  C26. From an empty map, any sequence of \<open>Store\<close>, \<open>LoadAndDelete\<close> and \<open>Delete\<close> gives the same
  results on the sharded map as on one plain map, and leaves the shards representing that map,
  with every key in its own shard.
\<close>

theorem sharded_map_refines_map:
  "fst (run_sharded ops NewShardedMap) = fst (run_plain ops Map.empty) \<and>
   sm_lookup (snd (run_sharded ops NewShardedMap)) = snd (run_plain ops Map.empty) \<and>
   sm_inv (snd (run_sharded ops NewShardedMap))"
  using run_sharded_refines_gen [of NewShardedMap ops] by simp

end
