(* ===== verification/Stream_Balancer.thy ===== *)
theory Stream_Balancer
  imports Go_Base
begin

text \<open>
  The round-robin balancer of \<open>transport/quic/balancer.go\<close>. The snapshot pointer is loaded and
  replaced atomically, so the state is the current list of streams and the 32-bit counter.
  \<open>GetStream\<close> is a load of the snapshot followed by an atomic increment of the counter; other
  goroutines may run between the two, so the second half takes the snapshot as an argument.
  The section on round robin is shared with the choice of a connection in \<open>client.go\<close>.
\<close>

section \<open>Round robin over a 32-bit counter\<close>

text \<open>\<open>idx := counter.Add(1) - 1; xs[idx % uint32(len(xs))]\<close>\<close>

definition rr_pick :: "u32 \<Rightarrow> 'a list \<Rightarrow> 'a outcome" where
  "rr_pick counter xs =
     (let idx = (counter + 1) - 1; n = word_of_nat (length xs) :: u32
      in if n = 0 then Panic DivideByZero
         else if unat (idx mod n) < length xs then Ok (xs ! unat (idx mod n))
         else Panic IndexOutOfRange)"

lemma rr_pick_eq:
  assumes "xs \<noteq> []" and "length xs < 2 ^ 32"
  shows "rr_pick c xs = Ok (xs ! (unat c mod length xs))"
proof -
  have n: "unat (word_of_nat (length xs) :: u32) = length xs"
    using assms(2) by (rule unat_u32_of_nat)
  then have "(word_of_nat (length xs) :: u32) \<noteq> 0"
    using assms(1) by (metis length_0_conv unat_0)
  then show ?thesis
    using assms(1) n by (simp add: rr_pick_def Let_def unat_mod)
qed

section \<open>Data and operations\<close>

record 'st balancer =
  streams :: "'st list"
  counter :: u32

definition NewBalancer :: "'st balancer" where
  "NewBalancer = \<lparr>streams = [], counter = 0\<rparr>"

text \<open>The second half of \<open>GetStream\<close>, on a snapshot that was loaded before.\<close>

definition GetStream_from :: "'st list \<Rightarrow> 'st balancer \<Rightarrow> 'st outcome \<times> 'st balancer" where
  "GetStream_from snapshot b =
     (if length snapshot = 0 then (Err StreamsListIsEmpty, b)
      else (rr_pick (counter b) snapshot, b\<lparr>counter := counter b + 1\<rparr>))"

definition Balancer_GetStream :: "'st balancer \<Rightarrow> 'st outcome \<times> 'st balancer" where
  "Balancer_GetStream b = GetStream_from (streams b) b"

text \<open>The new snapshot is a copy of the old one with the stream in its last place.\<close>

definition Balancer_AddStream :: "'st \<Rightarrow> 'st balancer \<Rightarrow> 'st balancer" where
  "Balancer_AddStream stream b = b\<lparr>streams := streams b @ [stream]\<rparr>"

text \<open>\<open>Reset\<close> returns the streams it closes, in order (a panic of \<open>Close\<close> is recovered from).\<close>

definition Balancer_Reset :: "'st balancer \<Rightarrow> 'st list \<times> 'st balancer" where
  "Balancer_Reset b = (streams b, b\<lparr>counter := 0, streams := []\<rparr>)"

text \<open>\<open>k\<close> calls of \<open>GetStream\<close> in a row.\<close>

fun get_streams :: "nat \<Rightarrow> 'st balancer \<Rightarrow> 'st outcome list \<times> 'st balancer" where
  "get_streams 0 b = ([], b)"
| "get_streams (Suc k) b =
     (let (r, b') = Balancer_GetStream b; (rs, b'') = get_streams k b' in (r # rs, b''))"

section \<open>Lemmas\<close>

lemma GetStream_from_Ok:
  assumes "xs \<noteq> []" and "length xs < 2 ^ 32"
  shows "GetStream_from xs b =
    (Ok (xs ! (unat (counter b) mod length xs)), b\<lparr>counter := counter b + 1\<rparr>)"
  using assms by (simp add: GetStream_from_def rr_pick_eq)

lemma get_streams_eq:
  assumes "streams b \<noteq> []" and "length (streams b) < 2 ^ 32"
  shows "fst (get_streams k b) =
    map (\<lambda>i. Ok (streams b ! (unat (counter b + word_of_nat i) mod length (streams b)))) [0..<k]"
  using assms
proof (induction k arbitrary: b)
  case 0
  then show ?case by simp
next
  case (Suc k)
  let ?b = "b\<lparr>counter := counter b + 1\<rparr>"
  have "fst (get_streams k ?b) =
    map (\<lambda>i. Ok (streams b ! (unat (counter b + word_of_nat (Suc i)) mod length (streams b)))) [0..<k]"
    using Suc.IH [of ?b] Suc.prems by (simp add: add.assoc)
  then show ?case
    using Suc.prems
    by (simp add: Balancer_GetStream_def GetStream_from_Ok case_prod_unfold Let_def
        map_upt_Suc del: upt_Suc)
qed

lemma get_streams_state:
  assumes "streams b \<noteq> []" and "length (streams b) < 2 ^ 32"
  shows "snd (get_streams k b) = b\<lparr>counter := counter b + word_of_nat k\<rparr>"
  using assms
  by (induction k arbitrary: b)
    (simp_all add: Balancer_GetStream_def GetStream_from_Ok case_prod_unfold Let_def add.assoc)

text \<open>In \<open>n\<close> numbers in a row every residue modulo \<open>n\<close> occurs once.\<close>

lemma residues_window:
  assumes "j < (n :: nat)"
  shows "length (filter (\<lambda>i. (c + i) mod n = j) [0..<n]) = 1"
proof (induction c)
  case 0
  have "filter (\<lambda>i. (0 + i) mod n = j) [0..<n] = filter (\<lambda>i. i = j) [0..<n]"
    by (intro filter_cong) auto
  moreover have "length (filter (\<lambda>i. i = j) [0..<n]) = card {i. i < n \<and> [0..<n] ! i = j}"
    by (simp add: length_filter_conv_card)
  moreover have "{i. i < n \<and> [0..<n] ! i = j} = {j}" using assms by auto
  ultimately show ?case by simp
next
  case (Suc c)
  obtain m where n: "n = Suc m" using assms by (cases n) auto
  let ?P = "\<lambda>i. (c + i) mod n = j"
  have "length (filter (\<lambda>i. (Suc c + i) mod n = j) [0..<n]) = length (filter ?P (map Suc [0..<n]))"
    by (simp add: filter_map comp_def)
  also have "map Suc [0..<n] = [1..<n] @ [n]"
    by (simp add: map_Suc_upt n)
  also have "length (filter ?P ([1..<n] @ [n])) = length (filter ?P (0 # [1..<n]))"
    by simp
  also have "0 # [1..<n] = [0..<n]"
    using n by (simp add: upt_conv_Cons)
  finally show ?case using Suc.IH by simp
qed

lemma residues_windows:
  assumes "j < (n :: nat)"
  shows "length (filter (\<lambda>i. (c + i) mod n = j) [0..<n * q]) = q"
proof (induction q)
  case 0
  then show ?case by simp
next
  case (Suc q)
  have "[0..<n * Suc q] = [0..<n * q] @ map (\<lambda>i. n * q + i) [0..<n]"
    using upt_add_eq_append [of 0 "n * q" n] by (simp add: map_add_upt add.commute)
  moreover have "length (filter (\<lambda>i. (c + i) mod n = j) (map (\<lambda>i. n * q + i) [0..<n])) = 1"
    using residues_window [OF assms, of c]
    by (simp add: filter_map comp_def add.left_commute [of c])
  ultimately show ?case using Suc.IH by simp
qed

lemma count_list_map: "count_list (map f xs) y = length (filter (\<lambda>x. f x = y) xs)"
  by (induction xs) auto

text \<open>
  The index a 32-bit counter picks is the index an unbounded counter would pick, while it does not
  wrap around, and for ever when the number of choices is a power of two.
\<close>

lemma rr_index_unbounded:
  assumes "n dvd 2 ^ 32 \<or> unat c + i < 2 ^ 32"
  shows "unat (c + word_of_nat i :: u32) mod n = (unat c + i) mod n"
proof -
  have "unat (c + word_of_nat i) = (unat c + i) mod 2 ^ 32"
    by (simp add: unat_word_ariths unsigned_of_nat take_bit_eq_mod mod_simps)
  then show ?thesis
    using assms by (auto simp: mod_mod_cancel)
qed

section \<open>Properties\<close>

text \<open>
  \<open>GetStream\<close> never indexes out of range, whatever happens between its two halves: on any
  snapshot of fewer than \<open>2 ^ 32\<close> streams it returns \<open>StreamsListIsEmpty\<close> exactly when the
  snapshot is empty, and otherwise a stream of the snapshot.
\<close>

theorem balancer_get_in_snapshot:
  assumes "length snapshot < 2 ^ 32"
  shows "(snapshot = [] \<longrightarrow> GetStream_from snapshot b = (Err StreamsListIsEmpty, b)) \<and>
    (snapshot \<noteq> [] \<longrightarrow>
      (\<exists>s \<in> set snapshot. GetStream_from snapshot b = (Ok s, b\<lparr>counter := counter b + 1\<rparr>)))"
  using GetStream_from_Ok [of snapshot b] assms by (auto simp: GetStream_from_def)

theorem balancer_get_in_snapshot_witness:
  "\<exists>s \<in> set ''abc''. GetStream_from ''abc'' \<lparr>streams = [], counter = 7\<rparr> =
     (Ok s, \<lparr>streams = [], counter = 8\<rparr>)"
  using balancer_get_in_snapshot [of "''abc''" "\<lparr>streams = [], counter = 7\<rparr>"] by simp

text \<open>
  C27. Round robin is fair: \<open>n * q\<close> calls of \<open>GetStream\<close> on a balancer with \<open>n\<close> distinct streams
  return every stream exactly \<open>q\<close> times, from any value of the 32-bit counter when \<open>n\<close> divides
  \<open>2 ^ 32\<close> (the client opens 32 streams), and for other \<open>n\<close> while the counter does not wrap.
\<close>

theorem balancer_fair:
  assumes "distinct (streams b)" and "s \<in> set (streams b)" and "n = length (streams b)"
    and "n < 2 ^ 32" and "n dvd 2 ^ 32 \<or> unat (counter b) + n * q \<le> 2 ^ 32"
  shows "count_list (fst (get_streams (n * q) b)) (Ok s) = q"
proof -
  obtain j where j: "j < n" "s = streams b ! j"
    using assms(2,3) by (auto simp: in_set_conv_nth)
  have ne: "streams b \<noteq> []" using assms(2) by auto
  have pick: "(streams b ! (unat (counter b + word_of_nat i) mod n) = s) =
      ((unat (counter b) + i) mod n = j)" if "i < n * q" for i
  proof -
    have "unat (counter b + word_of_nat i) mod n = (unat (counter b) + i) mod n"
      using assms(5) that by (intro rr_index_unbounded) auto
    then show ?thesis
      using j assms(1,3) ne by (simp add: nth_eq_iff_index_eq)
  qed
  have "count_list (fst (get_streams (n * q) b)) (Ok s) =
      length (filter (\<lambda>i. streams b ! (unat (counter b + word_of_nat i) mod n) = s) [0..<n * q])"
    using get_streams_eq [OF ne, of "n * q"] assms(3,4) by (simp add: count_list_map)
  also have "\<dots> = length (filter (\<lambda>i. (unat (counter b) + i) mod n = j) [0..<n * q])"
    using pick by (intro arg_cong [where f = length] filter_cong) auto
  also have "\<dots> = q" by (rule residues_windows [OF j(1)])
  finally show ?thesis .
qed

theorem balancer_fair_witness:
  "count_list (fst (get_streams (4 * 6) \<lparr>streams = ''abcd'', counter = 0xfffffffe\<rparr>)) (Ok (CHR ''c'')) = 6"
  using balancer_fair [of "\<lparr>streams = ''abcd'', counter = 0xfffffffe\<rparr>" "CHR ''c''" 4 6] by simp

text \<open>
  \<open>AddStream\<close> makes the stream available without losing any other, and \<open>Reset\<close> closes
  every stream once, in order, after which \<open>GetStream\<close> reports the empty list.
\<close>

theorem balancer_add_reset:
  "streams (Balancer_AddStream s b) = streams b @ [s] \<and>
   fst (Balancer_Reset b) = streams b \<and>
   Balancer_GetStream (snd (Balancer_Reset b)) = (Err StreamsListIsEmpty, NewBalancer)"
  by (simp add: Balancer_AddStream_def Balancer_Reset_def Balancer_GetStream_def GetStream_from_def
      NewBalancer_def)

end
