(* ===== verification/Write_Batcher.thy ===== *)
theory Write_Batcher
  imports Go_Base
begin

text \<open>
  The write batcher of \<open>transport/quic/client/batcher.go\<close>, one per stream. The stream's own
  \<open>Write\<close> belongs to the QUIC library and is the parameter \<open>wr\<close>: it takes the state of the
  stream and the data and returns the new state and the error, if any. \<open>now\<close> is the clock.
\<close>

section \<open>Data and operations\<close>

text \<open>150 microseconds, in nanoseconds.\<close>

definition DefaultBatchWindow :: nat where
  "DefaultBatchWindow = 150000"

definition BatchingEnabled :: bool where
  "BatchingEnabled = True"

record batcher =
  bt_buf :: bytes
  bt_lastFlush :: nat
  bt_window :: nat

type_synonym 's write_fun = "'s \<Rightarrow> bytes \<Rightarrow> 's \<times> go_error option"

definition NewBatcher :: "nat \<Rightarrow> batcher" where
  "NewBatcher now = \<lparr>bt_buf = [], bt_lastFlush = now, bt_window = DefaultBatchWindow\<rparr>"

definition Batcher_Write ::
    "'s write_fun \<Rightarrow> nat \<Rightarrow> bytes \<Rightarrow> batcher \<times> 's \<Rightarrow> go_error option \<times> batcher \<times> 's" where
  "Batcher_Write wr now data = (\<lambda>(b, s).
     if \<not> BatchingEnabled then
       (let (s', err) = wr s data in (err, b, s'))
     else if length (bt_buf b) = 0 then
       (let (s', err) = wr s data in (err, b\<lparr>bt_lastFlush := now\<rparr>, s'))
     else (None, b\<lparr>bt_buf := bt_buf b @ data\<rparr>, s))"

definition Batcher_Flush ::
    "'s write_fun \<Rightarrow> nat \<Rightarrow> batcher \<times> 's \<Rightarrow> go_error option \<times> batcher \<times> 's" where
  "Batcher_Flush wr now = (\<lambda>(b, s).
     if \<not> BatchingEnabled then (None, b, s)
     else if length (bt_buf b) = 0 then (None, b, s)
     else
       (let (s', err) = wr s (bt_buf b)
        in (err, b\<lparr>bt_buf := [], bt_lastFlush := now\<rparr>, s')))"

definition Batcher_Flushed :: "batcher \<Rightarrow> bool" where
  "Batcher_Flushed b \<longleftrightarrow> length (bt_buf b) = 0"

section \<open>Runs\<close>

text \<open>Calls on one batcher, each with the time it happens.\<close>

datatype batcher_op = BWrite nat bytes | BFlush nat

fun run_batcher :: "'s write_fun \<Rightarrow> batcher_op list \<Rightarrow> batcher \<times> 's \<Rightarrow>
    go_error option list \<times> batcher \<times> 's" where
  "run_batcher wr [] bs = ([], bs)"
| "run_batcher wr (BWrite now data # ops) bs =
     (let (e, bs') = Batcher_Write wr now data bs; (es, bs'') = run_batcher wr ops bs'
      in (e # es, bs''))"
| "run_batcher wr (BFlush now # ops) bs =
     (let (e, bs') = Batcher_Flush wr now bs; (es, bs'') = run_batcher wr ops bs'
      in (e # es, bs''))"

text \<open>The same calls made on the stream itself, a flush doing nothing.\<close>

fun run_direct :: "'s write_fun \<Rightarrow> batcher_op list \<Rightarrow> 's \<Rightarrow> go_error option list \<times> 's" where
  "run_direct wr [] s = ([], s)"
| "run_direct wr (BWrite now data # ops) s =
     (let (s', e) = wr s data; (es, s'') = run_direct wr ops s' in (e # es, s''))"
| "run_direct wr (BFlush now # ops) s =
     (let (es, s'') = run_direct wr ops s in (None # es, s''))"

lemma Batcher_Write_empty:
  "bt_buf b = [] \<Longrightarrow>
   Batcher_Write wr now data (b, s) = (snd (wr s data), b\<lparr>bt_lastFlush := now\<rparr>, fst (wr s data))"
  by (simp add: Batcher_Write_def BatchingEnabled_def case_prod_unfold Let_def)

lemma Batcher_Flush_empty: "bt_buf b = [] \<Longrightarrow> Batcher_Flush wr now (b, s) = (None, b, s)"
  by (simp add: Batcher_Flush_def)

lemma run_batcher_direct:
  "bt_buf b = [] \<Longrightarrow>
   fst (run_batcher wr ops (b, s)) = fst (run_direct wr ops s) \<and>
   snd (snd (run_batcher wr ops (b, s))) = snd (run_direct wr ops s) \<and>
   bt_buf (fst (snd (run_batcher wr ops (b, s)))) = []"
proof (induction ops arbitrary: b s)
  case Nil
  then show ?case by simp
next
  case (Cons op ops)
  show ?case
  proof (cases op)
    case (BWrite now data)
    then show ?thesis
      using Cons.IH [of "b\<lparr>bt_lastFlush := now\<rparr>" "fst (wr s data)"] Cons.prems
      by (simp add: Batcher_Write_empty case_prod_unfold Let_def)
  next
    case (BFlush now)
    then show ?thesis
      using Cons.IH [of b s] Cons.prems
      by (simp add: Batcher_Flush_empty case_prod_unfold Let_def)
  qed
qed

section \<open>Properties\<close>

text \<open>
  C31. A new batcher is transparent: any sequence of \<open>Write\<close> and \<open>Flush\<close> calls hands every
  frame to the stream at once, in order and unchanged, returns the stream's own errors, and keeps
  the batch buffer empty. (The branch that appends to the buffer is never taken: nothing ever makes
  the buffer non-empty, so no batching takes place.)
\<close>

theorem batcher_transparent:
  "fst (run_batcher wr ops (NewBatcher now, s)) = fst (run_direct wr ops s) \<and>
   snd (snd (run_batcher wr ops (NewBatcher now, s))) = snd (run_direct wr ops s) \<and>
   Batcher_Flushed (fst (snd (run_batcher wr ops (NewBatcher now, s))))"
  using run_batcher_direct [of "NewBatcher now" wr ops s]
  by (simp add: NewBatcher_def Batcher_Flushed_def)

end
