(* ===== verification/Stream_Multiplexer.thy ===== *)
theory Stream_Multiplexer
  imports Frame_Reader Sharded_Map Stream_Balancer Write_Batcher
begin

text \<open>
  The client's side of a connection, \<open>transport/quic/client/multiplexer.go\<close>: opening the streams,
  the batcher of a stream, and the loop \<open>readCycle\<close> that reads the frames of one stream and hands
  each response to the channel that waits for its request id.

  Channels are numbers; \<open>c_chans\<close> holds what is buffered in the channels of responses (their
  capacity is 1) and \<open>c_reqchans\<close> in channels of requests. The map of waiting calls holds values
  of any type in the code; \<open>chan_ref\<close> has the two types that the loop's type assertions name.
\<close>

section \<open>State\<close>

datatype chan_ref = RespChan nat | ReqChan nat

record 'st mux =
  mx_balancer :: "'st balancer"
  mx_batchers :: "'st \<rightharpoonup> batcher"

text \<open>
  What the client's goroutines share: the package's pools, the map of waiting calls, the channels,
  and the frames written to each stream.
\<close>

record 'st cst =
  c_requests :: "request list"
  c_responses :: "response list"
  c_buffers :: "buffer list"
  c_map :: "chan_ref sharded_map"
  c_chans :: "nat \<rightharpoonup> response"
  c_reqchans :: "nat \<rightharpoonup> request"
  c_out :: "'st \<Rightarrow> bytes list"
  c_tick :: nat

text \<open>
  The environment: the libraries, the choices of the pools, the clock, the errors that writing to a
  stream and setting its deadline return, and the random numbers.
\<close>

record 'st menv =
  m_ph :: protohelpers
  m_zstd :: zstd
  m_pick :: "nat \<Rightarrow> nat"
  m_now :: "nat \<Rightarrow> nat"
  m_write :: "'st \<Rightarrow> bytes list \<Rightarrow> bytes \<Rightarrow> go_error option"
  m_deadline :: "'st \<Rightarrow> nat \<Rightarrow> go_error option"
  m_rand :: "nat \<Rightarrow> u64"

definition stream_write :: "'st menv \<Rightarrow> 'st \<Rightarrow> bytes list write_fun" where
  "stream_write E s out data =
     (case m_write E s out data of None \<Rightarrow> (out @ [data], None) | Some err \<Rightarrow> (out, Some err))"

section \<open>The multiplexer\<close>

definition NewMultiplexer :: "'st balancer \<Rightarrow> 'st mux" where
  "NewMultiplexer quicbalancer = \<lparr>mx_balancer = quicbalancer, mx_batchers = Map.empty\<rparr>"

text \<open>
  \<open>start\<close>, over the results of the calls of \<open>OpenStream\<close>, each with its time: it returns
  whether the loop has ended, the streams that got a reading goroutine, and the multiplexer. The
  counter has 16 bits: after an error at \<open>i = 0\<close> it wraps to 65535 and back.
\<close>

fun mux_start ::
    "u16 \<Rightarrow> u16 \<Rightarrow> (nat \<times> (go_error + 'st)) list \<Rightarrow> 'st mux \<Rightarrow> bool \<times> 'st list \<times> 'st mux" where
  "mux_start c i [] m = (\<not> i < c, [], m)"
| "mux_start c i ((now, r) # opens) m =
     (if \<not> i < c then (True, [], m)
      else
        case r of
          Inl err \<Rightarrow> (let i = i - 1 in mux_start c (i + 1) opens m)
        | Inr s \<Rightarrow>
            let m = m\<lparr>mx_balancer := Balancer_AddStream s (mx_balancer m),
                      mx_batchers := (mx_batchers m)(s \<mapsto> NewBatcher now)\<rparr>;
                (fin, ss, m) = mux_start c (i + 1) opens m
            in (fin, s # ss, m))"

definition GetBatcher :: "nat \<Rightarrow> 'st \<Rightarrow> 'st mux \<Rightarrow> batcher \<times> 'st mux" where
  "GetBatcher now s m =
     (case mx_batchers m s of
        None \<Rightarrow> (let b = NewBatcher now in (b, m\<lparr>mx_batchers := (mx_batchers m)(s \<mapsto> b)\<rparr>))
      | Some b \<Rightarrow> (b, m))"

definition Multiplexer_GetStream :: "'st mux \<Rightarrow> 'st outcome \<times> 'st mux" where
  "Multiplexer_GetStream m =
     (let (r, b) = Balancer_GetStream (mx_balancer m)
      in (r, m\<lparr>mx_balancer := b\<rparr>))"

text \<open>It returns the streams that are closed.\<close>

definition Multiplexer_Close :: "'st mux \<Rightarrow> 'st list \<times> 'st mux" where
  "Multiplexer_Close m =
     (let (ss, b) = Balancer_Reset (mx_balancer m) in (ss, m\<lparr>mx_balancer := b\<rparr>))"

section \<open>The read loop\<close>

definition c_GetRequest :: "'st menv \<Rightarrow> 'st cst \<Rightarrow> request \<times> 'st cst" where
  "c_GetRequest E st =
     (let (req, pool) = GetRequest (m_pick E (c_tick st)) (c_requests st)
      in (req, st\<lparr>c_requests := pool, c_tick := c_tick st + 1\<rparr>))"

definition c_GetResponse :: "'st menv \<Rightarrow> 'st cst \<Rightarrow> response \<times> 'st cst" where
  "c_GetResponse E st =
     (let (resp, pool) = GetResponse (m_pick E (c_tick st)) (c_responses st)
      in (resp, st\<lparr>c_responses := pool, c_tick := c_tick st + 1\<rparr>))"

definition c_ReleaseRequest :: "request \<Rightarrow> 'st cst \<Rightarrow> 'st cst" where
  "c_ReleaseRequest req st = st\<lparr>c_requests := ReleaseRequest req (c_requests st)\<rparr>"

definition c_ReleaseResponse :: "response \<Rightarrow> 'st cst \<Rightarrow> 'st cst" where
  "c_ReleaseResponse resp st = st\<lparr>c_responses := ReleaseResponse resp (c_responses st)\<rparr>"

definition c_LoadAndDelete :: "u64 \<Rightarrow> 'st cst \<Rightarrow> chan_ref option \<times> 'st cst" where
  "c_LoadAndDelete key st =
     (let (v, sm) = ShardedMap_LoadAndDelete key (c_map st) in (v, st\<lparr>c_map := sm\<rparr>))"

text \<open>The cases of the switch on the flag; \<open>None\<close> is \<open>continue\<close>.\<close>

definition dispatch_response ::
    "'st menv \<Rightarrow> byte \<Rightarrow> bytes \<Rightarrow> 'st cst \<Rightarrow> stream_end option \<times> 'st cst" where
  "dispatch_response E flag reqBuff st =
     (case Client_maybeDecompress (m_zstd E) reqBuff flag of
        Inl err \<Rightarrow> (None, st)
      | Inr data \<Rightarrow>
          let (resp, st) = c_GetResponse E st
          in on_result (Response_UnmarshalVT (m_ph E) resp data) st
               (\<lambda>err. (None, c_ReleaseResponse resp st))
               (\<lambda>resp.
                  let (v, st) = c_LoadAndDelete (rs_RequestId resp) st
                  in case v of
                       None \<Rightarrow> (None, c_ReleaseResponse resp st)
                     | Some (ReqChan ch) \<Rightarrow> (Some (Crashed TypeAssertion), st)
                     | Some (RespChan ch) \<Rightarrow>
                         (case c_chans st ch of
                            None \<Rightarrow> (None, st\<lparr>c_chans := (c_chans st)(ch \<mapsto> resp)\<rparr>)
                          | Some _ \<Rightarrow> (None, c_ReleaseResponse resp st))))"

definition dispatch_request ::
    "'st menv \<Rightarrow> byte \<Rightarrow> bytes \<Rightarrow> 'st cst \<Rightarrow> stream_end option \<times> 'st cst" where
  "dispatch_request E flag reqBuff st =
     (case Client_maybeDecompress (m_zstd E) reqBuff flag of
        Inl err \<Rightarrow> (None, st)
      | Inr data \<Rightarrow>
          let (req, st) = c_GetRequest E st
          in on_result (Request_UnmarshalVT (m_ph E) req data) st
               (\<lambda>err. (None, c_ReleaseRequest req st))
               (\<lambda>req.
                  let (v, st) = c_LoadAndDelete (rq_RequestId req) st
                  in case v of
                       None \<Rightarrow> (None, c_ReleaseRequest req st)
                     | Some (RespChan ch) \<Rightarrow> (Some (Crashed TypeAssertion), st)
                     | Some (ReqChan ch) \<Rightarrow>
                         (case c_reqchans st ch of
                            None \<Rightarrow> (None, st\<lparr>c_reqchans := (c_reqchans st)(ch \<mapsto> req)\<rparr>)
                          | Some _ \<Rightarrow> (None, c_ReleaseRequest req st))))"

definition dispatch_event ::
    "'st menv \<Rightarrow> byte \<Rightarrow> bytes \<Rightarrow> 'st cst \<Rightarrow> stream_end option \<times> 'st cst" where
  "dispatch_event E flag reqBuff st =
     (case Client_maybeDecompress (m_zstd E) reqBuff flag of
        Inl err \<Rightarrow> (None, st)
      | Inr data \<Rightarrow>
          let (req, st) = c_GetRequest E st
          in on_result (Request_UnmarshalVT (m_ph E) req data) st
               (\<lambda>err. (None, c_ReleaseRequest req st))
               (\<lambda>req. (None, c_ReleaseRequest req st)))"

definition dispatch_frame ::
    "'st menv \<Rightarrow> byte \<Rightarrow> bytes \<Rightarrow> 'st cst \<Rightarrow> stream_end option \<times> 'st cst" where
  "dispatch_frame E flag reqBuff st =
     (if flag = RESPONSE_FLAG \<or> flag = RESPONSE_ZSTD_FLAG then dispatch_response E flag reqBuff st
      else if flag = REQUEST_FLAG \<or> flag = REQUEST_ZSTD_FLAG then dispatch_request E flag reqBuff st
      else if flag = EVENT_FLAG \<or> flag = EVENT_ZSTD_FLAG then dispatch_event E flag reqBuff st
      else (None, st))"

text \<open>\<open>m.GetBatcher(s).Flush()\<close>\<close>

definition mux_flush :: "'st menv \<Rightarrow> 'st \<Rightarrow> 'st mux \<times> 'st cst \<Rightarrow> go_error option \<times> 'st mux \<times> 'st cst" where
  "mux_flush E s = (\<lambda>(m, st).
     let now = m_now E (c_tick st);
         (b, m) = GetBatcher now s m;
         (err, b, out) = Batcher_Flush (stream_write E s) now (b, c_out st s)
     in (err, m\<lparr>mx_batchers := (mx_batchers m)(s \<mapsto> b)\<rparr>,
         st\<lparr>c_out := (c_out st)(s := out), c_tick := c_tick st + 1\<rparr>))"

function readCycle_loop ::
    "'st menv \<Rightarrow> 'st \<Rightarrow> instream \<Rightarrow> 'st mux \<times> 'st cst \<Rightarrow> stream_end \<times> 'st mux \<times> 'st cst" where
  "readCycle_loop E s stream mst =
     (case mux_flush E s mst of
        (Some err, mst) \<Rightarrow> (FlushFailed err, mst)
      | (None, m, st) \<Rightarrow>
          (case read_frame True stream of
             (Inl x, stream') \<Rightarrow> (ReadEnd x, m, st)
           | (Inr (flag, reqBuff), stream') \<Rightarrow>
               (case dispatch_frame E flag reqBuff st of
                  (Some x, st) \<Rightarrow> (x, m, st)
                | (None, st) \<Rightarrow> readCycle_loop E s stream' (m, st))))"
  by pat_completeness auto
termination
  by (relation "measure (\<lambda>(E, s, stream, mst). length (in_bytes stream))")
    (auto dest: read_frame_shorter [OF sym])

declare readCycle_loop.simps [simp del]

text \<open>The deferred \<open>m.batchers.Delete(s)\<close> runs when the loop returns.\<close>

definition readCycle ::
    "'st menv \<Rightarrow> 'st \<Rightarrow> instream \<Rightarrow> 'st mux \<times> 'st cst \<Rightarrow> stream_end \<times> 'st mux \<times> 'st cst" where
  "readCycle E s stream mst =
     (let (x, m, st) = readCycle_loop E s stream mst
      in (x, m\<lparr>mx_batchers := (mx_batchers m)(s := None)\<rparr>, st))"

section \<open>Invariants and abstraction\<close>

text \<open>
  Clean pools, every key in its shard, and only channels of responses in the map (all that the
  client stores there).
\<close>

definition c_ok :: "'st cst \<Rightarrow> bool" where
  "c_ok st \<longleftrightarrow>
     rq_pool.pool_ok (c_requests st) \<and> rs_pool.pool_ok (c_responses st) \<and>
     bf_pool.pool_ok (c_buffers st) \<and> sm_inv (c_map st) \<and>
     (\<forall>key ch. sm_lookup (c_map st) key \<noteq> Some (ReqChan ch))"

text \<open>No batcher holds data back.\<close>

definition mux_ok :: "'st mux \<Rightarrow> bool" where
  "mux_ok m \<longleftrightarrow> (\<forall>s b. mx_batchers m s = Some b \<longrightarrow> bt_buf b = [])"

text \<open>
  The waiting calls and the buffered responses, and what the arrival of a response does to them:
  the call with its id is no longer waiting for one, and its channel gets the response unless one is
  there already.
\<close>

definition c_view :: "'st cst \<Rightarrow> (u64 \<rightharpoonup> chan_ref) \<times> (nat \<rightharpoonup> response)" where
  "c_view st = (sm_lookup (c_map st), c_chans st)"

definition deliver ::
    "response \<Rightarrow> (u64 \<rightharpoonup> chan_ref) \<times> (nat \<rightharpoonup> response) \<Rightarrow> (u64 \<rightharpoonup> chan_ref) \<times> (nat \<rightharpoonup> response)" where
  "deliver r = (\<lambda>(waiting, buffered).
     case waiting (rs_RequestId r) of
       Some (RespChan ch) \<Rightarrow>
         (waiting(rs_RequestId r := None),
          if buffered ch = None then buffered(ch \<mapsto> r) else buffered)
     | _ \<Rightarrow> (waiting, buffered))"

text \<open>A frame that carries a response, and one that carries a request.\<close>

definition response_payload :: "'st menv \<Rightarrow> byte \<Rightarrow> bytes \<Rightarrow> response \<Rightarrow> bool" where
  "response_payload E f p r \<longleftrightarrow>
     (f = RESPONSE_FLAG \<or> f = RESPONSE_ZSTD_FLAG) \<and>
     (\<exists>d. Client_maybeDecompress (m_zstd E) p f = Inr d \<and>
        Response_UnmarshalVT (m_ph E) Response_zero d = Ok r)"

definition request_payload :: "'st menv \<Rightarrow> byte \<Rightarrow> bytes \<Rightarrow> request \<Rightarrow> bool" where
  "request_payload E f p q \<longleftrightarrow>
     (f = REQUEST_FLAG \<or> f = REQUEST_ZSTD_FLAG) \<and>
     (\<exists>d. Client_maybeDecompress (m_zstd E) p f = Inr d \<and>
        Request_UnmarshalVT (m_ph E) Request_zero d = Ok q)"

section \<open>Lemmas\<close>

lemma c_ok_frees [simp]:
  "c_ok (st\<lparr>c_tick := n\<rparr>) = c_ok st"
  "c_ok (st\<lparr>c_out := out\<rparr>) = c_ok st"
  "c_ok (st\<lparr>c_chans := ch\<rparr>) = c_ok st"
  by (simp_all add: c_ok_def)

lemma c_GetResponse_ok:
  assumes "c_ok st"
  shows "fst (c_GetResponse E st) = Response_zero" and "c_ok (snd (c_GetResponse E st))"
  using assms GetResponse_ok [of "c_responses st"]
  by (simp_all add: c_GetResponse_def case_prod_unfold Let_def c_ok_def)

lemma c_GetRequest_ok:
  assumes "c_ok st"
  shows "fst (c_GetRequest E st) = Request_zero" and "c_ok (snd (c_GetRequest E st))"
  using assms GetRequest_ok [of "c_requests st"]
  by (simp_all add: c_GetRequest_def case_prod_unfold Let_def c_ok_def)

lemma c_Release_ok:
  assumes "c_ok st"
  shows "c_ok (c_ReleaseRequest req st)" and "c_ok (c_ReleaseResponse resp st)"
  using assms
  by (simp_all add: c_ReleaseRequest_def c_ReleaseResponse_def c_ok_def ReleaseRequest_ok ReleaseResponse_ok)

lemma c_LoadAndDelete_ok:
  assumes "c_ok st"
  shows "fst (c_LoadAndDelete key st) = sm_lookup (c_map st) key"
    and "c_ok (snd (c_LoadAndDelete key st))"
    and "sm_lookup (c_map (snd (c_LoadAndDelete key st))) = (sm_lookup (c_map st))(key := None)"
  using assms LoadAndDelete_eq [of "c_map st" key]
  by (auto simp: c_LoadAndDelete_def case_prod_unfold Let_def c_ok_def)

text \<open>What the pool operations leave alone.\<close>

lemma c_frame [simp]:
  "c_map (snd (c_GetResponse E st)) = c_map st" "c_chans (snd (c_GetResponse E st)) = c_chans st"
  "c_out (snd (c_GetResponse E st)) = c_out st"
  "c_map (snd (c_GetRequest E st)) = c_map st" "c_chans (snd (c_GetRequest E st)) = c_chans st"
  "c_out (snd (c_GetRequest E st)) = c_out st"
  "c_map (c_ReleaseRequest req st) = c_map st" "c_chans (c_ReleaseRequest req st) = c_chans st"
  "c_out (c_ReleaseRequest req st) = c_out st"
  "c_map (c_ReleaseResponse resp st) = c_map st" "c_chans (c_ReleaseResponse resp st) = c_chans st"
  "c_out (c_ReleaseResponse resp st) = c_out st"
  "c_chans (snd (c_LoadAndDelete key st)) = c_chans st" "c_out (snd (c_LoadAndDelete key st)) = c_out st"
  by (simp_all add: c_GetResponse_def c_GetRequest_def c_ReleaseRequest_def c_ReleaseResponse_def
      c_LoadAndDelete_def case_prod_unfold Let_def)

lemmas c_simps = c_GetResponse_ok c_GetRequest_ok c_Release_ok c_LoadAndDelete_ok

lemma dispatch_response_delivers:
  assumes st: "c_ok st" and d: "Client_maybeDecompress (m_zstd E) p f = Inr d"
    and u: "Response_UnmarshalVT (m_ph E) Response_zero d = Ok r"
  shows "\<exists>st'. dispatch_response E f p st = (None, st') \<and> c_ok st' \<and> c_out st' = c_out st \<and>
    c_view st' = deliver r (c_view st)"
proof -
  let ?v = "sm_lookup (c_map st) (rs_RequestId r)"
  have noreq: "?v \<noteq> Some (ReqChan ch)" for ch using st by (simp add: c_ok_def)
  consider "?v = None" | ch where "?v = Some (RespChan ch)"
    by (cases ?v) (metis chan_ref.exhaust noreq option.exhaust)+
  then show ?thesis
  proof cases
    case 1
    then show ?thesis
      using st
      by (auto simp: dispatch_response_def d u case_prod_unfold Let_def c_simps c_view_def deliver_def fun_upd_idem)
  next
    case 2
    then show ?thesis
      using st
      by (cases "c_chans st ch")
        (simp_all add: dispatch_response_def d u case_prod_unfold Let_def c_simps c_view_def deliver_def)
  qed
qed

lemma dispatch_request_effect:
  assumes st: "c_ok st" and d: "Client_maybeDecompress (m_zstd E) p f = Inr d"
    and u: "Request_UnmarshalVT (m_ph E) Request_zero d = Ok q"
  shows "\<exists>st'. c_ok st' \<and> c_out st' = c_out st \<and>
    (if sm_lookup (c_map st) (rq_RequestId q) = None
     then dispatch_request E f p st = (None, st') \<and> c_view st' = c_view st
     else dispatch_request E f p st = (Some (Crashed TypeAssertion), st'))"
proof -
  let ?v = "sm_lookup (c_map st) (rq_RequestId q)"
  have noreq: "?v \<noteq> Some (ReqChan ch)" for ch using st by (simp add: c_ok_def)
  consider "?v = None" | ch where "?v = Some (RespChan ch)"
    by (cases ?v) (metis chan_ref.exhaust noreq option.exhaust)+
  then show ?thesis
    using st
    by cases
      (auto simp: dispatch_request_def d u case_prod_unfold Let_def c_simps c_view_def fun_upd_idem)
qed

text \<open>
  Every frame has one of three effects: none on the waiting calls, the delivery of the response it
  carries, or the crash of the client.
\<close>

lemma dispatch_bad:
  assumes "c_ok st"
    and "(\<exists>e. Client_maybeDecompress (m_zstd E) p f = Inl e) \<or>
      (\<exists>d e. Client_maybeDecompress (m_zstd E) p f = Inr d \<and> Request_UnmarshalVT (m_ph E) Request_zero d = Err e)"
  shows "\<exists>st'. dispatch_request E f p st = (None, st') \<and> c_ok st' \<and> c_out st' = c_out st \<and> c_view st' = c_view st"
    and "\<exists>st'. dispatch_event E f p st = (None, st') \<and> c_ok st' \<and> c_out st' = c_out st \<and> c_view st' = c_view st"
  using assms
  by (auto simp: dispatch_request_def dispatch_event_def case_prod_unfold Let_def c_simps c_view_def)

lemma dispatch_response_bad:
  assumes "c_ok st"
    and "(\<exists>e. Client_maybeDecompress (m_zstd E) p f = Inl e) \<or>
      (\<exists>d e. Client_maybeDecompress (m_zstd E) p f = Inr d \<and> Response_UnmarshalVT (m_ph E) Response_zero d = Err e)"
  shows "\<exists>st'. dispatch_response E f p st = (None, st') \<and> c_ok st' \<and> c_out st' = c_out st \<and> c_view st' = c_view st"
  using assms
  by (auto simp: dispatch_response_def case_prod_unfold Let_def c_simps c_view_def)

lemma dispatch_event_ok:
  assumes "c_ok st" and "Client_maybeDecompress (m_zstd E) p f = Inr d"
    and "Request_UnmarshalVT (m_ph E) Request_zero d = Ok q"
  shows "\<exists>st'. dispatch_event E f p st = (None, st') \<and> c_ok st' \<and> c_out st' = c_out st \<and> c_view st' = c_view st"
  using assms
  by (auto simp: dispatch_event_def case_prod_unfold Let_def c_simps c_view_def)

lemma dispatch_frame_cases:
  assumes st: "c_ok st"
    and ret: "\<And>d. Client_maybeDecompress (m_zstd E) p f = Inr d \<Longrightarrow>
      returns (Request_UnmarshalVT (m_ph E) Request_zero d) \<and>
      returns (Response_UnmarshalVT (m_ph E) Response_zero d)"
  obtains (ignored) st' where "dispatch_frame E f p st = (None, st')" "c_ok st'" "c_out st' = c_out st"
      "c_view st' = c_view st"
  | (response) st' r where "dispatch_frame E f p st = (None, st')" "c_ok st'" "c_out st' = c_out st"
      "response_payload E f p r" "c_view st' = deliver r (c_view st)"
  | (crash) st' q where "dispatch_frame E f p st = (Some (Crashed TypeAssertion), st')" "c_ok st'"
      "c_out st' = c_out st"
      "request_payload E f p q" "sm_lookup (c_map st) (rq_RequestId q) \<noteq> None"
proof -
  let ?bad = "\<lambda>P. (\<exists>e. Client_maybeDecompress (m_zstd E) p f = Inl e) \<or>
      (\<exists>d e. Client_maybeDecompress (m_zstd E) p f = Inr d \<and> P d = Err e)"
  have rs: "?bad (Response_UnmarshalVT (m_ph E) Response_zero) \<or>
      (\<exists>d r. Client_maybeDecompress (m_zstd E) p f = Inr d \<and> Response_UnmarshalVT (m_ph E) Response_zero d = Ok r)"
    using ret by (cases "Client_maybeDecompress (m_zstd E) p f") (auto simp: returns_def split: outcome.splits)
  have rq: "?bad (Request_UnmarshalVT (m_ph E) Request_zero) \<or>
      (\<exists>d q. Client_maybeDecompress (m_zstd E) p f = Inr d \<and> Request_UnmarshalVT (m_ph E) Request_zero d = Ok q)"
    using ret by (cases "Client_maybeDecompress (m_zstd E) p f") (auto simp: returns_def split: outcome.splits)
  consider (rs) "f = RESPONSE_FLAG \<or> f = RESPONSE_ZSTD_FLAG"
    | (rq) "f = REQUEST_FLAG \<or> f = REQUEST_ZSTD_FLAG" | (ev) "f = EVENT_FLAG \<or> f = EVENT_ZSTD_FLAG"
    | (other) "f \<notin> {RESPONSE_FLAG, RESPONSE_ZSTD_FLAG, REQUEST_FLAG, REQUEST_ZSTD_FLAG, EVENT_FLAG, EVENT_ZSTD_FLAG}"
    by blast
  then show thesis
  proof cases
    case f: rs
    then have df: "dispatch_frame E f p st = dispatch_response E f p st" by (simp add: dispatch_frame_def)
    from rs show thesis
    proof
      assume "?bad (Response_UnmarshalVT (m_ph E) Response_zero)"
      from dispatch_response_bad [OF st this] df ignored show thesis by metis
    next
      assume "\<exists>d r. Client_maybeDecompress (m_zstd E) p f = Inr d \<and>
        Response_UnmarshalVT (m_ph E) Response_zero d = Ok r"
      then obtain d r where dr: "Client_maybeDecompress (m_zstd E) p f = Inr d"
        "Response_UnmarshalVT (m_ph E) Response_zero d = Ok r" by blast
      with f have "response_payload E f p r" by (auto simp: response_payload_def)
      with dispatch_response_delivers [OF st dr] df response show thesis by metis
    qed
  next
    case f: rq
    then have df: "dispatch_frame E f p st = dispatch_request E f p st"
      by (auto simp: dispatch_frame_def flag_defs)
    from rq show thesis
    proof
      assume "?bad (Request_UnmarshalVT (m_ph E) Request_zero)"
      from dispatch_bad(1) [OF st this] df ignored show thesis by metis
    next
      assume "\<exists>d q. Client_maybeDecompress (m_zstd E) p f = Inr d \<and>
        Request_UnmarshalVT (m_ph E) Request_zero d = Ok q"
      then obtain d q where dq: "Client_maybeDecompress (m_zstd E) p f = Inr d"
        "Request_UnmarshalVT (m_ph E) Request_zero d = Ok q" by blast
      with f have "request_payload E f p q" by (auto simp: request_payload_def)
      with dispatch_request_effect [OF st dq] df ignored crash show thesis by metis
    qed
  next
    case ev
    then have df: "dispatch_frame E f p st = dispatch_event E f p st"
      by (auto simp: dispatch_frame_def flag_defs)
    from rq show thesis
    proof
      assume "?bad (Request_UnmarshalVT (m_ph E) Request_zero)"
      from dispatch_bad(2) [OF st this] df ignored show thesis by metis
    next
      assume "\<exists>d q. Client_maybeDecompress (m_zstd E) p f = Inr d \<and>
        Request_UnmarshalVT (m_ph E) Request_zero d = Ok q"
      with dispatch_event_ok [OF st, of E p f] df ignored show thesis by metis
    qed
  next
    case other
    with st ignored show thesis by (simp add: dispatch_frame_def)
  qed
qed

subsection \<open>The loop\<close>

lemma GetBatcher_ok:
  assumes "mux_ok m"
  shows "bt_buf (fst (GetBatcher now s m)) = []" and "mux_ok (snd (GetBatcher now s m))"
    and "mx_balancer (snd (GetBatcher now s m)) = mx_balancer m"
  using assms by (auto simp: GetBatcher_def NewBatcher_def mux_ok_def Let_def split: option.splits)

lemma mux_flush_ok:
  assumes "mux_ok m"
  shows "\<exists>m'. mux_flush E s (m, st) = (None, m', st\<lparr>c_tick := c_tick st + 1\<rparr>) \<and> mux_ok m' \<and>
    mx_balancer m' = mx_balancer m"
proof (cases "mx_batchers m s")
  case None
  with assms show ?thesis
    by (auto simp: mux_flush_def GetBatcher_def NewBatcher_def Batcher_Flush_def Let_def mux_ok_def)
next
  case (Some b)
  with assms have "bt_buf b = []" by (auto simp: mux_ok_def)
  with Some assms show ?thesis
    by (auto simp: mux_flush_def GetBatcher_def Batcher_Flush_def Let_def mux_ok_def)
qed

lemma loop_frame:
  assumes "mux_ok m" and "c_ok st" and "read_frame True stream = (Inr (f, p), stream')"
  obtains m' where "mux_ok m'" and "mx_balancer m' = mx_balancer m"
    and "\<And>x st'. dispatch_frame E f p (st\<lparr>c_tick := c_tick st + 1\<rparr>) = (x, st') \<Longrightarrow>
      readCycle_loop E s stream (m, st) =
        (case x of None \<Rightarrow> readCycle_loop E s stream' (m', st') | Some z \<Rightarrow> (z, m', st'))"
proof -
  obtain m' where "mux_flush E s (m, st) = (None, m', st\<lparr>c_tick := c_tick st + 1\<rparr>)" "mux_ok m'"
    "mx_balancer m' = mx_balancer m" using mux_flush_ok [OF assms(1)] by blast
  with that assms(3) show thesis
    by (auto simp: readCycle_loop.simps [of E s stream] split: option.splits)
qed

locale client_stack = wire_stack "m_ph E" "m_zstd E" for E :: "'st menv"

context client_stack
begin

lemma response_frame:
  assumes "response_ok r"
  obtains f p d where
    "\<And>rest e. read_frame True \<lparr>in_bytes = response_wire (m_zstd E) r @ rest, in_err = e\<rparr> =
      (Inr (f, p), \<lparr>in_bytes = rest, in_err = e\<rparr>)"
    and "f = RESPONSE_FLAG \<or> f = RESPONSE_ZSTD_FLAG"
    and "Client_maybeDecompress (m_zstd E) p f = Inr d"
    and "Response_UnmarshalVT (m_ph E) Response_zero d = Ok r"
proof -
  have "length (enc_response r) + 1 < 2 ^ 32" using assms by (simp add: response_ok_def)
  from rs_frame.decode_wire [OF response_ok_wf [OF assms] this] that show thesis
    by (metis response_wire_def)
qed

lemma loop_delivers:
  assumes "mux_ok m" and "c_ok st" and "\<forall>r \<in> set rs. response_ok r"
  shows "\<exists>m' st'. mux_ok m' \<and> mx_balancer m' = mx_balancer m \<and> c_ok st' \<and> c_out st' = c_out st \<and>
    c_view st' = fold deliver rs (c_view st) \<and>
    readCycle_loop E s \<lparr>in_bytes = concat (map (response_wire (m_zstd E)) rs) @ rest, in_err = e\<rparr> (m, st) =
    readCycle_loop E s \<lparr>in_bytes = rest, in_err = e\<rparr> (m', st')"
  using assms
proof (induction rs arbitrary: m st)
  case Nil
  then show ?case by auto
next
  case (Cons r rs)
  have "response_ok r" using Cons.prems(3) by simp
  then obtain f p d where
    rd: "\<And>rest e. read_frame True \<lparr>in_bytes = response_wire (m_zstd E) r @ rest, in_err = e\<rparr> =
      (Inr (f, p), \<lparr>in_bytes = rest, in_err = e\<rparr>)"
    and f: "f = RESPONSE_FLAG \<or> f = RESPONSE_ZSTD_FLAG"
    and d: "Client_maybeDecompress (m_zstd E) p f = Inr d"
      "Response_UnmarshalVT (m_ph E) Response_zero d = Ok r"
    by (rule response_frame) blast
  let ?st = "st\<lparr>c_tick := c_tick st + 1\<rparr>"
  have ok: "c_ok ?st" using Cons.prems(2) by simp
  obtain st1 where st1: "dispatch_frame E f p ?st = (None, st1)" "c_ok st1" "c_out st1 = c_out st"
    "c_view st1 = deliver r (c_view st)"
    using dispatch_response_delivers [OF ok d] f by (auto simp: dispatch_frame_def c_view_def)
  obtain m1 where m1: "mux_ok m1" "mx_balancer m1 = mx_balancer m"
    "readCycle_loop E s \<lparr>in_bytes = concat (map (response_wire (m_zstd E)) (r # rs)) @ rest, in_err = e\<rparr> (m, st) =
     readCycle_loop E s \<lparr>in_bytes = concat (map (response_wire (m_zstd E)) rs) @ rest, in_err = e\<rparr> (m1, st1)"
    using loop_frame [OF Cons.prems(1,2) rd, of E s "concat (map (response_wire (m_zstd E)) rs) @ rest" e] st1(1)
    by auto
  from Cons.IH [OF m1(1) st1(2)] show ?case
    using Cons.prems(3) m1 st1 by auto
qed

lemma loop_request_crash:
  assumes "mux_ok m" and "c_ok st" and "request_ok q" and "sm_lookup (c_map st) (rq_RequestId q) \<noteq> None"
  shows "fst (readCycle_loop E s \<lparr>in_bytes = request_wire (m_zstd E) q @ rest, in_err = e\<rparr> (m, st)) =
    Crashed TypeAssertion"
proof -
  have "length (enc_request q) + 1 < 2 ^ 32" using assms(3) by (simp add: request_ok_def)
  then obtain f p where f: "f = REQUEST_FLAG \<or> f = REQUEST_ZSTD_FLAG"
    and rd: "read_frame True \<lparr>in_bytes = request_wire (m_zstd E) q @ rest, in_err = e\<rparr> =
      (Inr (f, p), \<lparr>in_bytes = rest, in_err = e\<rparr>)"
    and d: "Client_maybeDecompress (m_zstd E) p f = Inr (enc_request q)"
      "Request_UnmarshalVT (m_ph E) Request_zero (enc_request q) = Ok q"
    using rqc_frame.decode_wire [OF request_ok_wf [OF assms(3)]] unfolding request_wire_def by metis
  let ?st = "st\<lparr>c_tick := c_tick st + 1\<rparr>"
  have ok: "c_ok ?st" using assms(2) by simp
  obtain st1 where "dispatch_frame E f p ?st = (Some (Crashed TypeAssertion), st1)"
    using dispatch_request_effect [OF ok d] f assms(4)
    by (auto simp: dispatch_frame_def flag_defs split: if_splits)
  then show ?thesis
    using loop_frame [OF assms(1,2) rd, of E s] by (metis fst_conv option.simps(5))
qed

lemma waits_deliver:
  assumes "c_view st' = deliver r (c_view st)" and "sm_lookup (c_map st') i \<noteq> None"
  shows "sm_lookup (c_map st) i \<noteq> None"
  using assms by (auto simp: c_view_def deliver_def split: option.splits chan_ref.splits if_splits)

lemma loop_safe:
  assumes ret: "\<And>d. length d < 2 ^ 63 \<Longrightarrow> returns (Request_UnmarshalVT (m_ph E) Request_zero d) \<and>
      returns (Response_UnmarshalVT (m_ph E) Response_zero d)"
    and dec: "\<And>d x. length d < 2 ^ 32 \<Longrightarrow> DecodeAll (m_zstd E) d = Inr x \<Longrightarrow> length x < 2 ^ 63"
    and "mux_ok m" and "c_ok st"
  shows "\<exists>x m' st'. readCycle_loop E s stream (m, st) = (x, m', st') \<and> mux_ok m' \<and> c_ok st' \<and>
    c_out st' = c_out st \<and> x \<noteq> Stuck \<and>
    (\<forall>q. x = Crashed q \<longrightarrow> q = TypeAssertion \<and> (\<exists>i. sm_lookup (c_map st) i \<noteq> None))"
  using assms(3,4)
proof (induction "length (in_bytes stream)" arbitrary: stream m st rule: less_induct)
  case less
  let ?st = "st\<lparr>c_tick := c_tick st + 1\<rparr>"
  obtain m1 where m1: "mux_flush E s (m, st) = (None, m1, ?st)" "mux_ok m1"
    using mux_flush_ok [OF less.prems(1)] by blast
  have ok: "c_ok ?st" using less.prems(2) by simp
  show ?case
  proof (cases "read_frame True stream")
    case (Pair r stream')
    show ?thesis
    proof (cases r)
      case (Inl x)
      with Pair m1 ok show ?thesis by (simp add: readCycle_loop.simps [of E s stream])
    next
      case (Inr fp)
      obtain f p where fp: "fp = (f, p)" by (cases fp)
      have rd: "read_frame True stream = (Inr (f, p), stream')" using Pair Inr fp by simp
      have "length p < 2 ^ 32" using read_frame_Inr [OF rd] by simp
      then have "returns (Request_UnmarshalVT (m_ph E) Request_zero d) \<and>
          returns (Response_UnmarshalVT (m_ph E) Response_zero d)"
        if "Client_maybeDecompress (m_zstd E) p f = Inr d" for d
        using that dec ret by (auto simp: Client_maybeDecompress_def DecompressZstd_def split: if_splits)
      note cases = dispatch_frame_cases [OF ok this]
      note go = less.hyps [OF read_frame_shorter [OF rd] m1(2)]
      have step: "readCycle_loop E s stream (m, st) =
          (case x of None \<Rightarrow> readCycle_loop E s stream' (m1, st1) | Some z \<Rightarrow> (z, m1, st1))"
        if "dispatch_frame E f p ?st = (x, st1)" for x st1
        using that m1(1) rd by (simp add: readCycle_loop.simps [of E s stream] split: option.splits)
      show ?thesis
      proof (rule cases)
        fix st1
        assume st1: "dispatch_frame E f p ?st = (None, st1)" "c_ok st1" "c_out st1 = c_out ?st"
          and "c_view st1 = c_view ?st"
        then have "sm_lookup (c_map st1) = sm_lookup (c_map st)" by (simp add: c_view_def)
        with st1 step [OF st1(1)] go [OF st1(2)] show ?thesis by simp
      next
        fix st1 r
        assume st1: "dispatch_frame E f p ?st = (None, st1)" "c_ok st1" "c_out st1 = c_out ?st"
          and "c_view st1 = deliver r (c_view ?st)"
        then have "sm_lookup (c_map st1) i \<noteq> None \<Longrightarrow> sm_lookup (c_map st) i \<noteq> None" for i
          using waits_deliver [of st1 r ?st i] by simp
        with st1 step [OF st1(1)] go [OF st1(2)] show ?thesis by fastforce
      next
        fix st1 q
        assume "dispatch_frame E f p ?st = (Some (Crashed TypeAssertion), st1)" "c_ok st1" "c_out st1 = c_out ?st"
          and "sm_lookup (c_map ?st) (rq_RequestId q) \<noteq> None"
        with step m1 show ?thesis by auto
      qed
    qed
  qed
qed

end

interpretation ref_client: client_stack
    "\<lparr>m_ph = ref_helpers, m_zstd = ref_zstd, m_pick = pick, m_now = now, m_write = wr,
      m_deadline = dl, m_rand = rnd\<rparr>" for pick now wr dl rnd
  by unfold_locales (simp_all add: ref.EncodeVarint_spec ref.SizeOfVarint_spec ref_z.decode_encode)

lemma client_stackI: "vt_helpers (m_ph E) \<Longrightarrow> zstd_lib (m_zstd E) \<Longrightarrow> client_stack E"
  by (intro client_stack.intro wire_stack.intro)

subsection \<open>Delivering several responses\<close>

text \<open>A channel that nobody waits on any more keeps what it holds.\<close>

lemma fold_deliver_settled:
  assumes "\<forall>i. W i \<noteq> Some (RespChan ch)"
  shows "snd (fold deliver rs (W, B)) ch = B ch \<and> (W i = None \<longrightarrow> fst (fold deliver rs (W, B)) i = None)"
  using assms
proof (induction rs arbitrary: W B)
  case Nil
  then show ?case by simp
next
  case (Cons r rs)
  obtain W' B' where d: "deliver r (W, B) = (W', B')" by (cases "deliver r (W, B)")
  then have "\<forall>i. W' i \<noteq> Some (RespChan ch)" "B' ch = B ch" "W i = None \<longrightarrow> W' i = None"
    using Cons.prems by (auto simp: deliver_def split: option.splits chan_ref.splits if_splits)
  with Cons.IH [of W' B'] d show ?case by simp
qed

lemma fold_deliver_reaches:
  assumes "distinct (map rs_RequestId rs)" and "r \<in> set rs"
    and "W (rs_RequestId r) = Some (RespChan ch)" and "B ch = None"
    and "\<forall>i. i \<noteq> rs_RequestId r \<longrightarrow> W i \<noteq> Some (RespChan ch)"
  shows "snd (fold deliver rs (W, B)) ch = Some r \<and> fst (fold deliver rs (W, B)) (rs_RequestId r) = None"
  using assms
proof (induction rs arbitrary: W B)
  case Nil
  then show ?case by simp
next
  case (Cons a rs)
  show ?case
  proof (cases "a = r")
    case True
    let ?W = "W(rs_RequestId r := None)" and ?B = "B(ch \<mapsto> r)"
    have "deliver a (W, B) = (?W, ?B)" using True Cons.prems by (simp add: deliver_def)
    moreover have "\<forall>i. ?W i \<noteq> Some (RespChan ch)" using Cons.prems(5) by auto
    ultimately show ?thesis
      using fold_deliver_settled [of ?W ch rs ?B "rs_RequestId r"] by simp
  next
    case False
    with Cons.prems(1,2) have ne: "rs_RequestId a \<noteq> rs_RequestId r" and in': "r \<in> set rs" by auto
    obtain W' B' where d: "deliver a (W, B) = (W', B')" by (cases "deliver a (W, B)")
    then have "W' (rs_RequestId r) = Some (RespChan ch)" "B' ch = None"
      "\<forall>i. i \<noteq> rs_RequestId r \<longrightarrow> W' i \<noteq> Some (RespChan ch)"
      using Cons.prems(3-5) ne by (auto simp: deliver_def split: option.splits chan_ref.splits if_splits)
    from Cons.IH [where W = W' and B = B', OF _ in' this] Cons.prems(1) d show ?thesis by simp
  qed
qed

subsection \<open>Opening the streams\<close>

fun opened :: "(nat \<times> (go_error + 'st)) list \<Rightarrow> 'st list" where
  "opened [] = []"
| "opened ((_, Inl _) # opens) = opened opens"
| "opened ((_, Inr s) # opens) = s # opened opens"

lemma mux_start_eq:
  assumes "i \<le> c"
  shows "fst (mux_start c i opens m) = (unat c - unat i \<le> length (opened opens)) \<and>
    fst (snd (mux_start c i opens m)) = take (unat c - unat i) (opened opens) \<and>
    streams (mx_balancer (snd (snd (mux_start c i opens m)))) =
      streams (mx_balancer m) @ take (unat c - unat i) (opened opens) \<and>
    dom (mx_batchers (snd (snd (mux_start c i opens m)))) =
      dom (mx_batchers m) \<union> set (take (unat c - unat i) (opened opens)) \<and>
    (mux_ok m \<longrightarrow> mux_ok (snd (snd (mux_start c i opens m))))"
  using assms
proof (induction c i opens m rule: mux_start.induct)
  case (1 c i m)
  then show ?case by (auto simp: word_less_nat_alt)
next
  case (2 c i now r opens m)
  show ?case
  proof (cases "i < c")
    case False
    with "2.prems" have "i = c" by simp
    then show ?thesis by simp
  next
    case True
    show ?thesis
    proof (cases r)
      case (Inl err)
      with "2.IH"(1) [OF _ Inl refl] True "2.prems" show ?thesis by (simp add: Let_def)
    next
      case (Inr s)
      let ?m = "m\<lparr>mx_balancer := Balancer_AddStream s (mx_balancer m),
        mx_batchers := (mx_batchers m)(s \<mapsto> NewBatcher now)\<rparr>"
      have "unat i + 1 < 2 ^ LENGTH(16)"
        using True unat_u16_less [of c] by (simp add: word_less_nat_alt)
      then have i1: "unat (i + 1) = unat i + 1" by (subst unat_add_lem [THEN iffD1]) simp_all
      then have le: "i + 1 \<le> c" using True by (simp add: word_le_nat_alt word_less_nat_alt)
      have k: "unat c - unat i = Suc (unat c - unat (i + 1))"
        using True i1 by (simp add: word_less_nat_alt)
      have "mux_ok ?m" if "mux_ok m"
        using that by (auto simp: mux_ok_def NewBatcher_def)
      with "2.IH"(2) [OF _ Inr refl le] True Inr show ?thesis
        by (auto simp: k Let_def case_prod_unfold Balancer_AddStream_def)
    qed
  qed
qed

section \<open>Properties\<close>

text \<open>
  \<open>start\<close> opens exactly the streams it was asked for, however many attempts fail and whenever
  they fail (the 16-bit counter wraps to 65535 after a failure of the first attempt, and back): it
  has ended exactly when enough attempts succeeded; the balancer holds the streams of the first
  successes, in order, each of them was given a reading goroutine and has an empty batcher.
\<close>

theorem mux_start_opens_all:
  "let (fin, readers, m) = mux_start c 0 opens (NewMultiplexer NewBalancer);
       ok = take (unat c) (opened opens)
   in (fin \<longleftrightarrow> unat c \<le> length (opened opens)) \<and> readers = ok \<and>
      streams (mx_balancer m) = ok \<and> dom (mx_batchers m) = set ok \<and> mux_ok m"
proof -
  let ?m = "NewMultiplexer NewBalancer :: 'a mux"
  have "mux_ok ?m" "streams (mx_balancer ?m) = []" "dom (mx_batchers ?m) = {}"
    by (simp_all add: mux_ok_def NewMultiplexer_def NewBalancer_def)
  then show ?thesis
    using mux_start_eq [of 0 c opens ?m] by (simp add: case_prod_unfold Let_def)
qed

text \<open>
  C12. Responses reach the calls that wait for them. The loop reads a sequence of response frames
  with different ids, in any order, and whatever else the client is waiting for: afterwards the
  channel registered for the id of a response holds that response, its call is no longer
  registered, nothing was written, and the loop goes on with the rest of the stream.
\<close>

theorem response_reaches_its_call:
  assumes "vt_helpers (m_ph E)" and "zstd_lib (m_zstd E)" and "mux_ok m" and "c_ok st"
    and "\<forall>r \<in> set rs. response_ok r" and "distinct (map rs_RequestId rs)"
  shows "\<exists>m' st'. mux_ok m' \<and> c_ok st' \<and> c_out st' = c_out st \<and>
    readCycle E s \<lparr>in_bytes = concat (map (response_wire (m_zstd E)) rs) @ rest, in_err = e\<rparr> (m, st) =
      readCycle E s \<lparr>in_bytes = rest, in_err = e\<rparr> (m', st') \<and>
    (\<forall>r ch. r \<in> set rs \<and> sm_lookup (c_map st) (rs_RequestId r) = Some (RespChan ch) \<and>
       c_chans st ch = None \<and>
       (\<forall>i. i \<noteq> rs_RequestId r \<longrightarrow> sm_lookup (c_map st) i \<noteq> Some (RespChan ch)) \<longrightarrow>
       c_chans st' ch = Some r \<and> sm_lookup (c_map st') (rs_RequestId r) = None)"
proof -
  obtain m' st' where o: "mux_ok m'" "c_ok st'" "c_out st' = c_out st"
    and v: "c_view st' = fold deliver rs (c_view st)"
    and l: "readCycle_loop E s \<lparr>in_bytes = concat (map (response_wire (m_zstd E)) rs) @ rest, in_err = e\<rparr> (m, st) =
      readCycle_loop E s \<lparr>in_bytes = rest, in_err = e\<rparr> (m', st')"
    using client_stack.loop_delivers [OF client_stackI [OF assms(1,2)] assms(3,4,5)] by blast
  have "c_chans st' ch = Some r \<and> sm_lookup (c_map st') (rs_RequestId r) = None"
    if "r \<in> set rs" "sm_lookup (c_map st) (rs_RequestId r) = Some (RespChan ch)" "c_chans st ch = None"
      "\<forall>i. i \<noteq> rs_RequestId r \<longrightarrow> sm_lookup (c_map st) i \<noteq> Some (RespChan ch)" for r ch
    using fold_deliver_reaches [where W = "sm_lookup (c_map st)" and B = "c_chans st", OF assms(6) that] v
    by (metis c_view_def fst_conv snd_conv)
  with o l show ?thesis unfolding readCycle_def by (intro exI [of _ m'] exI [of _ st']) auto
qed

text \<open>A client with one waiting call.\<close>

definition demo_menv :: "nat menv" where
  "demo_menv =
     \<lparr>m_ph = ref_helpers, m_zstd = ref_zstd, m_pick = (\<lambda>n. n), m_now = (\<lambda>n. n),
      m_write = (\<lambda>s out b. None), m_deadline = (\<lambda>s n. None), m_rand = (\<lambda>n. word_of_nat (1000 + n))\<rparr>"

definition empty_cst :: "'st cst" where
  "empty_cst =
     \<lparr>c_requests = [], c_responses = [], c_buffers = [], c_map = NewShardedMap, c_chans = Map.empty,
      c_reqchans = Map.empty, c_out = (\<lambda>s. []), c_tick = 0\<rparr>"

definition demo_cst :: "nat cst" where
  "demo_cst = empty_cst\<lparr>c_map := ShardedMap_Store 300 (RespChan 4) NewShardedMap\<rparr>"

lemma demo_menv_simps [simp]: "m_ph demo_menv = ref_helpers" "m_zstd demo_menv = ref_zstd"
  by (simp_all add: demo_menv_def)

lemma c_ok_empty: "c_ok empty_cst"
  by (simp add: c_ok_def empty_cst_def rq_pool.pool_ok_empty rs_pool.pool_ok_empty bf_pool.pool_ok_empty)

lemma demo_cst_ok: "c_ok demo_cst" "sm_lookup (c_map demo_cst) = [300 \<mapsto> RespChan 4]" "c_chans demo_cst = Map.empty"
  using c_ok_empty
  by (simp_all add: demo_cst_def empty_cst_def c_ok_def sm_inv_Store sm_lookup_Store)

lemma mux_ok_new: "mux_ok (NewMultiplexer b)"
  by (simp add: mux_ok_def NewMultiplexer_def)

lemma sample_response_ok: "response_ok sample_response"
  by (simp add: response_ok_def enc_sample_response) (simp add: sample_response_def)

lemma sample_request_ok: "request_ok sample_request"
  by (simp add: request_ok_def enc_sample_request) (simp add: sample_request_def)

theorem response_reaches_its_call_witness:
  "\<exists>m' st'. mux_ok m' \<and> c_ok st' \<and> c_out st' = c_out demo_cst \<and>
    readCycle demo_menv 1 \<lparr>in_bytes = response_wire ref_zstd sample_response @ [9], in_err = ErrEOF\<rparr>
      (NewMultiplexer NewBalancer, demo_cst) =
    readCycle demo_menv 1 \<lparr>in_bytes = [9], in_err = ErrEOF\<rparr> (m', st') \<and>
    c_chans st' 4 = Some sample_response \<and> sm_lookup (c_map st') 300 = None"
proof -
  have id: "rs_RequestId sample_response = 300" by (simp add: sample_response_def)
  show ?thesis
    using response_reaches_its_call [of demo_menv "NewMultiplexer NewBalancer" demo_cst "[sample_response]" 1 "[9]" ErrEOF]
    by (auto simp: ref.vt_helpers_axioms ref_z.zstd_lib_axioms mux_ok_new demo_cst_ok sample_response_ok id)
qed

text \<open>
  C25. A request frame whose id is that of a waiting call crashes the client: the loop asserts that
  the channel in the map is a channel of requests, and the client only stores channels of
  responses.
\<close>

theorem request_frame_crashes_client:
  assumes "vt_helpers (m_ph E)" and "zstd_lib (m_zstd E)" and "mux_ok m" and "c_ok st"
    and "request_ok q" and "sm_lookup (c_map st) (rq_RequestId q) \<noteq> None"
  shows "fst (readCycle E s \<lparr>in_bytes = request_wire (m_zstd E) q @ rest, in_err = e\<rparr> (m, st)) =
    Crashed TypeAssertion"
  using client_stack.loop_request_crash [OF client_stackI [OF assms(1,2)] assms(3-6), of s rest e]
  by (auto simp: readCycle_def case_prod_unfold Let_def)

theorem request_frame_crashes_client_witness:
  "fst (readCycle demo_menv 1 \<lparr>in_bytes = request_wire ref_zstd sample_request @ [], in_err = ErrEOF\<rparr>
      (NewMultiplexer NewBalancer, demo_cst)) = Crashed TypeAssertion"
  using request_frame_crashes_client [of demo_menv "NewMultiplexer NewBalancer" demo_cst sample_request 1 "[]" ErrEOF]
  by (simp add: ref.vt_helpers_axioms ref_z.zstd_lib_axioms mux_ok_new demo_cst_ok sample_request_ok)
    (simp add: sample_request_def)

text \<open>
  C9. Otherwise no input from the network crashes or hangs the client's read loop: for any bytes on
  the stream and any way it ends, the loop returns, the only panic it can end with is that type
  assertion, and only if a call was waiting at the start, it writes nothing, it leaves the pools clean and the map in order, and the stream's
  batcher is removed.
\<close>

theorem client_survives_any_input:
  assumes "vt_helpers_skip (m_ph E)" and "zstd_lib (m_zstd E)"
    and "\<forall>d x. length d < 2 ^ 32 \<and> DecodeAll (m_zstd E) d = Inr x \<longrightarrow> length x < 2 ^ 63"
    and "mux_ok m" and "c_ok st"
  shows "\<exists>x m' st'. readCycle E s stream (m, st) = (x, m', st') \<and> c_ok st' \<and> mux_ok m' \<and>
    c_out st' = c_out st \<and> mx_batchers m' s = None \<and> x \<noteq> Stuck \<and>
    (\<forall>p. x = Crashed p \<longrightarrow> p = TypeAssertion \<and> (\<exists>i. sm_lookup (c_map st) i \<noteq> None))"
proof -
  have E: "client_stack E"
    using vt_helpers_skip.axioms(1) [OF assms(1)] assms(2) by (rule client_stackI)
  have ret: "returns (Request_UnmarshalVT (m_ph E) Request_zero d) \<and>
      returns (Response_UnmarshalVT (m_ph E) Response_zero d)" if "length d < 2 ^ 63" for d
    using vt_helpers_skip.UnmarshalVT_returns [OF assms(1) that] by blast
  obtain x m' st' where l: "readCycle_loop E s stream (m, st) = (x, m', st')" "mux_ok m'" "c_ok st'"
    "c_out st' = c_out st" "x \<noteq> Stuck"
    "\<forall>q. x = Crashed q \<longrightarrow> q = TypeAssertion \<and> (\<exists>i. sm_lookup (c_map st) i \<noteq> None)"
    using client_stack.loop_safe [OF E ret _ assms(4,5)] assms(3) by metis
  have "mux_ok (m'\<lparr>mx_batchers := (mx_batchers m')(s := None)\<rparr>)"
    using l(2) by (auto simp: mux_ok_def)
  with l show ?thesis by (simp add: readCycle_def)
qed

theorem client_survives_any_input_witness:
  "\<exists>x m' st'. readCycle demo_menv 1 \<lparr>in_bytes = [0, 0, 0, 2, 5, 255, 7], in_err = IdleTimeoutError\<rparr>
      (NewMultiplexer NewBalancer, demo_cst) = (x, m', st') \<and> c_ok st' \<and> mux_ok m' \<and>
    c_out st' = c_out demo_cst \<and> mx_batchers m' 1 = None \<and> x \<noteq> Stuck \<and>
    (\<forall>p. x = Crashed p \<longrightarrow> p = TypeAssertion \<and> (\<exists>i. sm_lookup (c_map demo_cst) i \<noteq> None))"
proof (rule client_survives_any_input)
  show "vt_helpers_skip (m_ph demo_menv)" by (simp add: ref.vt_helpers_skip_axioms)
  show "zstd_lib (m_zstd demo_menv)" by (simp add: ref_z.zstd_lib_axioms)
  show "\<forall>d x. length d < 2 ^ 32 \<and> DecodeAll (m_zstd demo_menv) d = Inr x \<longrightarrow> length x < 2 ^ 63"
    unfolding demo_menv_simps using ref_DecodeAll_bound by blast
qed (rule mux_ok_new, rule demo_cst_ok(1))

end
