(* ===== verification/Rpc_Client.thy ===== *)
theory Rpc_Client
  imports Stream_Multiplexer Rpc_Ctx
begin

text \<open>
  The client of \<open>client.go\<close>: dialling, sending requests and events over a multiplexer and one of
  its streams, waiting for the response on a channel, and closing. Channels come from a pool, so
  one channel serves many calls one after the other.

  A blocking call is split where it blocks: \<open>SendRequest\<close> is what it does up to the wait, what
  the other goroutines do meanwhile (an argument), and the case of the \<open>select\<close> that wakes it.
  Pointers that the code keeps after releasing an object are modelled as they behave: \<open>req\<close> after
  \<open>ReleaseRequest(req)\<close> is the reset message.
\<close>

section \<open>State\<close>

record ('a, 'st) client =
  cl_muxes :: "'st mux list"
  cl_counter :: u32
  cl_cst :: "'st cst"
  cl_pool :: "nat list"
  cl_next :: nat
  cl_closed :: bool
  cl_pending :: nat
  cl_reqs :: "'a request_impl list"
  cl_resps :: "response_impl list"

text \<open>
  \<open>NewClient\<close> up to \<open>newClient\<close>, over the results of \<open>DialAddr\<close> (\<open>None\<close>: it still waits for
  one). It returns the connections it closes, and the error or the connections.
\<close>

fun dial_all :: "nat \<Rightarrow> (go_error + 'c) list \<Rightarrow> 'c list \<Rightarrow> ('c list \<times> (go_error + 'c list)) option" where
  "dial_all 0 dials conns = Some ([], Inr conns)"
| "dial_all (Suc n) [] conns = None"
| "dial_all (Suc n) (Inl err # dials) conns = Some (conns, Inl err)"
| "dial_all (Suc n) (Inr conn # dials) conns = dial_all n dials (conns @ [conn])"

definition NewClient :: "int \<Rightarrow> (go_error + 'c) list \<Rightarrow> ('c list \<times> (go_error + 'c list)) option" where
  "NewClient connsCount dials =
     (let connsCount = (if connsCount < 1 then 1 else connsCount)
      in dial_all (nat connsCount) dials [])"

text \<open>
  The multiplexers are those of the connections; each then runs \<open>start_mux\<close>, which opens 32
  streams. The pools are package variables, so they are given.
\<close>

definition newClient ::
    "'c list \<Rightarrow> 'a request_impl list \<Rightarrow> response_impl list \<Rightarrow> 'st cst \<Rightarrow> ('a, 'st) client" where
  "newClient conns reqs resps st =
     \<lparr>cl_muxes = map (\<lambda>conn. NewMultiplexer NewBalancer) conns, cl_counter = 0,
      cl_cst = st\<lparr>c_map := NewShardedMap\<rparr>, cl_pool = [], cl_next = 0, cl_closed = False,
      cl_pending = 0, cl_reqs = reqs, cl_resps = resps\<rparr>"

definition streamsPerConn :: u16 where
  "streamsPerConn = 32"

definition start_mux :: "(nat \<times> (go_error + 'st)) list \<Rightarrow> 'st mux \<Rightarrow> bool \<times> 'st list \<times> 'st mux" where
  "start_mux opens m = mux_start streamsPerConn 0 opens m"

section \<open>Parts of the calls\<close>

definition cl_upd :: "('st cst \<Rightarrow> 'st cst) \<Rightarrow> ('a, 'st) client \<Rightarrow> ('a, 'st) client" where
  "cl_upd f cl = cl\<lparr>cl_cst := f (cl_cst cl)\<rparr>"

definition cl_rand :: "'st menv \<Rightarrow> ('a, 'st) client \<Rightarrow> u64 \<times> ('a, 'st) client" where
  "cl_rand E cl = (m_rand E (c_tick (cl_cst cl)), cl_upd (\<lambda>st. st\<lparr>c_tick := c_tick st + 1\<rparr>) cl)"

text \<open>\<open>if req.RequestId == 0 { req.RequestId = rand.Uint64() }\<close>\<close>

definition assign_id :: "'st menv \<Rightarrow> request \<Rightarrow> ('a, 'st) client \<Rightarrow> request \<times> ('a, 'st) client" where
  "assign_id E req cl =
     (if rq_RequestId req = 0
      then (let (x, cl) = cl_rand E cl in (req\<lparr>rq_RequestId := x\<rparr>, cl))
      else (req, cl))"

definition getMultiplexor :: "('a, 'st) client \<Rightarrow> nat outcome \<times> ('a, 'st) client" where
  "getMultiplexor cl =
     (rr_pick (cl_counter cl) [0..<length (cl_muxes cl)], cl\<lparr>cl_counter := cl_counter cl + 1\<rparr>)"

definition getChan :: "'st menv \<Rightarrow> ('a, 'st) client \<Rightarrow> nat \<times> ('a, 'st) client" where
  "getChan E cl =
     (let k = m_pick E (c_tick (cl_cst cl));
          (ch, pool) = pool_get k (cl_next cl) (cl_pool cl);
          next = (if k < length (cl_pool cl) then cl_next cl else cl_next cl + 1)
      in (ch, cl_upd (\<lambda>st. st\<lparr>c_tick := c_tick st + 1\<rparr>) (cl\<lparr>cl_pool := pool, cl_next := next\<rparr>)))"

definition putChan :: "nat \<Rightarrow> ('a, 'st) client \<Rightarrow> ('a, 'st) client" where
  "putChan ch cl = cl\<lparr>cl_pool := pool_put ch (cl_pool cl)\<rparr>"

definition chans_Store :: "u64 \<Rightarrow> nat \<Rightarrow> ('a, 'st) client \<Rightarrow> ('a, 'st) client" where
  "chans_Store key ch = cl_upd (\<lambda>st. st\<lparr>c_map := ShardedMap_Store key (RespChan ch) (c_map st)\<rparr>)"

definition chans_Delete :: "u64 \<Rightarrow> ('a, 'st) client \<Rightarrow> ('a, 'st) client" where
  "chans_Delete key = cl_upd (\<lambda>st. st\<lparr>c_map := ShardedMap_Delete key (c_map st)\<rparr>)"

definition release_buffer :: "buffer \<Rightarrow> ('a, 'st) client \<Rightarrow> ('a, 'st) client" where
  "release_buffer buf = cl_upd (\<lambda>st. st\<lparr>c_buffers := Buffer_Release (Some buf) (c_buffers st)\<rparr>)"

text \<open>Encoding into a buffer of the pool, for requests and events.\<close>

definition cl_encode ::
    "(protohelpers \<Rightarrow> zstd \<Rightarrow> nat \<Rightarrow> buffer list \<Rightarrow> request \<Rightarrow> buffer outcome \<times> buffer list) \<Rightarrow>
     'st menv \<Rightarrow> request \<Rightarrow> ('a, 'st) client \<Rightarrow> buffer outcome \<times> ('a, 'st) client" where
  "cl_encode encode E req cl =
     (let st = cl_cst cl;
          (r, pool) = encode (m_ph E) (m_zstd E) (m_pick E (c_tick st)) (c_buffers st) req
      in (r, cl\<lparr>cl_cst := st\<lparr>c_buffers := pool, c_tick := c_tick st + 1\<rparr>\<rparr>))"

definition cl_GetStream :: "nat \<Rightarrow> ('a, 'st) client \<Rightarrow> 'st outcome \<times> ('a, 'st) client" where
  "cl_GetStream i cl =
     (let (s, m) = Multiplexer_GetStream (cl_muxes cl ! i)
      in (s, cl\<lparr>cl_muxes := (cl_muxes cl)[i := m]\<rparr>))"

definition set_deadline :: "'st menv \<Rightarrow> 'st \<Rightarrow> ('a, 'st) client \<Rightarrow> go_error option \<times> ('a, 'st) client" where
  "set_deadline E s cl =
     (m_deadline E s (c_tick (cl_cst cl)), cl_upd (\<lambda>st. st\<lparr>c_tick := c_tick st + 1\<rparr>) cl)"

text \<open>\<open>mux.GetBatcher(stream).Write(data)\<close>\<close>

definition cl_write ::
    "'st menv \<Rightarrow> nat \<Rightarrow> 'st \<Rightarrow> bytes \<Rightarrow> ('a, 'st) client \<Rightarrow> go_error option \<times> ('a, 'st) client" where
  "cl_write E i s data cl =
     (let st = cl_cst cl;
          now = m_now E (c_tick st);
          (b, m) = GetBatcher now s (cl_muxes cl ! i);
          (err, b, out) = Batcher_Write (stream_write E s) now data (b, c_out st s);
          m = m\<lparr>mx_batchers := (mx_batchers m)(s \<mapsto> b)\<rparr>
      in (err, cl\<lparr>cl_muxes := (cl_muxes cl)[i := m],
                  cl_cst := st\<lparr>c_out := (c_out st)(s := out), c_tick := c_tick st + 1\<rparr>\<rparr>))"

text \<open>Going on with the result of a call, as \<open>on_result\<close> does in the read loops.\<close>

definition on_call ::
    "'x outcome \<Rightarrow> 's \<Rightarrow> (go_error \<Rightarrow> 'r outcome \<times> 's) \<Rightarrow> ('x \<Rightarrow> 'r outcome \<times> 's) \<Rightarrow> 'r outcome \<times> 's" where
  "on_call r st err go =
     (case r of
        Ok x \<Rightarrow> go x
      | Err e \<Rightarrow> err e
      | Panic p \<Rightarrow> (Panic p, st)
      | Diverge \<Rightarrow> (Diverge, st))"

section \<open>The operations\<close>

definition Client_NewRequest :: "'st menv \<Rightarrow> ('a, 'st) client \<Rightarrow> 'a request_impl \<times> ('a, 'st) client" where
  "Client_NewRequest E cl =
     (let (req, st) = c_GetRequest E (cl_cst cl);
          (impl, pool) = NewRequest (m_pick E (c_tick st)) (Some req) (cl_reqs cl)
      in (impl, cl\<lparr>cl_reqs := pool, cl_cst := st\<lparr>c_tick := c_tick st + 1\<rparr>\<rparr>))"

definition Client_ReleaseRequest :: "'a request_impl \<Rightarrow> ('a, 'st) client \<Rightarrow> unit outcome \<times> ('a, 'st) client" where
  "Client_ReleaseRequest impl cl =
     on_call (ReleaseRequestImpl impl (cl_reqs cl)) cl (\<lambda>e. (Err e, cl))
       (\<lambda>pool. (Ok (), cl\<lparr>cl_reqs := pool\<rparr>))"

definition sendRequestInternal ::
    "'st menv \<Rightarrow> request \<Rightarrow> ('a, 'st) client \<Rightarrow> nat outcome \<times> ('a, 'st) client" where
  "sendRequestInternal E req cl =
     (if cl_closed cl then (Err ErrClientClosed, cl)
      else
        let (req, cl) = assign_id E req cl;
            (ch, cl) = getChan E cl;
            cl = chans_Store (rq_RequestId req) ch cl;
            (buf, cl) = cl_encode EncodeRequest E req cl;
            cl = cl_upd (c_ReleaseRequest req) cl;
            req = reset_request req
        in on_call buf cl
             (\<lambda>err. (Err err, putChan ch (chans_Delete (rq_RequestId req) cl)))
             (\<lambda>buf.
                let (i, cl) = getMultiplexor cl
                in on_call i cl (\<lambda>e. (Err e, cl))
                     (\<lambda>i.
                        let (s, cl) = cl_GetStream i cl
                        in on_call s cl
                             (\<lambda>err. (Err err, putChan ch (chans_Delete (rq_RequestId req) cl)))
                             (\<lambda>s.
                                let (err, cl) = set_deadline E s cl
                                in case err of
                                     Some err \<Rightarrow>
                                       (Err err, release_buffer buf
                                          (putChan ch (chans_Delete (rq_RequestId req) cl)))
                                   | None \<Rightarrow>
                                       let (err, cl) = cl_write E i s (Buffer_Bytes buf) cl;
                                           cl = release_buffer buf cl
                                       in case err of
                                            Some err \<Rightarrow>
                                              (Err err, putChan ch (chans_Delete (rq_RequestId req) cl))
                                          | None \<Rightarrow> (Ok ch, cl)))))"

text \<open>
  The cases of the \<open>select\<close> in \<open>waitResponse\<close>: the context is done, the client is closed, a
  response was received. The result \<open>None\<close> means that the case is not ready.
\<close>

datatype wake = CtxDone go_error | Closed | Received

definition waitResponse ::
    "wake \<Rightarrow> nat \<Rightarrow> u64 \<Rightarrow> ('a, 'st) client \<Rightarrow> (response outcome \<times> ('a, 'st) client) option" where
  "waitResponse w ch ident cl =
     (let fin = (\<lambda>cl. cl\<lparr>cl_pending := cl_pending cl - 1\<rparr>)
      in case w of
           CtxDone err \<Rightarrow> Some (Err err, fin (chans_Delete ident (putChan ch cl)))
         | Closed \<Rightarrow>
             if cl_closed cl then Some (Err ErrClientClosed, fin (chans_Delete ident (putChan ch cl)))
             else None
         | Received \<Rightarrow>
             (case c_chans (cl_cst cl) ch of
                None \<Rightarrow> None
              | Some v \<Rightarrow>
                  Some (Ok v, fin (putChan ch
                    (cl_upd (\<lambda>st. st\<lparr>c_chans := (c_chans st)(ch := None)\<rparr>) cl)))))"

text \<open>
  \<open>ReleaseRequest(impl)\<close> after a call whose result is returned next; a panic leaves at once.
\<close>

definition release_after ::
    "'r outcome \<Rightarrow> 'a request_impl \<Rightarrow> ('a, 'st) client \<Rightarrow> 'r outcome \<times> ('a, 'st) client" where
  "release_after r impl cl =
     (if returns r
      then (let (rel, cl) = Client_ReleaseRequest impl cl
            in on_call rel cl (\<lambda>e. (Err e, cl)) (\<lambda>_. (r, cl)))
      else (r, cl))"

text \<open>
  \<open>SendRequest\<close> up to the wait (\<open>pendingWg.Add(1)\<close> included): the channel and the id.
\<close>

definition SendRequest_begin ::
    "'st menv \<Rightarrow> 'a request_impl \<Rightarrow> ('a, 'st) client \<Rightarrow> (nat \<times> u64) outcome \<times> ('a, 'st) client" where
  "SendRequest_begin E impl cl =
     (case Request_Req impl of
        None \<Rightarrow> (Panic NilDereference, cl)
      | Some r \<Rightarrow>
          let (r, cl) = assign_id E r cl;
              ident = rq_RequestId r;
              (ch, cl) = sendRequestInternal E r cl;
              (ch, cl) = release_after ch impl cl
          in on_call ch cl (\<lambda>err. (Err err, cl))
               (\<lambda>ch. (Ok (ch, ident), cl\<lparr>cl_pending := cl_pending cl + 1\<rparr>)))"

text \<open>From the wait on.\<close>

definition SendRequest_end ::
    "'st menv \<Rightarrow> wake \<Rightarrow> nat \<Rightarrow> u64 \<Rightarrow> ('a, 'st) client \<Rightarrow>
     (response_impl outcome \<times> ('a, 'st) client) option" where
  "SendRequest_end E w ch ident cl =
     map_option (\<lambda>(r, cl).
       on_call r cl (\<lambda>err. (Err err, cl))
         (\<lambda>resp.
            let (impl, pool) = NewResponse (m_pick E (c_tick (cl_cst cl))) (Some resp) (cl_resps cl)
            in (Ok impl, cl_upd (\<lambda>st. st\<lparr>c_tick := c_tick st + 1\<rparr>) (cl\<lparr>cl_resps := pool\<rparr>))))
       (waitResponse w ch ident cl)"

definition SendRequest ::
    "'st menv \<Rightarrow> 'a request_impl \<Rightarrow> (('a, 'st) client \<Rightarrow> ('a, 'st) client) \<Rightarrow> wake \<Rightarrow>
     ('a, 'st) client \<Rightarrow> (response_impl outcome \<times> ('a, 'st) client) option" where
  "SendRequest E impl others w cl =
     (case SendRequest_begin E impl cl of
        (Ok (ch, ident), cl) \<Rightarrow> SendRequest_end E w ch ident (others cl)
      | (Err e, cl) \<Rightarrow> Some (Err e, cl)
      | (Panic p, cl) \<Rightarrow> Some (Panic p, cl)
      | (Diverge, cl) \<Rightarrow> Some (Diverge, cl))"

definition sendEventInternal ::
    "'st menv \<Rightarrow> request \<Rightarrow> ('a, 'st) client \<Rightarrow> unit outcome \<times> ('a, 'st) client" where
  "sendEventInternal E req cl =
     (if cl_closed cl then (Err ErrClientClosed, cl)
      else
        let req = req\<lparr>rq_RequestId := 0\<rparr>;
            (buf, cl) = cl_encode EncodeEvent E req cl;
            cl = cl_upd (c_ReleaseRequest req) cl
        in on_call buf cl (\<lambda>err. (Err err, cl))
             (\<lambda>buf.
                let (i, cl) = getMultiplexor cl
                in on_call i cl (\<lambda>e. (Err e, cl))
                     (\<lambda>i.
                        let (s, cl) = cl_GetStream i cl
                        in on_call s cl
                             (\<lambda>err. (Err err, release_buffer buf cl))
                             (\<lambda>s.
                                let (err, cl) = set_deadline E s cl
                                in case err of
                                     Some err \<Rightarrow> (Err err, release_buffer buf cl)
                                   | None \<Rightarrow>
                                       let (err, cl) = cl_write E i s (Buffer_Bytes buf) cl;
                                           cl = release_buffer buf cl
                                       in case err of
                                            Some err \<Rightarrow> (Err err, cl)
                                          | None \<Rightarrow> (Ok (), cl)))))"

definition SendEvent ::
    "'st menv \<Rightarrow> 'a request_impl \<Rightarrow> ('a, 'st) client \<Rightarrow> unit outcome \<times> ('a, 'st) client" where
  "SendEvent E impl cl =
     (let (r, cl) =
            (case Request_Req impl of
               None \<Rightarrow> (if cl_closed cl then (Err ErrClientClosed, cl) else (Panic NilDereference, cl))
             | Some req \<Rightarrow> sendEventInternal E req cl)
      in release_after r impl cl)"

definition Client_ReleaseResponse :: "response_impl \<Rightarrow> ('a, 'st) client \<Rightarrow> unit outcome \<times> ('a, 'st) client" where
  "Client_ReleaseResponse impl cl =
     (case Response_Resp impl of
        None \<Rightarrow> (Panic NilDereference, cl)
      | Some resp \<Rightarrow>
          let cl = cl_upd (c_ReleaseResponse resp) cl
          in (Ok (), cl\<lparr>cl_resps := ReleaseResponseImpl impl (cl_resps cl)\<rparr>))"

text \<open>
  \<open>Close\<close> up to \<open>pendingWg.Wait()\<close>, and after it, when no call is pending: it returns the
  streams that are closed.
\<close>

definition Close_begin :: "('a, 'st) client \<Rightarrow> ('a, 'st) client" where
  "Close_begin cl = cl\<lparr>cl_closed := True\<rparr>"

definition Close_end :: "('a, 'st) client \<Rightarrow> ('st list \<times> ('a, 'st) client) option" where
  "Close_end cl =
     (if cl_pending cl = 0
      then Some (concat (map (\<lambda>m. fst (Multiplexer_Close m)) (cl_muxes cl)),
                 cl\<lparr>cl_muxes := map (\<lambda>m. snd (Multiplexer_Close m)) (cl_muxes cl)\<rparr>)
      else None)"

section \<open>Invariant and lemmas\<close>

definition cl_ok :: "('a, 'st) client \<Rightarrow> bool" where
  "cl_ok cl \<longleftrightarrow>
     c_ok (cl_cst cl) \<and> (\<forall>m \<in> set (cl_muxes cl). mux_ok m) \<and>
     ri_pool.pool_ok (cl_reqs cl) \<and> si_pool.pool_ok (cl_resps cl)"

lemma on_call_simps [simp]:
  "on_call (Ok x) st err go = go x"
  "on_call (Err e) st err go = err e"
  "on_call (Panic p) st err go = (Panic p, st)"
  "on_call Diverge st err go = (Diverge, st)"
  by (simp_all add: on_call_def)

lemma cl_upd_simps [simp]:
  "cl_cst (cl_upd f cl) = f (cl_cst cl)" "cl_muxes (cl_upd f cl) = cl_muxes cl"
  "cl_counter (cl_upd f cl) = cl_counter cl" "cl_pool (cl_upd f cl) = cl_pool cl"
  "cl_next (cl_upd f cl) = cl_next cl" "cl_closed (cl_upd f cl) = cl_closed cl"
  "cl_pending (cl_upd f cl) = cl_pending cl" "cl_reqs (cl_upd f cl) = cl_reqs cl"
  "cl_resps (cl_upd f cl) = cl_resps cl"
  by (simp_all add: cl_upd_def)

text \<open>The client's view of the map of waiting calls.\<close>

definition waiting :: "('a, 'st) client \<Rightarrow> u64 \<rightharpoonup> chan_ref" where
  "waiting cl = sm_lookup (c_map (cl_cst cl))"

lemma waiting_Store: "cl_ok cl \<Longrightarrow> waiting (chans_Store key ch cl) = (waiting cl)(key \<mapsto> RespChan ch)"
  by (simp add: waiting_def chans_Store_def cl_ok_def c_ok_def sm_lookup_Store)

lemma waiting_Delete: "cl_ok cl \<Longrightarrow> waiting (chans_Delete key cl) = (waiting cl)(key := None)"
  by (simp add: waiting_def chans_Delete_def cl_ok_def c_ok_def sm_lookup_Delete)

lemma cl_ok_Store: "cl_ok cl \<Longrightarrow> cl_ok (chans_Store key ch cl)"
  by (simp add: chans_Store_def cl_ok_def c_ok_def sm_lookup_Store sm_inv_Store)

lemma cl_ok_Delete: "cl_ok cl \<Longrightarrow> cl_ok (chans_Delete key cl)"
  by (simp add: chans_Delete_def cl_ok_def c_ok_def sm_lookup_Delete sm_inv_Delete)

lemma cl_ok_frees [simp]:
  "cl_ok (cl\<lparr>cl_pool := p\<rparr>) = cl_ok cl" "cl_ok (cl\<lparr>cl_next := n\<rparr>) = cl_ok cl"
  "cl_ok (cl\<lparr>cl_counter := c\<rparr>) = cl_ok cl" "cl_ok (cl\<lparr>cl_pending := n\<rparr>) = cl_ok cl"
  "cl_ok (cl\<lparr>cl_closed := b\<rparr>) = cl_ok cl"
  "cl_ok (cl_upd (\<lambda>st. st\<lparr>c_tick := f st\<rparr>) cl) = cl_ok cl"
  "cl_ok (cl_upd (\<lambda>st. st\<lparr>c_chans := g st\<rparr>) cl) = cl_ok cl"
  by (simp_all add: cl_ok_def cl_upd_def)

text \<open>
  The part of the state that a client call promises about: the waiting calls, the channels and
  what was written. A step that keeps it is silent.
\<close>

definition silent :: "('a, 'st) client \<Rightarrow> ('a, 'st) client \<Rightarrow> bool" where
  "silent cl cl' \<longleftrightarrow>
     waiting cl' = waiting cl \<and> c_chans (cl_cst cl') = c_chans (cl_cst cl) \<and>
     c_out (cl_cst cl') = c_out (cl_cst cl) \<and> cl_pool cl' = cl_pool cl \<and> cl_next cl' = cl_next cl \<and>
     cl_closed cl' = cl_closed cl \<and> cl_pending cl' = cl_pending cl \<and>
     map (\<lambda>m. streams (mx_balancer m)) (cl_muxes cl') = map (\<lambda>m. streams (mx_balancer m)) (cl_muxes cl)"

lemma silent_refl [simp]: "silent cl cl"
  by (simp add: silent_def)

lemma silent_trans [trans]: "silent a b \<Longrightarrow> silent b c \<Longrightarrow> silent a c"
  by (simp add: silent_def)

lemma assign_id_ok: "cl_ok cl \<Longrightarrow> cl_ok (snd (assign_id E req cl)) \<and> silent cl (snd (assign_id E req cl))"
  by (auto simp: assign_id_def cl_rand_def silent_def waiting_def)

lemma release_buffer_ok:
  assumes "cl_ok cl" and "defaultBufSize \<le> buf_cap b"
  shows "cl_ok (release_buffer b cl)" and "silent cl (release_buffer b cl)"
  using assms
  by (simp_all add: release_buffer_def cl_ok_def c_ok_def Buffer_Release_ok silent_def waiting_def)

lemma release_buffer_view [simp]:
  "waiting (release_buffer b cl) = waiting cl" "cl_pool (release_buffer b cl) = cl_pool cl"
  by (simp_all add: release_buffer_def waiting_def)

lemma release_request_ok:
  assumes "cl_ok cl"
  shows "cl_ok (cl_upd (c_ReleaseRequest req) cl)" and "silent cl (cl_upd (c_ReleaseRequest req) cl)"
  using assms by (simp_all add: cl_ok_def c_Release_ok silent_def waiting_def)

lemma Client_ReleaseRequest_ok:
  assumes "cl_ok cl" and "ri_locals impl = Some l"
  obtains cl' where "Client_ReleaseRequest impl cl = (Ok (), cl')" and "cl_ok cl'" and "silent cl cl'"
    and "cl_cst cl' = cl_cst cl"
proof -
  obtain pool where "ReleaseRequestImpl impl (cl_reqs cl) = Ok pool" "ri_pool.pool_ok pool"
    using ReleaseRequestImpl_ok [of "cl_reqs cl" impl l] assms by (auto simp: cl_ok_def)
  with assms that show thesis
    by (simp add: Client_ReleaseRequest_def cl_ok_def silent_def waiting_def)
qed

text \<open>The channel that a call gets: one of the pool, or a new one.\<close>

lemma getChan_ok:
  assumes "cl_ok cl"
  shows "cl_ok (snd (getChan E cl))" and "waiting (snd (getChan E cl)) = waiting cl"
    and "c_chans (cl_cst (snd (getChan E cl))) = c_chans (cl_cst cl)"
    and "c_out (cl_cst (snd (getChan E cl))) = c_out (cl_cst cl)"
    and "cl_closed (snd (getChan E cl)) = cl_closed cl" and "cl_pending (snd (getChan E cl)) = cl_pending cl"
    and "cl_muxes (snd (getChan E cl)) = cl_muxes cl" and "cl_counter (snd (getChan E cl)) = cl_counter cl"
  using assms by (simp_all add: getChan_def case_prod_unfold Let_def waiting_def)

subsection \<open>Routing and writing\<close>

text \<open>The multiplexer and the stream whose turn it is.\<close>

definition next_route :: "('a, 'st) client \<Rightarrow> nat \<Rightarrow> 'st \<Rightarrow> bool" where
  "next_route cl i s \<longleftrightarrow>
     cl_muxes cl \<noteq> [] \<and> length (cl_muxes cl) < 2 ^ 32 \<and>
     i = unat (cl_counter cl) mod length (cl_muxes cl) \<and>
     (let b = mx_balancer (cl_muxes cl ! i)
      in streams b \<noteq> [] \<and> length (streams b) < 2 ^ 32 \<and>
         s = streams b ! (unat (counter b) mod length (streams b)))"

definition wrote :: "'st \<Rightarrow> bytes \<Rightarrow> ('a, 'st) client \<Rightarrow> ('a, 'st) client" where
  "wrote s data = cl_upd (\<lambda>st. st\<lparr>c_out := (c_out st)(s := c_out st s @ [data])\<rparr>)"

lemma next_route_cong:
  "cl_muxes cl' = cl_muxes cl \<Longrightarrow> cl_counter cl' = cl_counter cl \<Longrightarrow> next_route cl' i s = next_route cl i s"
  by (simp add: next_route_def)

lemma getMultiplexor_ok:
  assumes "cl_muxes cl \<noteq> []" and "length (cl_muxes cl) < 2 ^ 32"
  shows "getMultiplexor cl =
    (Ok (unat (cl_counter cl) mod length (cl_muxes cl)), cl\<lparr>cl_counter := cl_counter cl + 1\<rparr>)"
  using assms by (simp add: getMultiplexor_def rr_pick_eq)

lemma mux_update_ok:
  assumes "cl_ok cl" and "i < length (cl_muxes cl)" and "mux_ok m"
    and "streams (mx_balancer m) = streams (mx_balancer (cl_muxes cl ! i))"
  shows "cl_ok (cl\<lparr>cl_muxes := (cl_muxes cl)[i := m]\<rparr>)" and "silent cl (cl\<lparr>cl_muxes := (cl_muxes cl)[i := m]\<rparr>)"
  using assms
  by (auto simp: cl_ok_def silent_def waiting_def map_update dest: set_update_subset_insert [THEN subsetD])
    (metis list_update_id map_update)

lemma cl_write_ok:
  assumes "cl_ok cl" and i: "i < length (cl_muxes cl)"
  shows "fst (cl_write E i s data cl) = m_write E s (c_out (cl_cst cl) s) data"
    and "cl_ok (snd (cl_write E i s data cl))"
    and "silent (if m_write E s (c_out (cl_cst cl) s) data = None then wrote s data cl else cl)
      (snd (cl_write E i s data cl))"
proof -
  let ?now = "m_now E (c_tick (cl_cst cl))"
  let ?m = "cl_muxes cl ! i"
  obtain b m1 where g: "GetBatcher ?now s ?m = (b, m1)" by (cases "GetBatcher ?now s ?m")
  have m: "mux_ok ?m" using assms by (simp add: cl_ok_def)
  then have b: "bt_buf b = []" and m1: "mux_ok m1" and bal: "mx_balancer m1 = mx_balancer ?m"
    using g GetBatcher_ok [OF m, of ?now s] by simp_all
  let ?m2 = "m1\<lparr>mx_batchers := (mx_batchers m1)(s \<mapsto> b\<lparr>bt_lastFlush := ?now\<rparr>)\<rparr>"
  let ?w = "stream_write E s (c_out (cl_cst cl) s) data"
  let ?cl1 = "cl\<lparr>cl_muxes := (cl_muxes cl)[i := ?m2]\<rparr>"
  have eq: "cl_write E i s data cl = (snd ?w,
      cl_upd (\<lambda>st. st\<lparr>c_out := (c_out st)(s := fst ?w), c_tick := c_tick st + 1\<rparr>) ?cl1)"
    by (simp add: cl_write_def g Batcher_Write_empty [OF b] Let_def cl_upd_def)
  have "mux_ok ?m2" using m1 b by (auto simp: mux_ok_def)
  moreover have "streams (mx_balancer ?m2) = streams (mx_balancer ?m)" by (simp add: bal)
  ultimately have up: "cl_ok ?cl1" "silent cl ?cl1" by (rule mux_update_ok [OF assms])+
  show "fst (cl_write E i s data cl) = m_write E s (c_out (cl_cst cl) s) data"
    by (simp add: eq stream_write_def split: option.splits)
  show "cl_ok (snd (cl_write E i s data cl))"
    using up(1) by (simp add: eq cl_ok_def)
  show "silent (if m_write E s (c_out (cl_cst cl) s) data = None then wrote s data cl else cl)
      (snd (cl_write E i s data cl))"
    using up(2) by (auto simp: eq silent_def waiting_def wrote_def stream_write_def split: option.splits)
qed

lemma cl_GetStream_ok:
  assumes "cl_ok cl" and "i < length (cl_muxes cl)"
  shows "cl_ok (snd (cl_GetStream i cl))" and "silent cl (snd (cl_GetStream i cl))"
proof -
  let ?m = "cl_muxes cl ! i"
  let ?m' = "?m\<lparr>mx_balancer := snd (Balancer_GetStream (mx_balancer ?m))\<rparr>"
  have "streams (snd (Balancer_GetStream b)) = streams b" for b :: "'b balancer"
    by (simp add: Balancer_GetStream_def GetStream_from_def)
  then have "streams (mx_balancer ?m') = streams (mx_balancer ?m)" by simp
  moreover have "mux_ok ?m" using assms by (simp add: cl_ok_def)
  then have "mux_ok ?m'" by (simp add: mux_ok_def)
  ultimately show "cl_ok (snd (cl_GetStream i cl))" and "silent cl (snd (cl_GetStream i cl))"
    using mux_update_ok [OF assms, of ?m']
    by (simp_all add: cl_GetStream_def Multiplexer_GetStream_def case_prod_unfold Let_def)
qed

lemma set_deadline_ok:
  assumes "cl_ok cl"
  shows "cl_ok (snd (set_deadline E s cl))" and "silent cl (snd (set_deadline E s cl))"
  using assms by (simp_all add: set_deadline_def silent_def waiting_def)

text \<open>The code after the encoder, when nothing fails: the frame goes to the stream whose turn it is.\<close>

lemma transmit_ok:
  assumes ok: "cl_ok cl" and route: "next_route cl i s" and dl: "\<And>t. m_deadline E s t = None"
    and wr: "m_write E s (c_out (cl_cst cl) s) data = None"
  obtains cl1 cl2 cl3 cl4 where "getMultiplexor cl = (Ok i, cl1)" and "cl_GetStream i cl1 = (Ok s, cl2)"
    and "set_deadline E s cl2 = (None, cl3)" and "cl_write E i s data cl3 = (None, cl4)"
    and "cl_ok cl4" and "silent (wrote s data cl) cl4"
proof -
  let ?cl1 = "cl\<lparr>cl_counter := cl_counter cl + 1\<rparr>"
  let ?cl2 = "snd (cl_GetStream i ?cl1)" and ?b = "mx_balancer (cl_muxes cl ! i)"
  let ?cl3 = "snd (set_deadline E s ?cl2)"
  have i: "i < length (cl_muxes cl)" using route by (simp add: next_route_def)
  have 1: "getMultiplexor cl = (Ok i, ?cl1)"
    using route by (simp add: next_route_def getMultiplexor_ok)
  have "Balancer_GetStream ?b = (Ok s, ?b\<lparr>counter := counter ?b + 1\<rparr>)"
    using route unfolding next_route_def Balancer_GetStream_def Let_def
    by (subst GetStream_from_Ok) auto
  then have 2: "cl_GetStream i ?cl1 = (Ok s, ?cl2)"
    by (simp add: cl_GetStream_def Multiplexer_GetStream_def case_prod_unfold Let_def)
  have ok1: "cl_ok ?cl1" "silent cl ?cl1" using ok by (simp_all add: silent_def waiting_def)
  have ok2: "cl_ok ?cl2" "silent ?cl1 ?cl2" using cl_GetStream_ok [of ?cl1 i] ok i by simp_all
  have 3: "set_deadline E s ?cl2 = (None, ?cl3)" by (simp add: set_deadline_def dl)
  have ok3: "cl_ok ?cl3" "silent ?cl2 ?cl3" using set_deadline_ok [OF ok2(1)] by auto
  have s3: "silent cl ?cl3" using ok1(2) ok2(2) ok3(2) by (blast intro: silent_trans)
  have i3: "i < length (cl_muxes ?cl3)" using s3 i by (auto simp: silent_def dest: map_eq_imp_length_eq)
  have wr3: "m_write E s (c_out (cl_cst ?cl3) s) data = None" using s3 wr by (simp add: silent_def)
  note w = cl_write_ok [OF ok3(1) i3, of E s data, unfolded wr3]
  have "silent (wrote s data cl) (wrote s data ?cl3)"
    using s3 by (simp add: silent_def wrote_def waiting_def)
  also have "silent (wrote s data ?cl3) (snd (cl_write E i s data ?cl3))" using w(3) by simp
  finally have "silent (wrote s data cl) (snd (cl_write E i s data ?cl3))" .
  with that [OF 1 2 3] w show thesis by (metis prod.collapse)
qed

context client_stack
begin

text \<open>Encoding a message of the client.\<close>

lemma cl_encode_ok:
  assumes ok: "cl_ok cl" and wf: "wf_request m"
    and enc: "encode = EncodeRequest \<and> w = request_wire \<or> encode = EncodeEvent \<and> w = event_wire"
  obtains b cl' where "cl_encode encode E m cl = (Ok b, cl')" and "Buffer_Bytes b = w (m_zstd E) m"
    and "defaultBufSize \<le> buf_cap b" and "cl_ok cl'" and "silent cl cl'"
    and "cl_muxes cl' = cl_muxes cl" and "cl_counter cl' = cl_counter cl"
proof -
  let ?st = "cl_cst cl" and ?g = "getBuffer (m_pick E (c_tick (cl_cst cl))) (headerSize + length (enc_request m)) (c_buffers (cl_cst cl))"
  have bf: "bf_pool.pool_ok (c_buffers ?st)" using ok by (simp add: cl_ok_def c_ok_def)
  have "\<exists>b. encode (m_ph E) (m_zstd E) (m_pick E (c_tick ?st)) (c_buffers ?st) m = (Ok b, snd ?g) \<and>
      Buffer_Bytes b = w (m_zstd E) m \<and> buf_cap b = buf_cap (fst ?g)"
    using enc
  proof
    assume e: "encode = EncodeRequest \<and> w = request_wire"
    show ?thesis
      using rq_frame.encode_wire [OF wf, of "m_pick E (c_tick ?st)" "c_buffers ?st"]
      by (simp add: e EncodeRequest_def request_wire_def)
  next
    assume e: "encode = EncodeEvent \<and> w = event_wire"
    show ?thesis
      using ev_frame.encode_wire [OF wf, of "m_pick E (c_tick ?st)" "c_buffers ?st"]
      by (simp add: e EncodeEvent_def event_wire_def)
  qed
  then obtain b where b: "encode (m_ph E) (m_zstd E) (m_pick E (c_tick ?st)) (c_buffers ?st) m = (Ok b, snd ?g)"
    "Buffer_Bytes b = w (m_zstd E) m" "buf_cap b = buf_cap (fst ?g)" by blast
  show thesis
  proof (rule that)
    show "cl_encode encode E m cl =
        (Ok b, cl\<lparr>cl_cst := ?st\<lparr>c_buffers := snd ?g, c_tick := c_tick ?st + 1\<rparr>\<rparr>)"
      by (simp add: cl_encode_def b(1) Let_def)
    show "cl_ok (cl\<lparr>cl_cst := ?st\<lparr>c_buffers := snd ?g, c_tick := c_tick ?st + 1\<rparr>\<rparr>)"
      using ok getBuffer_ok(1) [OF bf] by (simp add: cl_ok_def c_ok_def)
  qed (use b getBuffer_ok(2) [OF bf] in \<open>simp_all add: silent_def waiting_def\<close>)
qed

text \<open>
  A request that is sent: its channel is registered under its id and its frame is written to the
  stream whose turn it is; nothing else changes.
\<close>

lemma sendRequestInternal_ok:
  assumes ok: "cl_ok cl" and open_: "\<not> cl_closed cl" and id: "rq_RequestId m \<noteq> 0" and m: "request_ok m"
    and route: "next_route cl i s" and dl: "\<And>t. m_deadline E s t = None"
    and wr: "m_write E s (c_out (cl_cst cl) s) (request_wire (m_zstd E) m) = None"
  shows "\<exists>cl'. sendRequestInternal E m cl = (Ok (fst (getChan E cl)), cl') \<and> cl_ok cl' \<and>
    silent (wrote s (request_wire (m_zstd E) m)
      (chans_Store (rq_RequestId m) (fst (getChan E cl)) (snd (getChan E cl)))) cl'"
proof -
  let ?ch = "fst (getChan E cl)" and ?cl1 = "snd (getChan E cl)"
  let ?cl2 = "chans_Store (rq_RequestId m) ?ch ?cl1"
  have ok2: "cl_ok ?cl2" by (intro cl_ok_Store getChan_ok ok)
  obtain b cl3 where b: "cl_encode EncodeRequest E m ?cl2 = (Ok b, cl3)"
      "Buffer_Bytes b = request_wire (m_zstd E) m" "defaultBufSize \<le> buf_cap b"
    and ok3: "cl_ok cl3" "silent ?cl2 cl3" "cl_muxes cl3 = cl_muxes ?cl2" "cl_counter cl3 = cl_counter ?cl2"
    by (rule cl_encode_ok [where encode = EncodeRequest and w = request_wire, OF ok2 request_ok_wf [OF m]]) auto
  let ?cl4 = "cl_upd (c_ReleaseRequest m) cl3"
  have ok4: "cl_ok ?cl4" "silent cl3 ?cl4" by (rule release_request_ok [OF ok3(1)])+
  have s4: "silent ?cl2 ?cl4" using ok3(2) ok4(2) by (rule silent_trans)
  have route4: "next_route ?cl4 i s"
    using route ok3(3,4) getChan_ok(7,8) [OF ok, of E] next_route_cong [of ?cl4 cl]
    by (simp add: chans_Store_def)
  have wr4: "m_write E s (c_out (cl_cst ?cl4) s) (Buffer_Bytes b) = None"
    using wr s4 getChan_ok(4) [OF ok] b(2) by (simp add: silent_def chans_Store_def)
  obtain cl5 cl6 cl7 cl8 where t: "getMultiplexor ?cl4 = (Ok i, cl5)" "cl_GetStream i cl5 = (Ok s, cl6)"
    "set_deadline E s cl6 = (None, cl7)" "cl_write E i s (Buffer_Bytes b) cl7 = (None, cl8)"
    and ok8: "cl_ok cl8" "silent (wrote s (Buffer_Bytes b) ?cl4) cl8"
    by (rule transmit_ok [OF ok4(1) route4 dl wr4]) blast
  have eq: "sendRequestInternal E m cl = (Ok ?ch, release_buffer b cl8)"
    using open_ id b(1) t by (simp add: sendRequestInternal_def assign_id_def case_prod_unfold Let_def)
  have "silent (wrote s (request_wire (m_zstd E) m) ?cl2) (wrote s (Buffer_Bytes b) ?cl4)"
    using s4 b(2) by (simp add: silent_def wrote_def waiting_def)
  also note ok8(2)
  also have "silent cl8 (release_buffer b cl8)" by (rule release_buffer_ok(2) [OF ok8(1) b(3)])
  finally show ?thesis using eq release_buffer_ok(1) [OF ok8(1) b(3)] by auto
qed

lemma sendEventInternal_ok:
  assumes ok: "cl_ok cl" and open_: "\<not> cl_closed cl" and m: "request_ok (m\<lparr>rq_RequestId := 0\<rparr>)"
    and route: "next_route cl i s" and dl: "\<And>t. m_deadline E s t = None"
    and wr: "m_write E s (c_out (cl_cst cl) s) (event_wire (m_zstd E) (m\<lparr>rq_RequestId := 0\<rparr>)) = None"
  shows "\<exists>cl'. sendEventInternal E m cl = (Ok (), cl') \<and> cl_ok cl' \<and>
    silent (wrote s (event_wire (m_zstd E) (m\<lparr>rq_RequestId := 0\<rparr>)) cl) cl'"
proof -
  let ?m = "m\<lparr>rq_RequestId := 0\<rparr>"
  obtain b cl3 where b: "cl_encode EncodeEvent E ?m cl = (Ok b, cl3)"
      "Buffer_Bytes b = event_wire (m_zstd E) ?m" "defaultBufSize \<le> buf_cap b"
    and ok3: "cl_ok cl3" "silent cl cl3" "cl_muxes cl3 = cl_muxes cl" "cl_counter cl3 = cl_counter cl"
    by (rule cl_encode_ok [where encode = EncodeEvent and w = event_wire, OF ok request_ok_wf [OF m]]) auto
  let ?cl4 = "cl_upd (c_ReleaseRequest ?m) cl3"
  have ok4: "cl_ok ?cl4" "silent cl3 ?cl4" by (rule release_request_ok [OF ok3(1)])+
  have s4: "silent cl ?cl4" using ok3(2) ok4(2) by (rule silent_trans)
  have route4: "next_route ?cl4 i s" using route ok3(3,4) next_route_cong [of ?cl4 cl] by simp
  have wr4: "m_write E s (c_out (cl_cst ?cl4) s) (Buffer_Bytes b) = None"
    using wr s4 b(2) by (simp add: silent_def)
  obtain cl5 cl6 cl7 cl8 where t: "getMultiplexor ?cl4 = (Ok i, cl5)" "cl_GetStream i cl5 = (Ok s, cl6)"
    "set_deadline E s cl6 = (None, cl7)" "cl_write E i s (Buffer_Bytes b) cl7 = (None, cl8)"
    and ok8: "cl_ok cl8" "silent (wrote s (Buffer_Bytes b) ?cl4) cl8"
    by (rule transmit_ok [OF ok4(1) route4 dl wr4]) blast
  have eq: "sendEventInternal E m cl = (Ok (), release_buffer b cl8)"
    using open_ b(1) t by (simp add: sendEventInternal_def case_prod_unfold Let_def)
  have "silent (wrote s (event_wire (m_zstd E) ?m) cl) (wrote s (Buffer_Bytes b) ?cl4)"
    using s4 b(2) by (simp add: silent_def wrote_def waiting_def)
  also note ok8(2)
  also have "silent cl8 (release_buffer b cl8)" by (rule release_buffer_ok(2) [OF ok8(1) b(3)])
  finally show ?thesis using eq release_buffer_ok(1) [OF ok8(1) b(3)] by auto
qed

text \<open>
  What every error branch after the registration leaves: \<open>Delete\<close> gets the id of the message that
  was released before, which is 0.
\<close>

lemma failed_state:
  assumes "cl_ok cl'" and "silent (chans_Store key ch cl) cl'" and "cl_ok cl" and "key \<noteq> 0"
  shows "waiting (putChan ch (chans_Delete 0 cl')) key = Some (RespChan ch)"
    and "ch \<in> set (cl_pool (putChan ch (chans_Delete 0 cl')))"
    and "cl_ok (putChan ch (chans_Delete 0 cl'))"
proof -
  have "waiting (chans_Delete 0 cl') key = Some (RespChan ch)"
    using assms by (simp add: waiting_Delete silent_def waiting_Store)
  then show "waiting (putChan ch (chans_Delete 0 cl')) key = Some (RespChan ch)"
    by (simp add: putChan_def waiting_def)
qed (use assms in \<open>simp_all add: putChan_def pool_put_def cl_ok_Delete\<close>)

lemma sendRequestInternal_err:
  assumes ok: "cl_ok cl" and open_: "\<not> cl_closed cl" and id: "rq_RequestId m \<noteq> 0" and m: "request_ok m"
    and mx: "cl_muxes cl \<noteq> []" "length (cl_muxes cl) < 2 ^ 32"
    and err: "sendRequestInternal E m cl = (Err err, cl')"
  shows "waiting cl' (rq_RequestId m) = Some (RespChan (fst (getChan E cl))) \<and>
    fst (getChan E cl) \<in> set (cl_pool cl')"
proof -
  let ?ch = "fst (getChan E cl)" and ?cl1 = "snd (getChan E cl)"
  let ?cl2 = "chans_Store (rq_RequestId m) ?ch ?cl1"
  have ok1: "cl_ok ?cl1" by (intro getChan_ok ok)
  have ok2: "cl_ok ?cl2" by (intro cl_ok_Store ok1)
  obtain b cl3 where b: "cl_encode EncodeRequest E m ?cl2 = (Ok b, cl3)" "defaultBufSize \<le> buf_cap b"
    and ok3: "cl_ok cl3" "silent ?cl2 cl3" "cl_muxes cl3 = cl_muxes ?cl2" "cl_counter cl3 = cl_counter ?cl2"
    by (rule cl_encode_ok [where encode = EncodeRequest and w = request_wire, OF ok2 request_ok_wf [OF m]]) auto
  let ?cl4 = "cl_upd (c_ReleaseRequest m) cl3"
  have mx4: "cl_muxes ?cl4 = cl_muxes cl" using ok3(3) getChan_ok(7) [OF ok] by (simp add: chans_Store_def)
  let ?i = "unat (cl_counter ?cl4) mod length (cl_muxes ?cl4)"
  let ?cl5 = "?cl4\<lparr>cl_counter := cl_counter ?cl4 + 1\<rparr>"
  let ?cl6 = "snd (cl_GetStream ?i ?cl5)"
  have g: "getMultiplexor ?cl4 = (Ok ?i, ?cl5)" using mx mx4 by (intro getMultiplexor_ok) simp_all
  have i5: "?i < length (cl_muxes ?cl5)" using mx(1) mx4 by simp
  have ok5: "cl_ok ?cl5" "silent ?cl2 ?cl5"
    using release_request_ok [OF ok3(1), of m] ok3(2)
    by (simp_all add: silent_def waiting_def)
  have ok6: "cl_ok ?cl6" "silent ?cl2 ?cl6"
    using cl_GetStream_ok [OF ok5(1) i5] ok5(2) silent_trans by blast+
  have eq: "sendRequestInternal E m cl =
      on_call (fst (cl_GetStream ?i ?cl5)) ?cl6 (\<lambda>err. (Err err, putChan ?ch (chans_Delete 0 ?cl6)))
        (\<lambda>s. let (err, cl) = set_deadline E s ?cl6
              in case err of
                   Some err \<Rightarrow> (Err err, release_buffer b (putChan ?ch (chans_Delete 0 cl)))
                 | None \<Rightarrow>
                     let (err, cl) = cl_write E ?i s (Buffer_Bytes b) cl; cl = release_buffer b cl
                     in case err of
                          Some err \<Rightarrow> (Err err, putChan ?ch (chans_Delete 0 cl))
                        | None \<Rightarrow> (Ok ?ch, cl))"
    using open_ id b(1) g
    by (simp add: sendRequestInternal_def assign_id_def case_prod_unfold Let_def Request_zero_def
        cong: option.case_cong)
  show ?thesis
  proof (cases "fst (cl_GetStream ?i ?cl5)")
    case (Ok s)
    let ?cl7 = "snd (set_deadline E s ?cl6)"
    have ok7: "cl_ok ?cl7" "silent ?cl2 ?cl7"
      using set_deadline_ok [OF ok6(1)] ok6(2) silent_trans by blast+
    have i7: "?i < length (cl_muxes ?cl7)"
      using ok7(2) i5 ok5(2) by (auto simp: silent_def dest!: map_eq_imp_length_eq)
    show ?thesis
    proof (cases "fst (set_deadline E s ?cl6)")
      case (Some e)
      then show ?thesis
        using err Ok failed_state [OF ok7 ok1 id] by (auto simp: eq case_prod_unfold Let_def)
    next
      case None
      let ?w = "cl_write E ?i s (Buffer_Bytes b) ?cl7"
      obtain e where e: "fst ?w = Some e"
        using err Ok None by (cases "fst ?w") (auto simp: eq case_prod_unfold Let_def)
      have "cl_ok (snd ?w)" "silent ?cl7 (snd ?w)"
        using cl_write_ok [OF ok7(1) i7, of E s "Buffer_Bytes b"] e by auto
      then have "cl_ok (release_buffer b (snd ?w))" "silent ?cl2 (release_buffer b (snd ?w))"
        using release_buffer_ok [of "snd ?w" b] b(2) ok7(2) silent_trans by blast+
      from failed_state [OF this ok1 id] err Ok None e show ?thesis
        by (auto simp: eq case_prod_unfold Let_def)
    qed
  next
    case (Err e)
    with err failed_state [OF ok6 ok1 id] show ?thesis by (auto simp: eq)
  qed (use err in \<open>simp_all add: eq\<close>)
qed

text \<open>With no stream open yet, sending fails.\<close>

lemma sendRequestInternal_no_stream:
  assumes ok: "cl_ok cl" and open_: "\<not> cl_closed cl" and id: "rq_RequestId m \<noteq> 0" and m: "request_ok m"
    and mx: "cl_muxes cl \<noteq> []" "length (cl_muxes cl) < 2 ^ 32"
    and empty: "\<forall>mx \<in> set (cl_muxes cl). streams (mx_balancer mx) = []"
  shows "fst (sendRequestInternal E m cl) = Err StreamsListIsEmpty"
proof -
  let ?cl2 = "chans_Store (rq_RequestId m) (fst (getChan E cl)) (snd (getChan E cl))"
  have ok2: "cl_ok ?cl2" by (intro cl_ok_Store getChan_ok ok)
  obtain b cl3 where b: "cl_encode EncodeRequest E m ?cl2 = (Ok b, cl3)" "cl_muxes cl3 = cl_muxes ?cl2"
    by (rule cl_encode_ok [where encode = EncodeRequest and w = request_wire, OF ok2 request_ok_wf [OF m]]) auto
  let ?cl4 = "cl_upd (c_ReleaseRequest m) cl3"
  have mx4: "cl_muxes ?cl4 = cl_muxes cl" using b(2) getChan_ok(7) [OF ok] by (simp add: chans_Store_def)
  then have "getMultiplexor ?cl4 = (Ok (unat (cl_counter ?cl4) mod length (cl_muxes cl)),
      ?cl4\<lparr>cl_counter := cl_counter ?cl4 + 1\<rparr>)" using mx getMultiplexor_ok [of ?cl4] by simp
  moreover have "fst (cl_GetStream (k mod length (cl_muxes cl)) (?cl4\<lparr>cl_counter := c\<rparr>)) = Err StreamsListIsEmpty" for k c
    using mx4 mx(1) empty
    by (simp add: cl_GetStream_def Multiplexer_GetStream_def Balancer_GetStream_def GetStream_from_def
        case_prod_unfold Let_def)
  ultimately show ?thesis
    using open_ id b(1) by (simp add: sendRequestInternal_def assign_id_def case_prod_unfold Let_def)
qed

text \<open>\<open>SendRequest\<close> up to the wait.\<close>

lemma SendRequest_begin_ok:
  assumes ok: "cl_ok cl" and open_: "\<not> cl_closed cl"
    and impl: "ri_req impl = Some m" "ri_locals impl = Some l"
    and m': "m' = fst (assign_id E m cl)" "rq_RequestId m' \<noteq> 0" "request_ok m'"
    and route: "next_route cl i s" and dl: "\<And>t. m_deadline E s t = None"
    and wr: "m_write E s (c_out (cl_cst cl) s) (request_wire (m_zstd E) m') = None"
  shows "\<exists>ch cl'. SendRequest_begin E impl cl = (Ok (ch, rq_RequestId m'), cl') \<and> cl_ok cl' \<and>
    ch = fst (getChan E (snd (assign_id E m cl))) \<and>
    cl_pool cl' = cl_pool (snd (getChan E (snd (assign_id E m cl)))) \<and>
    cl_next cl' = cl_next (snd (getChan E (snd (assign_id E m cl)))) \<and>
    waiting cl' = (waiting cl)(rq_RequestId m' \<mapsto> RespChan ch) \<and>
    c_chans (cl_cst cl') = c_chans (cl_cst cl) \<and>
    c_out (cl_cst cl') = (c_out (cl_cst cl))(s := c_out (cl_cst cl) s @ [request_wire (m_zstd E) m']) \<and>
    cl_closed cl' = cl_closed cl \<and> cl_pending cl' = cl_pending cl + 1"
proof -
  let ?cl0 = "snd (assign_id E m cl)"
  have ok0: "cl_ok ?cl0" "silent cl ?cl0" using assign_id_ok [OF ok] by auto
  have r0: "cl_muxes ?cl0 = cl_muxes cl" "cl_counter ?cl0 = cl_counter cl"
    by (simp_all add: assign_id_def cl_rand_def)
  let ?ch = "fst (getChan E ?cl0)" and ?cl1 = "snd (getChan E ?cl0)"
  have "\<exists>cl2. sendRequestInternal E m' ?cl0 = (Ok ?ch, cl2) \<and> cl_ok cl2 \<and>
      silent (wrote s (request_wire (m_zstd E) m') (chans_Store (rq_RequestId m') ?ch ?cl1)) cl2"
    using ok0 open_ m' route r0 next_route_cong [OF r0] dl wr
    by (intro sendRequestInternal_ok) (simp_all add: silent_def)
  then obtain cl2 where s2: "sendRequestInternal E m' ?cl0 = (Ok ?ch, cl2)" "cl_ok cl2"
    "silent (wrote s (request_wire (m_zstd E) m') (chans_Store (rq_RequestId m') ?ch ?cl1)) cl2" by blast
  obtain cl3 where r: "Client_ReleaseRequest impl cl2 = (Ok (), cl3)" "cl_ok cl3" "silent cl2 cl3"
    by (rule Client_ReleaseRequest_ok [OF s2(2) impl(2)])
  have eq: "SendRequest_begin E impl cl = (Ok (?ch, rq_RequestId m'), cl3\<lparr>cl_pending := cl_pending cl3 + 1\<rparr>)"
    using s2(1) r(1)
    by (simp add: SendRequest_begin_def Request_Req_def impl m'(1) release_after_def case_prod_unfold Let_def)
  have sil: "silent (wrote s (request_wire (m_zstd E) m') (chans_Store (rq_RequestId m') ?ch ?cl1)) cl3"
    using s2(3) r(3) by (rule silent_trans)
  have st: "waiting (chans_Store (rq_RequestId m') ?ch ?cl1) = (waiting cl)(rq_RequestId m' \<mapsto> RespChan ?ch)"
    using waiting_Store [OF getChan_ok(1) [OF ok0(1)]] getChan_ok(2) [OF ok0(1)] ok0(2) by (simp add: silent_def)
  have w3: "waiting cl3 = (waiting cl)(rq_RequestId m' \<mapsto> RespChan ?ch)"
    using sil st by (simp add: silent_def wrote_def waiting_def)
  show ?thesis
    unfolding eq using r(2) w3 sil ok0(2) getChan_ok(3-6) [OF ok0(1), of E]
    by (simp add: silent_def wrote_def chans_Store_def waiting_def)
qed

end

lemma getChan_source: "fst (getChan E cl) \<in> set (cl_pool cl) \<or> fst (getChan E cl) = cl_next cl"
  by (simp add: getChan_def case_prod_unfold Let_def pool_get_def)

lemma dial_all_ok: "dial_all (length cs) (map Inr cs @ rest) conns = Some ([], Inr (conns @ cs))"
  by (induction cs arbitrary: conns) auto

lemma dial_all_err:
  "length cs < n \<Longrightarrow> dial_all n (map Inr cs @ Inl err # rest) conns = Some (conns @ cs, Inl err)"
proof (induction cs arbitrary: n conns)
  case Nil
  then show ?case by (cases n) auto
next
  case (Cons c cs)
  then show ?case by (cases n) auto
qed

lemma refused_ok:
  assumes "cl_ok cl" and "ri_locals impl = Some l"
  shows "\<exists>cl'. release_after (Err e) impl cl = (Err e, cl') \<and> cl_ok cl' \<and> silent cl cl'"
  using Client_ReleaseRequest_ok [OF assms] by (fastforce simp: release_after_def)

section \<open>Properties\<close>

text \<open>
  C13. \<open>SendRequest\<close> up to its wait: the request gets an id, a channel of the pool or a new one is
  registered under that id, exactly one frame, the request's, is written to the stream whose turn
  it is, no other stream and no other waiting call is touched, and the call counts as pending.
\<close>

theorem request_sent:
  assumes "vt_helpers (m_ph E)" and "zstd_lib (m_zstd E)" and "cl_ok cl" and "\<not> cl_closed cl"
    and "ri_req impl = Some m" and "ri_locals impl = Some l"
    and "m' = fst (assign_id E m cl)" and "rq_RequestId m' \<noteq> 0" and "request_ok m'"
    and "next_route cl i s" and "\<forall>t. m_deadline E s t = None"
    and "m_write E s (c_out (cl_cst cl) s) (request_wire (m_zstd E) m') = None"
  shows "\<exists>ch cl'. SendRequest_begin E impl cl = (Ok (ch, rq_RequestId m'), cl') \<and> cl_ok cl' \<and>
    (ch \<in> set (cl_pool cl) \<or> ch = cl_next cl) \<and>
    waiting cl' = (waiting cl)(rq_RequestId m' \<mapsto> RespChan ch) \<and>
    c_chans (cl_cst cl') = c_chans (cl_cst cl) \<and>
    c_out (cl_cst cl') = (c_out (cl_cst cl))(s := c_out (cl_cst cl) s @ [request_wire (m_zstd E) m']) \<and>
    cl_pending cl' = cl_pending cl + 1"
proof -
  have "silent cl (snd (assign_id E m cl))" using assign_id_ok [OF assms(3)] by auto
  then have src: "fst (getChan E (snd (assign_id E m cl))) \<in> set (cl_pool cl) \<or>
      fst (getChan E (snd (assign_id E m cl))) = cl_next cl"
    using getChan_source [of E "snd (assign_id E m cl)"] by (simp add: silent_def)
  have "client_stack E" by (rule client_stackI [OF assms(1,2)])
  from client_stack.SendRequest_begin_ok [OF this assms(3-10)] assms(11,12) src show ?thesis by metis
qed

text \<open>A client with one connection, without streams and with two.\<close>

definition fresh_client :: "(unit, nat) client" where
  "fresh_client = newClient [()] [] [] empty_cst"

definition demo_client :: "(unit, nat) client" where
  "demo_client = fresh_client
     \<lparr>cl_muxes := [snd (snd (mux_start 2 0 [(0, Inl (OtherError ''busy'')), (1, Inr 7), (2, Inr 8)]
        (NewMultiplexer NewBalancer)))]\<rparr>"

definition demo_impl :: "unit request_impl" where
  "demo_impl = \<lparr>ri_req = Some sample_request, ri_locals = Some NewLocals\<rparr>"

lemma fresh_client_ok: "cl_ok fresh_client"
  using c_ok_empty [where ?'a = nat]
  by (simp add: fresh_client_def newClient_def cl_ok_def mux_ok_new ri_pool.pool_ok_empty
      si_pool.pool_ok_empty c_ok_def)

lemma demo_client_mux:
  "cl_muxes demo_client =
     [\<lparr>mx_balancer = \<lparr>streams = [7, 8], counter = 0\<rparr>, mx_batchers = [7 \<mapsto> NewBatcher 1, 8 \<mapsto> NewBatcher 2]\<rparr>]"
  by (simp add: demo_client_def NewMultiplexer_def NewBalancer_def Balancer_AddStream_def Let_def)

lemma demo_client_ok: "cl_ok demo_client" "\<not> cl_closed demo_client" "next_route demo_client 0 7"
proof -
  have "mux_ok \<lparr>mx_balancer = \<lparr>streams = [7, 8], counter = 0\<rparr>,
      mx_batchers = [7 \<mapsto> NewBatcher 1, 8 \<mapsto> NewBatcher 2]\<rparr>"
    by (auto simp: mux_ok_def NewBatcher_def split: if_splits)
  moreover have "cl_cst demo_client = cl_cst fresh_client" "cl_reqs demo_client = cl_reqs fresh_client"
    "cl_resps demo_client = cl_resps fresh_client" by (simp_all add: demo_client_def)
  ultimately show "cl_ok demo_client"
    using fresh_client_ok by (simp add: cl_ok_def demo_client_mux)
  show "\<not> cl_closed demo_client" by (simp add: demo_client_def fresh_client_def newClient_def)
  show "next_route demo_client 0 7" by (simp add: next_route_def demo_client_mux)
qed

lemma demo_menv_io [simp]: "m_deadline demo_menv s t = None" "m_write demo_menv s out b = None"
  by (simp_all add: demo_menv_def)

theorem request_sent_witness:
  "\<exists>ch cl'. SendRequest_begin demo_menv demo_impl demo_client = (Ok (ch, 300), cl') \<and> cl_ok cl' \<and>
    (ch \<in> set (cl_pool demo_client) \<or> ch = cl_next demo_client) \<and>
    waiting cl' = (waiting demo_client)(300 \<mapsto> RespChan ch) \<and>
    c_chans (cl_cst cl') = c_chans (cl_cst demo_client) \<and>
    c_out (cl_cst cl') = (c_out (cl_cst demo_client))
      (7 := c_out (cl_cst demo_client) 7 @ [request_wire ref_zstd sample_request]) \<and>
    cl_pending cl' = cl_pending demo_client + 1"
proof -
  have id: "rq_RequestId sample_request = 300" by (simp add: sample_request_def)
  then have m: "sample_request = fst (assign_id demo_menv sample_request demo_client)"
    by (simp add: assign_id_def)
  show ?thesis
    using request_sent [of demo_menv demo_client demo_impl sample_request NewLocals sample_request 0 7]
      demo_client_ok sample_request_ok id m
    by (simp add: ref.vt_helpers_axioms ref_z.zstd_lib_axioms demo_impl_def)
qed

text \<open>
  C32. \<open>SendEvent\<close> writes exactly one frame, the event with request id 0, to the stream whose turn
  it is; no call waits for it.
\<close>

theorem event_sent:
  assumes "vt_helpers (m_ph E)" and "zstd_lib (m_zstd E)" and "cl_ok cl" and "\<not> cl_closed cl"
    and "ri_req impl = Some m" and "ri_locals impl = Some l" and "request_ok (m\<lparr>rq_RequestId := 0\<rparr>)"
    and "next_route cl i s" and "\<forall>t. m_deadline E s t = None"
    and "m_write E s (c_out (cl_cst cl) s) (event_wire (m_zstd E) (m\<lparr>rq_RequestId := 0\<rparr>)) = None"
  shows "\<exists>cl'. SendEvent E impl cl = (Ok (), cl') \<and> cl_ok cl' \<and> waiting cl' = waiting cl \<and>
    cl_pool cl' = cl_pool cl \<and> cl_pending cl' = cl_pending cl \<and>
    c_out (cl_cst cl') = (c_out (cl_cst cl))
      (s := c_out (cl_cst cl) s @ [event_wire (m_zstd E) (m\<lparr>rq_RequestId := 0\<rparr>)])"
proof -
  have E: "client_stack E" by (rule client_stackI [OF assms(1,2)])
  obtain cl2 where s2: "sendEventInternal E m cl = (Ok (), cl2)" "cl_ok cl2"
    "silent (wrote s (event_wire (m_zstd E) (m\<lparr>rq_RequestId := 0\<rparr>)) cl) cl2"
    using client_stack.sendEventInternal_ok [OF E assms(3,4,7,8)] assms(9,10) by blast
  obtain cl3 where r: "Client_ReleaseRequest impl cl2 = (Ok (), cl3)" "cl_ok cl3" "silent cl2 cl3"
    by (rule Client_ReleaseRequest_ok [OF s2(2) assms(6)])
  have "SendEvent E impl cl = (Ok (), cl3)"
    using s2(1) r(1) by (simp add: SendEvent_def Request_Req_def assms(5) release_after_def)
  then show ?thesis
    using r(2) silent_trans [OF s2(3) r(3)] by (simp add: silent_def wrote_def waiting_def)
qed

theorem event_sent_witness:
  "\<exists>cl'. SendEvent demo_menv demo_impl demo_client = (Ok (), cl') \<and> cl_ok cl' \<and>
    waiting cl' = waiting demo_client \<and> cl_pool cl' = cl_pool demo_client \<and>
    cl_pending cl' = cl_pending demo_client \<and>
    c_out (cl_cst cl') = (c_out (cl_cst demo_client))
      (7 := c_out (cl_cst demo_client) 7 @ [event_wire ref_zstd (sample_request\<lparr>rq_RequestId := 0\<rparr>)])"
proof -
  have "request_ok (sample_request\<lparr>rq_RequestId := 0\<rparr>)"
    by (simp add: sample_request_def request_ok_def enc_request_def enc_headers_def enc_opt_bytes_def
        enc_opt_varint_def enc_bytes_def venc.simps)
  then show ?thesis
    using event_sent [of demo_menv demo_client demo_impl sample_request NewLocals 0 7] demo_client_ok
    by (simp add: ref.vt_helpers_axioms ref_z.zstd_lib_axioms demo_impl_def)
qed

text \<open>
  C24. Whatever makes sending a request fail after its channel was registered (no stream is open yet,
  the deadline cannot be set, the write fails), the call stays registered although its channel goes
  back to the pool: every error branch deletes the id of the message that was released before, and
  releasing set that id to 0.
\<close>

theorem failed_send_leaks_call:
  assumes "vt_helpers (m_ph E)" and "zstd_lib (m_zstd E)" and "cl_ok cl" and "\<not> cl_closed cl"
    and "rq_RequestId m \<noteq> 0" and "request_ok m" and "cl_muxes cl \<noteq> []" and "length (cl_muxes cl) < 2 ^ 32"
    and "sendRequestInternal E m cl = (Err err, cl')"
  shows "\<exists>ch. waiting cl' (rq_RequestId m) = Some (RespChan ch) \<and> ch \<in> set (cl_pool cl')"
  using client_stack.sendRequestInternal_err [OF client_stackI [OF assms(1,2)] assms(3-9)] by blast

theorem failed_send_leaks_call_witness:
  "\<exists>ch. waiting (snd (sendRequestInternal demo_menv sample_request fresh_client)) 300 = Some (RespChan ch) \<and>
    ch \<in> set (cl_pool (snd (sendRequestInternal demo_menv sample_request fresh_client)))"
proof -
  let ?r = "sendRequestInternal demo_menv sample_request fresh_client"
  have E: "client_stack demo_menv"
    by (rule client_stackI) (simp_all add: ref.vt_helpers_axioms ref_z.zstd_lib_axioms)
  have mx: "cl_muxes fresh_client = [NewMultiplexer NewBalancer]" "\<not> cl_closed fresh_client"
    by (simp_all add: fresh_client_def newClient_def)
  have id: "rq_RequestId sample_request = 300" by (simp add: sample_request_def)
  have "fst ?r = Err StreamsListIsEmpty"
    using client_stack.sendRequestInternal_no_stream [OF E fresh_client_ok _ _ sample_request_ok]
    by (simp add: mx id NewMultiplexer_def NewBalancer_def)
  then have "?r = (Err StreamsListIsEmpty, snd ?r)" by (metis prod.collapse)
  from failed_send_leaks_call [OF _ _ fresh_client_ok _ _ sample_request_ok _ _ this] show ?thesis
    by (simp add: mx id ref.vt_helpers_axioms ref_z.zstd_lib_axioms)
qed

text \<open>
  A closed client refuses: \<open>SendRequest\<close> and \<open>SendEvent\<close> return \<open>ErrClientClosed\<close>, write
  nothing, register nothing and take no channel.
\<close>

lemma closed_client_refuses:
  assumes "cl_ok cl" and "cl_closed cl" and "ri_req impl = Some m" and "ri_locals impl = Some l"
  shows "(\<exists>cl'. SendRequest_begin E impl cl = (Err ErrClientClosed, cl') \<and> cl_ok cl' \<and> silent cl cl') \<and>
    (\<exists>cl'. SendEvent E impl cl = (Err ErrClientClosed, cl') \<and> cl_ok cl' \<and> silent cl cl')"
proof
  let ?cl0 = "snd (assign_id E m cl)"
  have ok0: "cl_ok ?cl0" "silent cl ?cl0" using assign_id_ok [OF assms(1)] by auto
  then have closed: "cl_closed ?cl0" using assms(2) by (simp add: silent_def)
  from refused_ok [OF ok0(1) assms(4), of ErrClientClosed] obtain cl' where
    r: "release_after (Err ErrClientClosed) impl ?cl0 = ((Err ErrClientClosed :: nat outcome), cl')"
      "cl_ok cl'" "silent ?cl0 cl'" by blast
  then show "\<exists>cl'. SendRequest_begin E impl cl = (Err ErrClientClosed, cl') \<and> cl_ok cl' \<and> silent cl cl'"
    using closed silent_trans [OF ok0(2)]
    by (simp add: SendRequest_begin_def Request_Req_def assms(3) sendRequestInternal_def case_prod_unfold Let_def)
  show "\<exists>cl'. SendEvent E impl cl = (Err ErrClientClosed, cl') \<and> cl_ok cl' \<and> silent cl cl'"
    using refused_ok [OF assms(1,4), of ErrClientClosed] assms(2)
    by (simp add: SendEvent_def Request_Req_def assms(3) sendEventInternal_def)
qed

lemma closed_client_refuses_demo:
  "(\<exists>cl'. SendRequest_begin demo_menv demo_impl (Close_begin demo_client) = (Err ErrClientClosed, cl') \<and>
      cl_ok cl' \<and> silent (Close_begin demo_client) cl') \<and>
    (\<exists>cl'. SendEvent demo_menv demo_impl (Close_begin demo_client) = (Err ErrClientClosed, cl') \<and>
      cl_ok cl' \<and> silent (Close_begin demo_client) cl')"
  by (rule closed_client_refuses [where m = sample_request and l = NewLocals])
    (simp_all add: Close_begin_def demo_client_ok demo_impl_def)



text \<open>
  \<open>NewClient\<close> dials at least one connection and as many as asked for; if one dial fails it
  closes every connection dialled before and returns the error.
\<close>

theorem new_client_dials:
  assumes "int (length cs) = max 1 n" and "int (length ds) < max 1 n"
  shows "NewClient n (map Inr cs @ rest) = Some ([], Inr cs) \<and>
    NewClient n (map Inr ds @ Inl err # rest) = Some (ds, Inl err)"
proof -
  have k: "nat (if n < 1 then 1 else n) = length cs" "length ds < length cs"
    using assms by (auto simp: max_def split: if_splits)
  show ?thesis
    using dial_all_ok [of cs rest "[]"] dial_all_err [OF k(2), of err rest "[]"]
    by (simp add: NewClient_def k(1) Let_def)
qed

theorem new_client_dials_witness:
  "NewClient 2 (map Inr [7, 8] @ [Inr 9]) = Some ([], Inr [7, 8 :: nat]) \<and>
   NewClient 2 (map Inr [7] @ Inl DeadlineExceeded # [Inr 9]) = Some ([7 :: nat], Inl DeadlineExceeded)"
  by (rule new_client_dials) simp_all

end
