(* ===== verification/Client_Calls.thy ===== *)
theory Client_Calls
  imports Rpc_Client
begin

text \<open>
  Concurrent calls of one client. A state is the client and the set of pending calls, each with
  its id and channel. The steps are the code's own operations, in any order: a call is sent
  (\<open>SendRequest\<close> up to its wait), a frame arrives at one of the read loops, a waiting call
  receives from its channel, and a call is cancelled because its context is done. A run is a
  sequence of steps.

  Without cancellation every call that returns a response returns the one with its own id. With
  cancellation that is not so: the last property shows how a cancelled call leaves its response in
  a channel that goes back to the pool.
\<close>

section \<open>Steps\<close>

datatype call_event =
    EvSend u64 nat
  | EvFrame byte bytes
  | EvReceive u64 nat response
  | EvCancel u64 nat go_error

text \<open>A request that can be sent now: it has an id and fits a frame, and no library call fails.\<close>

definition sendable :: "'st menv \<Rightarrow> 'a request_impl \<Rightarrow> ('a, 'st) client \<Rightarrow> request \<Rightarrow> bool" where
  "sendable E impl cl m' \<longleftrightarrow>
     (\<exists>m i s. ri_req impl = Some m \<and> ri_locals impl \<noteq> None \<and> m' = fst (assign_id E m cl) \<and>
        rq_RequestId m' \<noteq> 0 \<and> request_ok m' \<and> next_route cl i s \<and> (\<forall>t. m_deadline E s t = None) \<and>
        m_write E s (c_out (cl_cst cl) s) (request_wire (m_zstd E) m') = None)"

type_synonym ('a, 'st) calls = "('a, 'st) client \<times> (u64 \<times> nat) set"

inductive call_step :: "'st menv \<Rightarrow> ('a, 'st) calls \<Rightarrow> call_event \<Rightarrow> ('a, 'st) calls \<Rightarrow> bool"
  for E :: "'st menv" where
  send: "call_step E (cl, P) (EvSend ident ch) (cl', insert (ident, ch) P)"
    if "\<not> cl_closed cl" "sendable E impl cl m'" "SendRequest_begin E impl cl = (Ok (ch, ident), cl')"
      "ident \<notin> fst ` P"
| frame: "call_step E (cl, P) (EvFrame f p) (cl\<lparr>cl_cst := st'\<rparr>, P)"
    if "length p + 1 < 2 ^ 32" "dispatch_frame E f p (cl_cst cl) = (None, st')"
| receive: "call_step E (cl, P) (EvReceive ident ch r) (cl', P - {(ident, ch)})"
    if "(ident, ch) \<in> P" "waitResponse Received ch ident cl = Some (Ok r, cl')"
| cancel: "call_step E (cl, P) (EvCancel ident ch err) (cl', P - {(ident, ch)})"
    if "(ident, ch) \<in> P" "waitResponse (CtxDone err) ch ident cl = Some (Err err, cl')"

inductive call_run :: "'st menv \<Rightarrow> ('a, 'st) calls \<Rightarrow> call_event list \<Rightarrow> ('a, 'st) calls \<Rightarrow> bool"
  for E :: "'st menv" where
  refl: "call_run E s [] s"
| step: "call_run E s (evs @ [ev]) s''" if "call_run E s evs s'" "call_step E s' ev s''"

inductive_cases call_step_cases: "call_step E s ev s'"

text \<open>A client without calls.\<close>

definition idle :: "('a, 'st) client \<Rightarrow> bool" where
  "idle cl \<longleftrightarrow>
     cl_ok cl \<and> \<not> cl_closed cl \<and> waiting cl = Map.empty \<and> c_chans (cl_cst cl) = Map.empty \<and> cl_pool cl = []"

section \<open>Invariant\<close>

text \<open>
  Ids and channels of pending calls are unique; a registered channel belongs to the pending call
  with that id and is empty; a buffered response lies in the channel of the pending call with its
  id; channels of the pool belong to no pending call.
\<close>

definition calls_inv :: "('a, 'st) calls \<Rightarrow> bool" where
  "calls_inv = (\<lambda>(cl, P).
     cl_ok cl \<and> \<not> cl_closed cl \<and> distinct (cl_pool cl) \<and>
     (\<forall>i c c'. (i, c) \<in> P \<and> (i, c') \<in> P \<longrightarrow> c = c') \<and>
     (\<forall>i i' c. (i, c) \<in> P \<and> (i', c) \<in> P \<longrightarrow> i = i') \<and>
     (\<forall>i v. waiting cl i = Some v \<longrightarrow>
        (\<exists>c. v = RespChan c \<and> (i, c) \<in> P \<and> c_chans (cl_cst cl) c = None)) \<and>
     (\<forall>c r. c_chans (cl_cst cl) c = Some r \<longrightarrow> (rs_RequestId r, c) \<in> P) \<and>
     (\<forall>i c. (i, c) \<in> P \<longrightarrow> c \<notin> set (cl_pool cl) \<and> c < cl_next cl) \<and>
     (\<forall>c \<in> set (cl_pool cl). c < cl_next cl))"

lemma calls_invD:
  assumes "calls_inv (cl, P)"
  shows "cl_ok cl" and "\<not> cl_closed cl" and "distinct (cl_pool cl)"
    and "(i, c) \<in> P \<Longrightarrow> (i, c') \<in> P \<Longrightarrow> c = c'"
    and "(i, c) \<in> P \<Longrightarrow> (i', c) \<in> P \<Longrightarrow> i = i'"
    and "waiting cl i = Some v \<Longrightarrow> \<exists>c. v = RespChan c \<and> (i, c) \<in> P \<and> c_chans (cl_cst cl) c = None"
    and "c_chans (cl_cst cl) c = Some r \<Longrightarrow> (rs_RequestId r, c) \<in> P"
    and "(i, c) \<in> P \<Longrightarrow> c \<notin> set (cl_pool cl) \<and> c < cl_next cl"
    and "c \<in> set (cl_pool cl) \<Longrightarrow> c < cl_next cl"
  using assms unfolding calls_inv_def prod.case by blast+

lemma calls_invI:
  assumes "cl_ok cl" and "\<not> cl_closed cl" and "distinct (cl_pool cl)"
    and "\<And>i c c'. (i, c) \<in> P \<Longrightarrow> (i, c') \<in> P \<Longrightarrow> c = c'"
    and "\<And>i i' c. (i, c) \<in> P \<Longrightarrow> (i', c) \<in> P \<Longrightarrow> i = i'"
    and "\<And>i v. waiting cl i = Some v \<Longrightarrow>
      \<exists>c. v = RespChan c \<and> (i, c) \<in> P \<and> c_chans (cl_cst cl) c = None"
    and "\<And>c r. c_chans (cl_cst cl) c = Some r \<Longrightarrow> (rs_RequestId r, c) \<in> P"
    and "\<And>i c. (i, c) \<in> P \<Longrightarrow> c \<notin> set (cl_pool cl) \<and> c < cl_next cl"
    and "\<And>c. c \<in> set (cl_pool cl) \<Longrightarrow> c < cl_next cl"
  shows "calls_inv (cl, P)"
  unfolding calls_inv_def prod.case using assms by blast

lemma calls_inv_idle: "idle cl \<Longrightarrow> calls_inv (cl, {})"
  by (simp add: idle_def calls_inv_def)

lemma getChan_fresh:
  assumes "distinct (cl_pool cl)" and "\<forall>c \<in> set (cl_pool cl). c < cl_next cl"
  shows "fst (getChan E cl) \<notin> set (cl_pool (snd (getChan E cl)))"
    and "set (cl_pool (snd (getChan E cl))) \<subseteq> set (cl_pool cl)"
    and "distinct (cl_pool (snd (getChan E cl)))"
    and "fst (getChan E cl) < cl_next (snd (getChan E cl))"
    and "cl_next cl \<le> cl_next (snd (getChan E cl))"
proof -
  let ?k = "m_pick E (c_tick (cl_cst cl))" and ?p = "cl_pool cl"
  have "fst (getChan E cl) \<notin> set (cl_pool (snd (getChan E cl))) \<and>
    set (cl_pool (snd (getChan E cl))) \<subseteq> set (cl_pool cl) \<and>
    distinct (cl_pool (snd (getChan E cl))) \<and>
    fst (getChan E cl) < cl_next (snd (getChan E cl)) \<and>
    cl_next cl \<le> cl_next (snd (getChan E cl))"
  proof (cases "?k < length ?p")
    case True
    then have "?p = take ?k ?p @ ?p ! ?k # drop (Suc ?k) ?p" by (simp add: id_take_nth_drop)
    then have "distinct (take ?k ?p @ ?p ! ?k # drop (Suc ?k) ?p)" using assms(1) by simp
    moreover have "set (take ?k ?p @ drop (Suc ?k) ?p) \<subseteq> set ?p"
      by (auto dest: in_set_takeD in_set_dropD)
    ultimately show ?thesis
      using True assms(2) by (simp add: getChan_def pool_get_def Let_def)
  next
    case False
    with assms show ?thesis by (auto simp: getChan_def pool_get_def Let_def)
  qed
  then show "fst (getChan E cl) \<notin> set (cl_pool (snd (getChan E cl)))"
    and "set (cl_pool (snd (getChan E cl))) \<subseteq> set (cl_pool cl)"
    and "distinct (cl_pool (snd (getChan E cl)))"
    and "fst (getChan E cl) < cl_next (snd (getChan E cl))"
    and "cl_next cl \<le> cl_next (snd (getChan E cl))" by auto
qed

context client_stack
begin

lemma send_effect:
  assumes ok: "cl_ok cl" and open_: "\<not> cl_closed cl" and s: "sendable E impl cl m'"
    and b: "SendRequest_begin E impl cl = (Ok (ch, ident), cl')"
  obtains cl0 where "silent cl cl0" and "ident = rq_RequestId m'" and "ch = fst (getChan E cl0)"
    and "cl_ok cl'" and "\<not> cl_closed cl'"
    and "cl_pool cl' = cl_pool (snd (getChan E cl0))" and "cl_next cl' = cl_next (snd (getChan E cl0))"
    and "waiting cl' = (waiting cl)(ident \<mapsto> RespChan ch)"
    and "c_chans (cl_cst cl') = c_chans (cl_cst cl)"
proof -
  from s obtain m l i st where m: "ri_req impl = Some m" "ri_locals impl = Some l"
    "m' = fst (assign_id E m cl)" "rq_RequestId m' \<noteq> 0" "request_ok m'" "next_route cl i st"
    "\<forall>t. m_deadline E st t = None"
    "m_write E st (c_out (cl_cst cl) st) (request_wire (m_zstd E) m') = None"
    unfolding sendable_def by blast
  have "silent cl (snd (assign_id E m cl))" using assign_id_ok [OF ok] by blast
  with SendRequest_begin_ok [OF ok open_ m(1-6)] m(7,8) b open_ that show thesis by auto
qed

lemma inv_send:
  assumes inv: "calls_inv (cl, P)" and s: "sendable E impl cl m'"
    and b: "SendRequest_begin E impl cl = (Ok (ch, ident), cl')" and new: "ident \<notin> fst ` P"
  shows "calls_inv (cl', insert (ident, ch) P)"
proof -
  note I = calls_invD [OF inv]
  obtain cl0 where sil: "silent cl cl0" and ch: "ch = fst (getChan E cl0)"
    and ok': "cl_ok cl'" "\<not> cl_closed cl'"
    and pool: "cl_pool cl' = cl_pool (snd (getChan E cl0))" "cl_next cl' = cl_next (snd (getChan E cl0))"
    and w: "waiting cl' = (waiting cl)(ident \<mapsto> RespChan ch)"
    and c: "c_chans (cl_cst cl') = c_chans (cl_cst cl)"
    by (rule send_effect [OF I(1,2) s b])
  have p0: "cl_pool cl0 = cl_pool cl" "cl_next cl0 = cl_next cl" using sil by (simp_all add: silent_def)
  have "distinct (cl_pool cl0)" "\<forall>c \<in> set (cl_pool cl0). c < cl_next cl0" using I(3,9) p0 by auto
  note fresh = getChan_fresh [OF this, of E, folded ch pool, unfolded p0]
  have "ch \<in> set (cl_pool cl) \<or> ch = cl_next cl" using getChan_source [of E cl0] ch p0 by simp
  then have notP: "(i, ch) \<notin> P" for i using I(8) by blast
  then have empty: "c_chans (cl_cst cl) ch = None" using I(7) by (metis option.exhaust)
  have newP: "(ident, c) \<notin> P" for c using new by force
  show ?thesis
  proof (rule calls_invI)
    show "i = i'" if "(i, c) \<in> insert (ident, ch) P" "(i', c) \<in> insert (ident, ch) P" for i i' c
      using that I(5) notP by blast
    show "c = c'" if "(i, c) \<in> insert (ident, ch) P" "(i, c') \<in> insert (ident, ch) P" for i c c'
      using that I(4) newP by blast
    show "\<exists>c. v = RespChan c \<and> (i, c) \<in> insert (ident, ch) P \<and> c_chans (cl_cst cl') c = None"
      if "waiting cl' i = Some v" for i v
      using that I(6) [of i v] empty by (auto simp: w c split: if_splits)
    show "(rs_RequestId r, c') \<in> insert (ident, ch) P" if "c_chans (cl_cst cl') c' = Some r" for c' r
      using that I(7) by (simp add: c)
    show "c' \<notin> set (cl_pool cl') \<and> c' < cl_next cl'" if "(i, c') \<in> insert (ident, ch) P" for i c'
      using that fresh(1,2,4,5) I(8) [of i c'] by auto
    show "c' < cl_next cl'" if "c' \<in> set (cl_pool cl')" for c'
      using that fresh(2,5) I(9) [of c'] by auto
  qed (use ok' fresh(3) in simp_all)
qed

text \<open>A state in which only the view changes.\<close>

lemma inv_view:
  assumes inv: "calls_inv (cl, P)" and "c_ok st'"
    and "\<And>i v. sm_lookup (c_map st') i = Some v \<Longrightarrow> \<exists>c. v = RespChan c \<and> (i, c) \<in> P \<and> c_chans st' c = None"
    and "\<And>c r. c_chans st' c = Some r \<Longrightarrow> (rs_RequestId r, c) \<in> P"
  shows "calls_inv (cl\<lparr>cl_cst := st'\<rparr>, P)"
proof -
  note I = calls_invD [OF inv]
  have "cl_ok (cl\<lparr>cl_cst := st'\<rparr>)" using I(1) assms(2) by (simp add: cl_ok_def)
  then show ?thesis
    using I(2,3) assms(3,4) by (intro calls_invI) (auto simp: waiting_def dest: I(4,5,8,9))
qed

lemma inv_frame:
  assumes inv: "calls_inv (cl, P)" and d: "dispatch_frame E f p (cl_cst cl) = (None, st')"
    and ret: "\<And>d. Client_maybeDecompress (m_zstd E) p f = Inr d \<Longrightarrow>
      returns (Request_UnmarshalVT (m_ph E) Request_zero d) \<and>
      returns (Response_UnmarshalVT (m_ph E) Response_zero d)"
  shows "calls_inv (cl\<lparr>cl_cst := st'\<rparr>, P)"
proof -
  note I = calls_invD [OF inv]
  have ok: "c_ok (cl_cst cl)" using I(1) by (simp add: cl_ok_def)
  note W = I(6) [unfolded waiting_def]
  show ?thesis
  proof (rule dispatch_frame_cases [OF ok ret])
    fix st1
    assume "dispatch_frame E f p (cl_cst cl) = (None, st1)" "c_ok st1" "c_view st1 = c_view (cl_cst cl)"
    with d show ?thesis by (intro inv_view [OF inv]) (auto simp: c_view_def dest: W I(7))
  next
    fix st1 r
    assume st1: "dispatch_frame E f p (cl_cst cl) = (None, st1)" "c_ok st1"
      and v: "c_view st1 = deliver r (c_view (cl_cst cl))"
    let ?W = "sm_lookup (c_map (cl_cst cl))" and ?B = "c_chans (cl_cst cl)" and ?i = "rs_RequestId r"
    show ?thesis
    proof (cases "?W ?i")
      case None
      then have "c_view st1 = c_view (cl_cst cl)" using v by (simp add: deliver_def c_view_def)
      with d st1 show ?thesis by (intro inv_view [OF inv]) (auto simp: c_view_def dest: W I(7))
    next
      case (Some x)
      then obtain c where c: "x = RespChan c" "(?i, c) \<in> P" "?B c = None" using W by blast
      have v': "sm_lookup (c_map st1) = ?W(?i := None)" "c_chans st1 = ?B(c \<mapsto> r)"
        using v Some c by (simp_all add: deliver_def c_view_def)
      have ne: "c' \<noteq> c" if "(i, c') \<in> P" "i \<noteq> ?i" for i c' using that c(2) I(5) by blast
      have st: "st' = st1" using d st1(1) by simp
      show ?thesis
        unfolding st
      proof (rule inv_view [OF inv st1(2)])
        show "\<exists>c'. x = RespChan c' \<and> (i, c') \<in> P \<and> c_chans st1 c' = None"
          if "sm_lookup (c_map st1) i = Some x" for i x
          using that W [of i x] ne [of i] by (fastforce simp: v' split: if_splits)
        show "(rs_RequestId r', c') \<in> P" if "c_chans st1 c' = Some r'" for c' r'
          using that I(7) [of c' r'] c(2) by (auto simp: v' split: if_splits)
      qed
    qed
  qed (use d in simp_all)
qed

lemma inv_receive:
  assumes inv: "calls_inv (cl, P)" and P: "(ident, ch) \<in> P"
    and "waitResponse Received ch ident cl = Some (Ok r, cl')"
  shows "rs_RequestId r = ident" and "calls_inv (cl', P - {(ident, ch)})"
proof -
  note I = calls_invD [OF inv]
  have r: "c_chans (cl_cst cl) ch = Some r"
    and cl': "cl' = (putChan ch (cl_upd (\<lambda>st. st\<lparr>c_chans := (c_chans st)(ch := None)\<rparr>) cl))
      \<lparr>cl_pending := cl_pending cl - 1\<rparr>"
    using assms(3) by (auto simp: waitResponse_def putChan_def split: option.splits)
  show id: "rs_RequestId r = ident" using I(5) [OF I(7) [OF r] P] .
  have w: "waiting cl' = waiting cl" and c: "c_chans (cl_cst cl') = (c_chans (cl_cst cl))(ch := None)"
    and p: "cl_pool cl' = ch # cl_pool cl" "cl_next cl' = cl_next cl" "cl_closed cl' = cl_closed cl"
    and ok: "cl_ok cl'"
    using I(1) by (simp_all add: cl' putChan_def pool_put_def waiting_def)
  show "calls_inv (cl', P - {(ident, ch)})"
  proof (rule calls_invI)
    show "\<exists>c. v = RespChan c \<and> (i, c) \<in> P - {(ident, ch)} \<and> c_chans (cl_cst cl') c = None"
      if "waiting cl' i = Some v" for i v
      using that I(6) [of i v] r by (auto simp: w c)
    show "(rs_RequestId r', c') \<in> P - {(ident, ch)}" if "c_chans (cl_cst cl') c' = Some r'" for c' r'
      using that I(7) [of c' r'] by (auto simp: c split: if_splits)
    show "c' \<notin> set (cl_pool cl') \<and> c' < cl_next cl'" if "(i, c') \<in> P - {(ident, ch)}" for i c'
      using that I(8) [of i c'] I(5) [OF P, of i] by (auto simp: p)
    show "c' < cl_next cl'" if "c' \<in> set (cl_pool cl')" for c'
      using that I(8) [OF P] I(9) [of c'] by (auto simp: p)
  qed (use ok p I(2,3) I(8) [OF P] in \<open>auto dest: I(4,5)\<close>)
qed

text \<open>A call that is sent and answered: it can receive its response.\<close>

lemma answered_run:
  assumes inv: "calls_inv (cl, P)" and snd_: "sendable E impl cl m'" and new: "rq_RequestId m' \<notin> fst ` P"
    and r: "response_ok r" "rs_RequestId r = rq_RequestId m'"
  shows "\<exists>ch f p s'. call_run E (cl, P)
    [EvSend (rq_RequestId m') ch, EvFrame f p, EvReceive (rq_RequestId m') ch r] s'"
proof -
  note I = calls_invD [OF inv]
  obtain m l i st where "ri_req impl = Some m" "ri_locals impl = Some l"
    "m' = fst (assign_id E m cl)" "rq_RequestId m' \<noteq> 0" "request_ok m'" "next_route cl i st"
    "\<forall>t. m_deadline E st t = None" "m_write E st (c_out (cl_cst cl) st) (request_wire (m_zstd E) m') = None"
    using snd_ unfolding sendable_def by blast
  from SendRequest_begin_ok [OF I(1,2) this(1-6)] this(7,8) obtain ch cl1 where
    b: "SendRequest_begin E impl cl = (Ok (ch, rq_RequestId m'), cl1)"
    and w: "waiting cl1 = (waiting cl)(rq_RequestId m' \<mapsto> RespChan ch)" by blast
  have s1: "call_step E (cl, P) (EvSend (rq_RequestId m') ch) (cl1, insert (rq_RequestId m', ch) P)"
    by (rule send [OF I(2) snd_ b new])
  have inv1: "calls_inv (cl1, insert (rq_RequestId m', ch) P)" by (rule inv_send [OF inv snd_ b new])
  note I1 = calls_invD [OF inv1]
  have empty: "c_chans (cl_cst cl1) ch = None" using I1(6) [of "rq_RequestId m'"] w by auto
  obtain f p d where
    rd: "read_frame True \<lparr>in_bytes = response_wire (m_zstd E) r @ [], in_err = ErrEOF\<rparr> =
      (Inr (f, p), \<lparr>in_bytes = [], in_err = ErrEOF\<rparr>)"
    and f: "f = RESPONSE_FLAG \<or> f = RESPONSE_ZSTD_FLAG"
    and d: "Client_maybeDecompress (m_zstd E) p f = Inr d"
      "Response_UnmarshalVT (m_ph E) Response_zero d = Ok r"
    by (rule response_frame [OF r(1)]) blast
  have len: "length p + 1 < 2 ^ 32" using read_frame_Inr [OF rd] by simp
  have "c_ok (cl_cst cl1)" using I1(1) by (simp add: cl_ok_def)
  from dispatch_response_delivers [OF this d] obtain st' where
    st': "dispatch_frame E f p (cl_cst cl1) = (None, st')"
    and v: "c_view st' = deliver r (c_view (cl_cst cl1))"
    using f by (auto simp: dispatch_frame_def)
  have "c_chans st' ch = Some r"
    using v w empty r(2) by (simp add: c_view_def deliver_def waiting_def)
  then obtain cl2 where "waitResponse Received ch (rq_RequestId m') (cl1\<lparr>cl_cst := st'\<rparr>) = Some (Ok r, cl2)"
    by (simp add: waitResponse_def)
  from receive [OF _ this] have s3: "call_step E (cl1\<lparr>cl_cst := st'\<rparr>, insert (rq_RequestId m', ch) P)
      (EvReceive (rq_RequestId m') ch r) (cl2, insert (rq_RequestId m', ch) P - {(rq_RequestId m', ch)})"
    by blast
  have "call_run E (cl, P) ((([] @ [EvSend (rq_RequestId m') ch]) @ [EvFrame f p]) @
      [EvReceive (rq_RequestId m') ch r]) (cl2, insert (rq_RequestId m', ch) P - {(rq_RequestId m', ch)})"
    by (rule step [OF step [OF step [OF refl s1] frame [OF len st']] s3])
  then show ?thesis unfolding append.simps by blast
qed

lemma run_inv:
  assumes "call_run E s evs s'" and "calls_inv s" and "\<forall>i c e. EvCancel i c e \<notin> set evs"
    and ret: "\<And>f p d. length p + 1 < 2 ^ 32 \<Longrightarrow> Client_maybeDecompress (m_zstd E) p f = Inr d \<Longrightarrow>
      returns (Request_UnmarshalVT (m_ph E) Request_zero d) \<and>
      returns (Response_UnmarshalVT (m_ph E) Response_zero d)"
  shows "calls_inv s' \<and> (\<forall>i c r. EvReceive i c r \<in> set evs \<longrightarrow> rs_RequestId r = i)"
  using assms(1-3)
proof (induction rule: call_run.induct)
  case (refl s)
  then show ?case by simp
next
  case (step s evs s' ev s'')
  then have inv: "calls_inv s'" and own: "\<forall>i c r. EvReceive i c r \<in> set evs \<longrightarrow> rs_RequestId r = i"
    and nc: "\<And>i c e. ev \<noteq> EvCancel i c e" by auto
  from step.hyps(2) have "calls_inv s'' \<and> (\<forall>i c r. ev = EvReceive i c r \<longrightarrow> rs_RequestId r = i)"
  proof (cases rule: call_step.cases)
    case (send cl impl m' ch ident cl' P)
    with inv inv_send show ?thesis by simp
  next
    case (frame p f cl st' P)
    have "calls_inv (cl\<lparr>cl_cst := st'\<rparr>, P)"
      by (rule inv_frame [OF inv [unfolded frame] frame(5) ret [OF frame(4)]])
    with frame show ?thesis by simp
  next
    case (receive ident ch P cl r cl')
    with inv_receive [OF inv [unfolded receive(1)] receive(4,5)] show ?thesis by simp
  next
    case (cancel ident ch P err cl cl')
    with nc show ?thesis by blast
  qed
  with own show ?case by auto
qed

end

text \<open>Unmarshalling what a frame carries returns, if what the frame decompresses to fits in memory.\<close>

lemma frame_returns:
  assumes "vt_helpers_skip (m_ph E)"
    and "\<forall>d x. length d < 2 ^ 32 \<and> DecodeAll (m_zstd E) d = Inr x \<longrightarrow> length x < 2 ^ 63"
    and "length p + 1 < 2 ^ 32" and "Client_maybeDecompress (m_zstd E) p f = Inr d"
  shows "returns (Request_UnmarshalVT (m_ph E) Request_zero d) \<and> returns (Response_UnmarshalVT (m_ph E) Response_zero d)"
proof -
  have "length p < 2 ^ 32" "length p < 2 ^ 63" using assms(3) by simp_all
  then have "length d < 2 ^ 63"
    using assms(2,4) by (auto simp: Client_maybeDecompress_def DecompressZstd_def split: if_splits)
  then show ?thesis using vt_helpers_skip.UnmarshalVT_returns [OF assms(1)] by blast
qed

lemma run_inv_idle:
  assumes "vt_helpers_skip (m_ph E)" and "zstd_lib (m_zstd E)"
    and "\<forall>d x. length d < 2 ^ 32 \<and> DecodeAll (m_zstd E) d = Inr x \<longrightarrow> length x < 2 ^ 63"
    and "idle cl" and "call_run E (cl, {}) evs s" and "\<forall>i c e. EvCancel i c e \<notin> set evs"
  shows "calls_inv s \<and> (\<forall>i c r. EvReceive i c r \<in> set evs \<longrightarrow> rs_RequestId r = i)"
proof -
  have E: "client_stack E"
    using vt_helpers_skip.axioms(1) [OF assms(1)] assms(2) by (rule client_stackI)
  show ?thesis
    by (rule client_stack.run_inv [OF E assms(5) calls_inv_idle [OF assms(4)] assms(6)]) (rule frame_returns [OF assms(1,3)])
qed

section \<open>Properties\<close>


lemma demo_client_idle: "idle demo_client"
  using demo_client_ok
  by (simp add: idle_def demo_client_def fresh_client_def newClient_def empty_cst_def waiting_def)

lemma demo_sendable: "sendable demo_menv demo_impl demo_client sample_request"
  unfolding sendable_def using demo_client_ok(3) sample_request_ok
  by (intro exI [of _ sample_request] exI [of _ 0] exI [of _ 7])
    (simp add: demo_impl_def assign_id_def, simp add: sample_request_def)

lemma demo_stack: "client_stack demo_menv"
  by (rule client_stackI) (simp_all add: ref.vt_helpers_axioms ref_z.zstd_lib_axioms)




text \<open>
  An answered call returns: whatever other calls are pending, a request that is sent with a new
  id and whose response arrives can receive exactly that response.
\<close>

theorem answered_call_returns:
  assumes "vt_helpers (m_ph E)" and "zstd_lib (m_zstd E)" and "calls_inv (cl, P)"
    and "sendable E impl cl m'" and "rq_RequestId m' \<notin> fst ` P"
    and "response_ok r" and "rs_RequestId r = rq_RequestId m'"
  shows "\<exists>ch f p s'. call_run E (cl, P)
    [EvSend (rq_RequestId m') ch, EvFrame f p, EvReceive (rq_RequestId m') ch r] s'"
  by (rule client_stack.answered_run [OF client_stackI [OF assms(1,2)] assms(3-7)])

theorem answered_call_returns_witness:
  "\<exists>ch f p s'. call_run demo_menv (demo_client, {})
    [EvSend (rq_RequestId sample_request) ch, EvFrame f p,
     EvReceive (rq_RequestId sample_request) ch sample_response] s'"
  by (rule answered_call_returns [OF _ _ calls_inv_idle [OF demo_client_idle] demo_sendable])
    (simp_all add: ref.vt_helpers_axioms ref_z.zstd_lib_axioms sample_response_ok,
     simp add: sample_response_def sample_request_def)

text \<open>
  C10. Cancellation mixes calls up: when the response to a call is already in its channel and the
  call returns because its context is done, the channel goes back to the pool with the response in
  it; a later call that gets this channel returns that response at once, whatever its own id is.
\<close>

theorem cancelled_call_poisons_channel:
  assumes "vt_helpers (m_ph E)" and "zstd_lib (m_zstd E)" and "cl_ok cl" and "\<not> cl_closed cl"
    and "c_chans (cl_cst cl) ch = Some r"
    and "waitResponse (CtxDone err) ch (rs_RequestId r) cl = Some (res, cl1)"
    and "sendable E impl cl1 m'" and "SendRequest_begin E impl cl1 = (Ok (ch, ident), cl2)"
  shows "ch \<in> set (cl_pool cl1) \<and> ident = rq_RequestId m' \<and>
    (\<exists>cl3. waitResponse Received ch ident cl2 = Some (Ok r, cl3))"
proof -
  have cl1: "cl1 = (chans_Delete (rs_RequestId r) (putChan ch cl))\<lparr>cl_pending := cl_pending cl - 1\<rparr>"
    using assms(6) by (simp add: waitResponse_def chans_Delete_def putChan_def)
  have ok1: "cl_ok cl1" "\<not> cl_closed cl1" and pool: "ch \<in> set (cl_pool cl1)"
    and c1: "c_chans (cl_cst cl1) = c_chans (cl_cst cl)"
    using assms(3,4) by (simp_all add: cl1 cl_ok_Delete putChan_def pool_put_def) (simp_all add: chans_Delete_def pool_put_def)
  have "client_stack E" by (rule client_stackI [OF assms(1,2)])
  from client_stack.send_effect [OF this ok1 assms(7,8)]
  have "ident = rq_RequestId m'" "c_chans (cl_cst cl2) = c_chans (cl_cst cl1)" by blast+
  with pool c1 assms(5) show ?thesis by (simp add: waitResponse_def)
qed

text \<open>A client whose call 300 was answered, and a second request.\<close>

definition answered_client :: "(unit, nat) client" where
  "answered_client = demo_client
     \<lparr>cl_cst := (cl_cst demo_client)\<lparr>c_chans := [4 \<mapsto> sample_response]\<rparr>, cl_next := 5, cl_pending := 1\<rparr>"

definition cancelled_client :: "(unit, nat) client" where
  "cancelled_client = snd (the (waitResponse (CtxDone ContextCanceled) 4 300 answered_client))"

definition second_request :: request where
  "second_request = sample_request\<lparr>rq_RequestId := 301\<rparr>"

theorem cancelled_call_poisons_channel_witness:
  "\<exists>cl2 cl3. SendRequest_begin demo_menv (demo_impl\<lparr>ri_req := Some second_request\<rparr>) cancelled_client =
      (Ok (4, 301), cl2) \<and> waitResponse Received 4 301 cl2 = Some (Ok sample_response, cl3) \<and>
    rs_RequestId sample_response = 300"
proof -
  let ?impl = "demo_impl\<lparr>ri_req := Some second_request\<rparr>"
  have id: "rs_RequestId sample_response = 300" "rq_RequestId second_request = 301"
    by (simp_all add: sample_response_def second_request_def)
  have ok: "request_ok second_request"
    by (simp add: second_request_def sample_request_def request_ok_def enc_request_def enc_headers_def
        enc_opt_bytes_def enc_opt_varint_def enc_varint_def uvarint_def enc_bytes_def venc.simps)
  have acl: "cl_ok answered_client" "\<not> cl_closed answered_client"
    "c_chans (cl_cst answered_client) 4 = Some sample_response"
    using demo_client_ok(1,2) by (simp_all add: answered_client_def cl_ok_def)
  have w: "waitResponse (CtxDone ContextCanceled) 4 300 answered_client =
      Some (Err ContextCanceled, cancelled_client)"
    by (simp add: cancelled_client_def waitResponse_def)
  have mx: "cl_muxes cancelled_client = cl_muxes demo_client" "cl_counter cancelled_client = cl_counter demo_client"
    and pool: "cl_pool cancelled_client = [4]" "c_tick (cl_cst cancelled_client) = 0"
    and open_: "\<not> cl_closed cancelled_client"
    using demo_client_ok(2)
    by (simp_all add: cancelled_client_def waitResponse_def answered_client_def chans_Delete_def putChan_def
        pool_put_def demo_client_def fresh_client_def newClient_def empty_cst_def)
  have ok1: "cl_ok cancelled_client"
    using acl(1) by (simp add: cancelled_client_def waitResponse_def putChan_def cl_ok_Delete)
  have route: "next_route cancelled_client 0 7"
    using demo_client_ok(3) next_route_cong [OF mx] by simp
  have as: "assign_id demo_menv second_request cancelled_client = (second_request, cancelled_client)"
    by (simp add: assign_id_def id)
  then have snd_: "sendable demo_menv ?impl cancelled_client second_request"
    unfolding sendable_def using route ok
    by (intro exI [of _ second_request] exI [of _ 0] exI [of _ 7]) (simp add: demo_impl_def id)
  have "fst (getChan demo_menv cancelled_client) = 4"
    by (simp add: getChan_def pool pool_get_def demo_menv_def Let_def)
  then obtain cl2 where b: "SendRequest_begin demo_menv ?impl cancelled_client = (Ok (4, 301), cl2)"
    using client_stack.SendRequest_begin_ok [OF demo_stack ok1 open_, of ?impl second_request NewLocals
        second_request 0 7] route ok as by (auto simp: demo_impl_def id)
  from cancelled_call_poisons_channel [OF _ _ acl(1,2,3) w [folded id(1)] snd_ b] b show ?thesis
    by (simp add: ref.vt_helpers_axioms ref_z.zstd_lib_axioms id)
qed

end
