(* ===== verification/Rpc_System.thy ===== *)
theory Rpc_System
  imports Server_Start Client_Calls
begin

text \<open>
  A client, the network and a server as one system. The client's calls are those of \<open>Client_Calls\<close>, the
  server's loops those of \<open>Server_Start\<close>, and each stream between them is reliable and in order: what
  the client writes on a stream is what the server's loop for it will read, and the frames that the
  loop writes are read by the client's loop one after the other. A step is one operation of the code
  on one side; a run is any sequence of steps, with any number of calls under way.

  Every call that returns a response returns what the handler of its method made of its own request;
  and as long as the handlers do their part, every pending call can still return.
\<close>

section \<open>The system\<close>

datatype sys_event =
    SySend u64 nat
  | SyServe nat
  | SyDeliver nat
  | SyReceive u64 nat response

text \<open>
  The client with its pending calls, the server, and how many frames of each stream the client has
  read. \<open>sy_sent\<close> is history: the request that was sent under an id.
\<close>

record ('a, 'b, 'w) system =
  sy_client :: "('a, nat) client"
  sy_pending :: "(u64 \<times> nat) set"
  sy_life :: "('b, 'w) life"
  sy_got :: "nat \<Rightarrow> nat"
  sy_sent :: "u64 \<rightharpoonup> request"

text \<open>What the client has newly written arrives at the server, at the end of what it has yet to read.\<close>

definition arrive :: "('a, nat) client \<Rightarrow> ('a, nat) client \<Rightarrow> ('b, 'w) life \<Rightarrow> ('b, 'w) life" where
  "arrive cl cl' li = li\<lparr>li_in := (\<lambda>s. (li_in li s)\<lparr>in_bytes := in_bytes (li_in li s) @
     concat (drop (length (c_out (cl_cst cl) s)) (c_out (cl_cst cl') s))\<rparr>)\<rparr>"

inductive sys_step ::
    "nat menv \<Rightarrow> env \<Rightarrow> ('a, 'b, 'w) system \<Rightarrow> sys_event \<Rightarrow> ('a, 'b, 'w) system \<Rightarrow> bool"
  for C :: "nat menv" and S :: env where
  send: "sys_step C S sy (SySend ident ch)
      (sy\<lparr>sy_client := cl', sy_pending := insert (ident, ch) (sy_pending sy),
          sy_life := arrive (sy_client sy) cl' (sy_life sy), sy_sent := (sy_sent sy)(ident \<mapsto> m)\<rparr>)"
    if "sendable C impl (sy_client sy) m" "SendRequest_begin C impl (sy_client sy) = (Ok (ch, ident), cl')"
      "ident \<notin> dom (sy_sent sy)"
| serve: "sys_step C S sy (SyServe s) (sy\<lparr>sy_life := life_step S (Iterates s) (sy_life sy)\<rparr>)"
    if "in_bytes (li_in (sy_life sy) s) \<noteq> []"
| deliver: "sys_step C S sy (SyDeliver s) (sy\<lparr>sy_client := cl', sy_got := (sy_got sy)(s := sy_got sy s + 1)\<rparr>)"
    if "sy_got sy s < length (li_out (sy_life sy) s)"
      "read_frame True \<lparr>in_bytes = li_out (sy_life sy) s ! sy_got sy s, in_err = e\<rparr> = (Inr (f, p), rest)"
      "call_step C (sy_client sy, sy_pending sy) (EvFrame f p) (cl', sy_pending sy)"
| receive: "sys_step C S sy (SyReceive ident ch r) (sy\<lparr>sy_client := cl', sy_pending := P'\<rparr>)"
    if "call_step C (sy_client sy, sy_pending sy) (EvReceive ident ch r) (cl', P')"

inductive sys_run ::
    "nat menv \<Rightarrow> env \<Rightarrow> ('a, 'b, 'w) system \<Rightarrow> sys_event list \<Rightarrow> ('a, 'b, 'w) system \<Rightarrow> bool"
  for C :: "nat menv" and S :: env where
  refl: "sys_run C S sy [] sy"
| step: "sys_run C S sy (evs @ [ev]) sy''" if "sys_run C S sy evs sy'" "sys_step C S sy' ev sy''"

definition new_system :: "('a, nat) client \<Rightarrow> ('b, 'w) server \<Rightarrow> (nat \<Rightarrow> go_error) \<Rightarrow> 'w \<Rightarrow> ('a, 'b, 'w) system" where
  "new_system cl srv err w =
     \<lparr>sy_client = cl, sy_pending = {}, sy_life = new_life srv (\<lambda>s. \<lparr>in_bytes = [], in_err = err s\<rparr>) w,
      sy_got = (\<lambda>_. 0), sy_sent = Map.empty\<rparr>"

section \<open>Invariant\<close>

text \<open>A response is the answer to the request that was sent under its id.\<close>

definition answer_to :: "('b, 'w) server \<Rightarrow> request \<Rightarrow> response \<Rightarrow> bool" where
  "answer_to srv m r \<longleftrightarrow> (\<exists>h w w'. handlers srv (rq_Method m) = Some h \<and> call_handler h w m = (Ok r, w'))"

definition right_answer :: "('b, 'w) server \<Rightarrow> (u64 \<rightharpoonup> request) \<Rightarrow> response \<Rightarrow> bool" where
  "right_answer srv sent r \<longleftrightarrow> (\<exists>m. sent (rs_RequestId r) = Some m \<and> answer_to srv m r)"

definition sys_inv ::
    "env \<Rightarrow> (nat \<Rightarrow> go_error) \<Rightarrow> ('b, 'w) server \<Rightarrow> ('a, 'b, 'w) system \<Rightarrow> ('b, 'w) service \<Rightarrow> bool" where
  "sys_inv S err srv sy se \<longleftrightarrow>
     calls_inv (sy_client sy, sy_pending sy) \<and> fst ` sy_pending sy \<subseteq> dom (sy_sent sy) \<and>
     implements S err (sy_life sy) se \<and> se_server se = srv \<and>
     (\<forall>s. \<forall>x \<in> set (se_in se s). \<exists>m. x = Call m \<and> request_ok m \<and> sy_sent sy (rq_RequestId m) = Some m) \<and>
     (\<forall>s. \<forall>r \<in> set (se_out se s). response_ok r \<and> right_answer srv (sy_sent sy) r) \<and>
     (\<forall>c r. c_chans (cl_cst (sy_client sy)) c = Some r \<longrightarrow> right_answer srv (sy_sent sy) r)"

text \<open>Handlers whose responses fit a frame.\<close>

definition answers_fit :: "('b, 'w) server \<Rightarrow> bool" where
  "answers_fit srv \<longleftrightarrow> (\<forall>m r. request_ok m \<and> answer_to srv m r \<longrightarrow> response_ok r)"

text \<open>
  Where the pending calls are, while no stream has ended: the response is in the channel, or the
  channel waits for it and either the request has yet to be served or the response to be read.
\<close>

definition on_stream :: "('a, 'b, 'w) system \<Rightarrow> ('b, 'w) service \<Rightarrow> u64 \<Rightarrow> nat \<Rightarrow> bool" where
  "on_stream sy se i s \<longleftrightarrow>
     i \<in> rq_RequestId ` inmsg_request ` set (se_in se s) \<or> i \<in> rs_RequestId ` set (drop (sy_got sy s) (se_out se s))"

definition under_way :: "('a, 'b, 'w) system \<Rightarrow> ('b, 'w) service \<Rightarrow> u64 \<Rightarrow> nat \<Rightarrow> bool" where
  "under_way sy se i c \<longleftrightarrow>
     (\<exists>r. c_chans (cl_cst (sy_client sy)) c = Some r) \<or>
     waiting (sy_client sy) i = Some (RespChan c) \<and> (\<exists>s. on_stream sy se i s)"

definition sys_live :: "('a, 'b, 'w) system \<Rightarrow> ('b, 'w) service \<Rightarrow> bool" where
  "sys_live sy se \<longleftrightarrow>
     se_ended se = Map.empty \<and> \<not> se_crashed se \<and> (\<forall>s. sy_got sy s \<le> length (se_out se s)) \<and>
     (\<forall>i c. (i, c) \<in> sy_pending sy \<longrightarrow> under_way sy se i c)"

text \<open>A server that answers these requests: the methods are known and the handlers do not panic.\<close>

definition serves :: "('b, 'w) server \<Rightarrow> (u64 \<rightharpoonup> request) \<Rightarrow> bool" where
  "serves srv sent \<longleftrightarrow>
     (\<forall>m \<in> ran sent. \<exists>h. handlers srv (rq_Method m) = Some h \<and> (\<forall>w. \<exists>r w'. call_handler h w m = (Ok r, w')))"

section \<open>Lemmas\<close>

lemma sys_run_append: "sys_run C S sy' evs' sy'' \<Longrightarrow> sys_run C S sy evs sy' \<Longrightarrow> sys_run C S sy (evs @ evs') sy''"
proof (induction rule: sys_run.induct)
  case (step sy' evs' sy1 ev sy2)
  from sys_run.step [OF step.IH [OF step.prems] step.hyps(2)] show ?case by simp
qed simp

lemma sys_run_single: "sys_step C S sy ev sy' \<Longrightarrow> sys_run C S sy [ev] sy'"
  using sys_run.step [OF sys_run.refl] by fastforce

lemma call_handler_id: "call_handler h w m = (Ok r, w') \<Longrightarrow> rs_RequestId r = rq_RequestId m"
  by (cases rule: call_handler_cases [of h w m]) auto

lemma right_answer_later: "right_answer srv sent r \<Longrightarrow> i \<notin> dom sent \<Longrightarrow> right_answer srv (sent(i \<mapsto> m)) r"
  by (auto simp: right_answer_def)

lemma sys_invD:
  assumes "sys_inv S err srv sy se"
  shows "calls_inv (sy_client sy, sy_pending sy)" and "fst ` sy_pending sy \<subseteq> dom (sy_sent sy)"
    and "implements S err (sy_life sy) se" and "se_server se = srv"
    and "x \<in> set (se_in se s) \<Longrightarrow> \<exists>m. x = Call m \<and> request_ok m \<and> sy_sent sy (rq_RequestId m) = Some m"
    and "r \<in> set (se_out se s) \<Longrightarrow> response_ok r \<and> right_answer srv (sy_sent sy) r"
    and "c_chans (cl_cst (sy_client sy)) c = Some r \<Longrightarrow> right_answer srv (sy_sent sy) r"
  using assms unfolding sys_inv_def by blast+

lemma sys_invI:
  assumes "calls_inv (sy_client sy, sy_pending sy)" and "fst ` sy_pending sy \<subseteq> dom (sy_sent sy)"
    and "implements S err (sy_life sy) se" and "se_server se = srv"
    and "\<And>x s. x \<in> set (se_in se s) \<Longrightarrow> \<exists>m. x = Call m \<and> request_ok m \<and> sy_sent sy (rq_RequestId m) = Some m"
    and "\<And>r s. r \<in> set (se_out se s) \<Longrightarrow> response_ok r \<and> right_answer srv (sy_sent sy) r"
    and "\<And>c r. c_chans (cl_cst (sy_client sy)) c = Some r \<Longrightarrow> right_answer srv (sy_sent sy) r"
  shows "sys_inv S err srv sy se"
  unfolding sys_inv_def using assms by blast

text \<open>What is sent arrives as one more message of its stream.\<close>

lemma implements_arrive:
  assumes "implements S err li se" and "c_out (cl_cst cl') = (c_out (cl_cst cl))(s := c_out (cl_cst cl) s @ [inmsg_wire (e_zstd S) x])"
  shows "implements S err (arrive cl cl' li) (se\<lparr>se_in := (se_in se)(s := se_in se s @ [x])\<rparr>)"
  using assms by (auto simp: implements_def arrive_def wire_stream_def fun_eq_iff)

context client_stack
begin

lemma send_writes:
  assumes ok: "cl_ok cl" "\<not> cl_closed cl" and s: "sendable E impl cl m'"
    and b: "SendRequest_begin E impl cl = (Ok (ch, ident), cl')"
  obtains s where "c_out (cl_cst cl') = (c_out (cl_cst cl))(s := c_out (cl_cst cl) s @ [request_wire (m_zstd E) m'])"
    and "ident = rq_RequestId m'" and "request_ok m'"
proof -
  from s obtain m l i st where m: "ri_req impl = Some m" "ri_locals impl = Some l"
    "m' = fst (assign_id E m cl)" "rq_RequestId m' \<noteq> 0" "request_ok m'" "next_route cl i st"
    "\<forall>t. m_deadline E st t = None"
    "m_write E st (c_out (cl_cst cl) st) (request_wire (m_zstd E) m') = None"
    unfolding sendable_def by blast
  from SendRequest_begin_ok [OF ok m(1-6)] m(5,7,8) b that show thesis by auto
qed

text \<open>A response that arrives goes to the channel that waits for it, if one does.\<close>

lemma frame_delivers:
  assumes ok: "c_ok (cl_cst cl)" and r: "response_ok r"
    and rd: "read_frame True \<lparr>in_bytes = response_wire (m_zstd E) r, in_err = e\<rparr> = (Inr (f, p), rest)"
  shows "length p + 1 < 2 ^ 32 \<and> (\<exists>st'. dispatch_frame E f p (cl_cst cl) = (None, st') \<and>
    c_view st' = deliver r (c_view (cl_cst cl)))"
proof -
  obtain f' p' d where
    rd': "read_frame True \<lparr>in_bytes = response_wire (m_zstd E) r @ [], in_err = e\<rparr> =
      (Inr (f', p'), \<lparr>in_bytes = [], in_err = e\<rparr>)"
    and f': "f' = RESPONSE_FLAG \<or> f' = RESPONSE_ZSTD_FLAG"
    and d: "Client_maybeDecompress (m_zstd E) p' f' = Inr d" "Response_UnmarshalVT (m_ph E) Response_zero d = Ok r"
    by (rule response_frame [OF r]) blast
  then have "f = f'" "p = p'" using rd by simp_all
  with read_frame_Inr [OF rd'] dispatch_response_delivers [OF ok d] f' show ?thesis
    by (auto simp: dispatch_frame_def)
qed

end

section \<open>One step\<close>

locale rpc_system = cl: client_stack C + sv: server_stack S for C :: "nat menv" and S :: env +
  fixes srv :: "('b, 'w) server" and err :: "nat \<Rightarrow> go_error"
  assumes same_zstd: "e_zstd S = m_zstd C"
    and writes: "e_write S out b = None"
    and fit: "answers_fit srv"
    and reads: "length p + 1 < 2 ^ 32 \<Longrightarrow> Client_maybeDecompress (m_zstd C) p f = Inr d \<Longrightarrow>
      returns (Request_UnmarshalVT (m_ph C) Request_zero d) \<and> returns (Response_UnmarshalVT (m_ph C) Response_zero d)"
begin

lemma inv_send:
  fixes sy :: "('a, 'b, 'w) system"
  assumes inv: "sys_inv S err srv sy se" and s: "sendable C impl (sy_client sy) m"
    and b: "SendRequest_begin C impl (sy_client sy) = (Ok (ch, ident), cl')" and new: "ident \<notin> dom (sy_sent sy)"
    and sy': "sy' = sy\<lparr>sy_client := cl', sy_pending := insert (ident, ch) (sy_pending sy),
          sy_life := arrive (sy_client sy) cl' (sy_life sy), sy_sent := (sy_sent sy)(ident \<mapsto> m)\<rparr>"
  obtains s where "sys_inv S err srv sy' (se\<lparr>se_in := (se_in se)(s := se_in se s @ [Call m])\<rparr>)"
    and "ident = rq_RequestId m"
proof -
  note V = sys_invD [OF inv]
  note calls = V(1) and pend = V(2)
  note I = calls_invD [OF calls]
  obtain s where out: "c_out (cl_cst cl') = (c_out (cl_cst (sy_client sy)))(s := c_out (cl_cst (sy_client sy)) s @ [request_wire (m_zstd C) m])"
    and m: "ident = rq_RequestId m" "request_ok m"
    by (rule cl.send_writes [OF I(1,2) s b])
  have "ident \<notin> fst ` sy_pending sy" using new pend by blast
  then have calls': "calls_inv (cl', insert (ident, ch) (sy_pending sy))" by (rule cl.inv_send [OF calls s b])
  have chans: "c_chans (cl_cst cl') = c_chans (cl_cst (sy_client sy))"
    by (rule cl.send_effect [OF I(1,2) s b])
  have "implements S err (sy_life sy') (se\<lparr>se_in := (se_in se)(s := se_in se s @ [Call m])\<rparr>)"
    using implements_arrive [of S err "sy_life sy" se cl' "sy_client sy" s "Call m"] inv out same_zstd
    by (simp add: sy' sys_inv_def)
  moreover have right: "right_answer srv (sy_sent sy') r" if "right_answer srv (sy_sent sy) r" for r
    using right_answer_later [OF that new] by (simp add: sy')
  moreover have sent: "sy_sent sy' (rq_RequestId q) = Some q" if "sy_sent sy (rq_RequestId q) = Some q" for q
    using that new by (auto simp: sy')
  ultimately have "sys_inv S err srv sy' (se\<lparr>se_in := (se_in se)(s := se_in se s @ [Call m])\<rparr>)"
  proof (intro sys_invI)
    show "\<exists>q. x = Call q \<and> request_ok q \<and> sy_sent sy' (rq_RequestId q) = Some q"
      if "x \<in> set (se_in (se\<lparr>se_in := (se_in se)(s := se_in se s @ [Call m])\<rparr>) t)" for x t
    proof (cases "x = Call m")
      case True
      with m show ?thesis by (simp add: sy')
    next
      case False
      with that have "x \<in> set (se_in se t)" by (auto split: if_splits)
      with V(5) sent show ?thesis by blast
    qed
  qed (use V(4,6,7) calls' pend right in \<open>auto simp: sy' chans\<close>)
  with m(1) that show thesis by blast
qed

text \<open>An iteration of the server: the first message of the stream, if it has not ended.\<close>

lemma inv_serve:
  assumes inv: "sys_inv S err srv sy se"
  shows "sys_inv S err srv (sy\<lparr>sy_life := life_step S (Iterates s) (sy_life sy)\<rparr>) (service_step err (Iterates s) se)"
proof -
  let ?se = "service_step err (Iterates s) se"
  have new: "response_ok r \<and> right_answer srv (sy_sent sy) r"
    if x: "se_in se s = x # ms" and sp: "serve_spec srv [x] (se_world se) = (rs, w, z)" and r: "r \<in> set rs" for x ms rs w z r
  proof -
    obtain m where m: "x = Call m" "request_ok m" "sy_sent sy (rq_RequestId m) = Some m"
      using inv x unfolding sys_inv_def by (metis list.set_intros(1))
    then obtain h w' where h: "handlers srv (rq_Method m) = Some h" "call_handler h (se_world se) m = (Ok r, w')"
      using sp r by (auto split: option.splits prod.splits outcome.splits)
    then have "answer_to srv m r" by (auto simp: answer_to_def)
    with m h fit call_handler_id [OF h(2)] show ?thesis by (auto simp: answers_fit_def right_answer_def)
  qed
  have srv: "se_server se = srv" using inv by (simp add: sys_inv_def)
  have out: "\<forall>i. \<forall>r \<in> set (se_out ?se i). response_ok r \<and> right_answer srv (sy_sent sy) r"
    using inv new unfolding sys_inv_def
    by (auto simp: service_step_def serve_next_def Let_def srv split: list.splits prod.splits)
  have "\<forall>i. \<forall>m \<in> set (se_in se i). request_ok (inmsg_request m)" using inv by (fastforce simp: sys_inv_def)
  then have "implements S err (life_step S (Iterates s) (sy_life sy)) ?se"
    using sv.life_step_implements [of err "sy_life sy" se "Iterates s"] inv out writes by (auto simp: sys_inv_def)
  moreover have "se_server ?se = srv"
    using srv by (auto simp: service_step_def serve_next_def Let_def split: list.splits prod.splits)
  moreover have "set (se_in ?se i) \<subseteq> set (se_in se i)" for i by (rule service_step_in)
  moreover from this have "\<exists>m. x = Call m \<and> request_ok m \<and> sy_sent sy (rq_RequestId m) = Some m" if "x \<in> set (se_in ?se i)" for x i
    using sys_invD(5) [OF inv] that by blast
  ultimately show ?thesis
    using sys_invD(1,2,7) [OF inv] out by (intro sys_invI) simp_all
qed

lemma inv_deliver:
  assumes inv: "sys_inv S err srv sy se" and n: "sy_got sy s < length (li_out (sy_life sy) s)"
    and rd: "read_frame True \<lparr>in_bytes = li_out (sy_life sy) s ! sy_got sy s, in_err = e\<rparr> = (Inr (f, p), rest)"
    and st: "call_step C (sy_client sy, sy_pending sy) (EvFrame f p) (cl', sy_pending sy)"
  shows "sys_inv S err srv (sy\<lparr>sy_client := cl', sy_got := g\<rparr>) se"
    and "c_view (cl_cst cl') = deliver (se_out se s ! sy_got sy s) (c_view (cl_cst (sy_client sy)))"
proof -
  let ?r = "se_out se s ! sy_got sy s"
  have calls: "calls_inv (sy_client sy, sy_pending sy)" using inv by (simp add: sys_inv_def)
  have out: "li_out (sy_life sy) s = map (response_wire (m_zstd C)) (se_out se s)"
    using inv same_zstd by (simp add: sys_inv_def implements_def)
  have "?r \<in> set (se_out se s)" using n out by simp
  then have r: "response_ok ?r" "right_answer srv (sy_sent sy) ?r" using inv unfolding sys_inv_def by blast+
  have ok: "c_ok (cl_cst (sy_client sy))" using calls_invD(1) [OF calls] by (simp add: cl_ok_def)
  from rd have "read_frame True \<lparr>in_bytes = response_wire (m_zstd C) ?r, in_err = e\<rparr> = (Inr (f, p), rest)"
    using n out by simp
  from cl.frame_delivers [OF ok r(1) this] obtain st' where st': "length p + 1 < 2 ^ 32"
    "dispatch_frame C f p (cl_cst (sy_client sy)) = (None, st')" "c_view st' = deliver ?r (c_view (cl_cst (sy_client sy)))"
    by blast
  have cl': "cl' = (sy_client sy)\<lparr>cl_cst := st'\<rparr>" using st st'(2) by (auto elim: call_step_cases)
  show v: "c_view (cl_cst cl') = deliver ?r (c_view (cl_cst (sy_client sy)))" using st'(3) by (simp add: cl')
  have "calls_inv (cl', sy_pending sy)"
    unfolding cl' by (rule cl.inv_frame [OF calls st'(2) reads [OF st'(1)]])
  moreover have "right_answer srv (sy_sent sy) r'" if "c_chans (cl_cst cl') c = Some r'" for c r'
    using that v r(2) inv unfolding sys_inv_def
    by (auto simp: c_view_def deliver_def split: if_splits option.splits chan_ref.splits)
  ultimately show "sys_inv S err srv (sy\<lparr>sy_client := cl', sy_got := g\<rparr>) se"
    using inv by (simp add: sys_inv_def)
qed

lemma inv_receive:
  assumes inv: "sys_inv S err srv sy se"
    and st: "call_step C (sy_client sy, sy_pending sy) (EvReceive ident ch r) (cl', P')"
  shows "sys_inv S err srv (sy\<lparr>sy_client := cl', sy_pending := P'\<rparr>) se"
    and "\<exists>m. sy_sent sy ident = Some m \<and> answer_to srv m r"
proof -
  have calls: "calls_inv (sy_client sy, sy_pending sy)" using inv by (simp add: sys_inv_def)
  have P: "(ident, ch) \<in> sy_pending sy" "P' = sy_pending sy - {(ident, ch)}"
    and w: "waitResponse Received ch ident (sy_client sy) = Some (Ok r, cl')"
    using st by (auto elim: call_step_cases)
  note R = cl.inv_receive [OF calls P(1) w]
  have c: "c_chans (cl_cst (sy_client sy)) ch = Some r" "c_chans (cl_cst cl') = (c_chans (cl_cst (sy_client sy)))(ch := None)"
    using w by (auto simp: waitResponse_def putChan_def split: option.splits)
  then have "right_answer srv (sy_sent sy) r" using inv by (simp add: sys_inv_def)
  with R(1) show "\<exists>m. sy_sent sy ident = Some m \<and> answer_to srv m r" by (simp add: right_answer_def)
  show "sys_inv S err srv (sy\<lparr>sy_client := cl', sy_pending := P'\<rparr>) se"
    using inv R(2) c(2) P(2) unfolding sys_inv_def by (auto split: if_splits)
qed

text \<open>While the server answers, its streams go on, and every pending call stays under way.\<close>

lemma service_serves:
  assumes inv: "sys_inv S err srv sy se" and live: "sys_live sy se" and ok: "serves srv (sy_sent sy)"
    and s: "in_bytes (li_in (sy_life sy) s) \<noteq> []"
  obtains m ms r w where "se_in se s = Call m # ms" and "rs_RequestId r = rq_RequestId m"
    and "service_step err (Iterates s) se =
      se\<lparr>se_in := (se_in se)(s := ms), se_out := (se_out se)(s := se_out se s @ [r]), se_world := w\<rparr>"
proof -
  note V = sys_invD [OF inv]
  have "se_in se s \<noteq> []" using s V(3) by (auto simp: implements_def wire_stream_def)
  then obtain x ms where x: "se_in se s = x # ms" by (cases "se_in se s") auto
  then obtain m where m: "x = Call m" "sy_sent sy (rq_RequestId m) = Some m" using V(5) [of x s] by auto
  then have "m \<in> ran (sy_sent sy)" by (auto simp: ran_def)
  then obtain h r w where h: "handlers srv (rq_Method m) = Some h" "call_handler h (se_world se) m = (Ok r, w)"
    using ok unfolding serves_def by metis
  have "service_step err (Iterates s) se =
      se\<lparr>se_in := (se_in se)(s := ms), se_ended := (se_ended se)(s := None), se_out := (se_out se)(s := se_out se s @ [r]),
         se_world := w, se_crashed := False\<rparr>"
    using live x m h V(4) by (simp add: service_step_def serve_next_def sys_live_def is_crash_def)
  also have "\<dots> = se\<lparr>se_in := (se_in se)(s := ms), se_out := (se_out se)(s := se_out se s @ [r]), se_world := w\<rparr>"
    using live by (simp add: sys_live_def fun_upd_idem)
  finally show thesis using that x m(1) call_handler_id [OF h(2)] by blast
qed

lemma on_stream_serve:
  assumes "sys_inv S err srv sy se" and live: "sys_live sy se" and "serves srv (sy_sent sy)"
    and "in_bytes (li_in (sy_life sy) t) \<noteq> []" and "on_stream sy se i s"
  shows "on_stream (sy\<lparr>sy_life := li\<rparr>) (service_step err (Iterates t) se) i s"
proof -
  obtain m ms r w where "se_in se t = Call m # ms" "rs_RequestId r = rq_RequestId m"
    "service_step err (Iterates t) se = se\<lparr>se_in := (se_in se)(t := ms), se_out := (se_out se)(t := se_out se t @ [r]), se_world := w\<rparr>"
    by (rule service_serves [OF assms(1-4)])
  moreover have "sy_got sy t \<le> length (se_out se t)" using live by (simp add: sys_live_def)
  ultimately show ?thesis using assms(5) by (auto simp: on_stream_def)
qed

lemma on_stream_deliver:
  assumes inv: "sys_inv S err srv sy se" and n: "sy_got sy t < length (se_out se t)"
    and v: "c_view (cl_cst cl') = deliver (se_out se t ! sy_got sy t) (c_view (cl_cst (sy_client sy)))"
    and i: "waiting (sy_client sy) i = Some (RespChan c)" "on_stream sy se i s"
  shows "c_chans (cl_cst cl') c \<noteq> None \<or> waiting cl' i = Some (RespChan c) \<and>
    on_stream (sy\<lparr>sy_client := cl', sy_got := (sy_got sy)(t := sy_got sy t + 1)\<rparr>) se i s"
proof -
  let ?r = "se_out se t ! sy_got sy t" and ?cl = "sy_client sy"
  have empty: "c_chans (cl_cst ?cl) c = None" using calls_invD(6) [OF sys_invD(1) [OF inv] i(1)] by auto
  have W: "waiting cl' = fst (deliver ?r (waiting ?cl, c_chans (cl_cst ?cl)))"
    "c_chans (cl_cst cl') = snd (deliver ?r (waiting ?cl, c_chans (cl_cst ?cl)))"
    using v [symmetric] by (simp_all add: c_view_def waiting_def)
  show ?thesis
  proof (cases "i = rs_RequestId ?r")
    case True
    with i(1) empty have "c_chans (cl_cst cl') c = Some ?r" by (simp add: W deliver_def)
    then show ?thesis by simp
  next
    case False
    then have "waiting cl' i = Some (RespChan c)"
      using i(1) by (auto simp: W deliver_def split: option.splits chan_ref.splits)
    moreover have "drop (sy_got sy t) (se_out se t) = ?r # drop (Suc (sy_got sy t)) (se_out se t)"
      using n by (simp add: Cons_nth_drop_Suc)
    with i(2) False have "on_stream (sy\<lparr>sy_client := cl', sy_got := (sy_got sy)(t := sy_got sy t + 1)\<rparr>) se i s"
      by (auto simp: on_stream_def)
    ultimately show ?thesis by blast
  qed
qed

lemma chans_deliver:
  assumes "c_view (cl_cst cl') = deliver r (c_view (cl_cst cl))" and "c_chans (cl_cst cl) c = Some r'"
  shows "c_chans (cl_cst cl') c = Some r'"
  using assms by (auto simp: c_view_def deliver_def split: option.splits chan_ref.splits if_splits)

lemma live_serve:
  assumes "sys_inv S err srv sy se" and live: "sys_live sy se" and "serves srv (sy_sent sy)"
    and "in_bytes (li_in (sy_life sy) t) \<noteq> []"
  shows "sys_live (sy\<lparr>sy_life := li\<rparr>) (service_step err (Iterates t) se)"
proof -
  obtain m ms r w where se: "service_step err (Iterates t) se =
      se\<lparr>se_in := (se_in se)(t := ms), se_out := (se_out se)(t := se_out se t @ [r]), se_world := w\<rparr>"
    by (rule service_serves [OF assms])
  have "under_way (sy\<lparr>sy_life := li\<rparr>) (service_step err (Iterates t) se) i c" if "(i, c) \<in> sy_pending sy" for i c
  proof -
    have "under_way sy se i c" using live that by (simp add: sys_live_def)
    then show ?thesis using on_stream_serve [OF assms, of i] by (auto simp: under_way_def)
  qed
  moreover have "sy_got sy s \<le> length (se_out (service_step err (Iterates t) se) s)" for s
    using live by (simp add: se sys_live_def le_SucI)
  ultimately show ?thesis using live by (simp add: sys_live_def) (simp add: se)
qed

lemma live_deliver:
  assumes inv: "sys_inv S err srv sy se" and live: "sys_live sy se" and n: "sy_got sy t < length (se_out se t)"
    and v: "c_view (cl_cst cl') = deliver (se_out se t ! sy_got sy t) (c_view (cl_cst (sy_client sy)))"
  shows "sys_live (sy\<lparr>sy_client := cl', sy_got := (sy_got sy)(t := sy_got sy t + 1)\<rparr>) se"
proof -
  have "under_way (sy\<lparr>sy_client := cl', sy_got := (sy_got sy)(t := sy_got sy t + 1)\<rparr>) se i c" if "(i, c) \<in> sy_pending sy" for i c
    using live that on_stream_deliver [OF inv n v, of i c] chans_deliver [OF v, of c]
    by (fastforce simp: sys_live_def under_way_def)
  with live n show ?thesis by (auto simp: sys_live_def)
qed

lemma live_receive:
  assumes inv: "sys_inv S err srv sy se" and live: "sys_live sy se"
    and st: "call_step C (sy_client sy, sy_pending sy) (EvReceive ident ch r) (cl', P')"
  shows "sys_live (sy\<lparr>sy_client := cl', sy_pending := P'\<rparr>) se"
proof -
  have P: "(ident, ch) \<in> sy_pending sy" "P' = sy_pending sy - {(ident, ch)}"
    and w: "waitResponse Received ch ident (sy_client sy) = Some (Ok r, cl')"
    using st by (auto elim: call_step_cases)
  have c: "c_chans (cl_cst cl') = (c_chans (cl_cst (sy_client sy)))(ch := None)" "waiting cl' = waiting (sy_client sy)"
    using w by (auto simp: waitResponse_def putChan_def waiting_def split: option.splits)
  have other: "c' \<noteq> ch" if "(i, c') \<in> P'" for i c'
    using that P calls_invD(5) [OF sys_invD(1) [OF inv], of i ch ident] by auto
  have "under_way (sy\<lparr>sy_client := cl', sy_pending := P'\<rparr>) se i c'" if "(i, c') \<in> P'" for i c'
    using live that P(2) other [OF that] by (auto simp: sys_live_def under_way_def c on_stream_def)
  with live show ?thesis by (simp add: sys_live_def)
qed

lemma live_send:
  assumes inv: "sys_inv S err srv sy se" and live: "sys_live sy se" and s: "sendable C impl (sy_client sy) m"
    and b: "SendRequest_begin C impl (sy_client sy) = (Ok (ch, rq_RequestId m), cl')" and new: "rq_RequestId m \<notin> dom (sy_sent sy)"
  shows "sys_live (sy\<lparr>sy_client := cl', sy_pending := insert (rq_RequestId m, ch) (sy_pending sy), sy_life := li, sy_sent := sent\<rparr>)
    (se\<lparr>se_in := (se_in se)(t := se_in se t @ [Call m])\<rparr>)"
proof -
  note V = sys_invD [OF inv]
  note I = calls_invD [OF V(1)]
  have eff: "waiting cl' = (waiting (sy_client sy))(rq_RequestId m \<mapsto> RespChan ch)"
      "c_chans (cl_cst cl') = c_chans (cl_cst (sy_client sy))"
    by (rule cl.send_effect [OF I(1,2) s b], simp)+
  have "i \<noteq> rq_RequestId m" if "(i, c) \<in> sy_pending sy" for i c using that V(2) new by force
  with live show ?thesis
    by (fastforce simp: sys_live_def under_way_def eff on_stream_def)
qed

section \<open>Runs\<close>

lemma step_inv:
  assumes "sys_step C S sy ev sy'" and inv: "sys_inv S err srv sy se"
    and live: "serves srv (sy_sent sy) \<Longrightarrow> sys_live sy se"
  shows "\<exists>se'. sys_inv S err srv sy' se' \<and> (serves srv (sy_sent sy') \<longrightarrow> sys_live sy' se') \<and> sy_sent sy \<subseteq>\<^sub>m sy_sent sy' \<and>
    (\<forall>i c r. ev = SyReceive i c r \<longrightarrow> (\<exists>m. sy_sent sy i = Some m \<and> answer_to srv m r))"
  using assms(1)
proof cases
  case (send impl m ch ident cl')
  obtain s where s: "sys_inv S err srv sy' (se\<lparr>se_in := (se_in se)(s := se_in se s @ [Call m])\<rparr>)" "ident = rq_RequestId m"
    by (rule inv_send [OF inv send(3-5) send(2)])
  have "serves srv (sy_sent sy)" if "serves srv (sy_sent sy')"
    using that send(2,5) unfolding serves_def by (auto simp: ran_def) (metis domIff option.distinct(1))
  moreover have "sys_live sy' (se\<lparr>se_in := (se_in se)(s := se_in se s @ [Call m])\<rparr>)" if "sys_live sy se"
    unfolding send(2) s(2) by (rule live_send [OF inv that send(3) send(4) [unfolded s(2)]]) (use send(5) s(2) in simp)
  moreover have "sy_sent sy \<subseteq>\<^sub>m sy_sent sy'" using send(2,5) by (auto simp: map_le_def)
  ultimately show ?thesis using s(1) live send(1) by blast
next
  case (serve s)
  with inv_serve [OF inv] live_serve [OF inv] live show ?thesis by auto
next
  case (deliver s e f p rest cl')
  have "sy_got sy s < length (se_out se s)" using deliver(3) sys_invD(3) [OF inv] by (simp add: implements_def)
  with inv_deliver [OF inv deliver(3-5)] live_deliver [OF inv] live deliver(1,2) show ?thesis by auto
next
  case (receive ident ch r cl' P')
  with inv_receive [OF inv receive(3)] live_receive [OF inv _ receive(3)] live show ?thesis by auto
qed

lemma run_inv:
  assumes "sys_run C S sy evs sy'" and "sys_inv S err srv sy se" and "serves srv (sy_sent sy) \<longrightarrow> sys_live sy se"
  shows "\<exists>se'. sys_inv S err srv sy' se' \<and> (serves srv (sy_sent sy') \<longrightarrow> sys_live sy' se') \<and>
    (\<forall>i c r. SyReceive i c r \<in> set evs \<longrightarrow> (\<exists>m. sy_sent sy' i = Some m \<and> answer_to srv m r))"
  using assms
proof (induction arbitrary: se rule: sys_run.induct)
  case (step sy evs sy' ev sy'')
  from step.IH [OF step.prems] obtain se' where se': "sys_inv S err srv sy' se'" "serves srv (sy_sent sy') \<longrightarrow> sys_live sy' se'"
    "\<forall>i c r. SyReceive i c r \<in> set evs \<longrightarrow> (\<exists>m. sy_sent sy' i = Some m \<and> answer_to srv m r)" by blast
  with step_inv [OF step.hyps(2) se'(1)] obtain se'' where se'': "sys_inv S err srv sy'' se''"
    "serves srv (sy_sent sy'') \<longrightarrow> sys_live sy'' se''" "sy_sent sy' \<subseteq>\<^sub>m sy_sent sy''"
    "\<forall>i c r. ev = SyReceive i c r \<longrightarrow> (\<exists>m. sy_sent sy' i = Some m \<and> answer_to srv m r)" by blast
  have "\<exists>m. sy_sent sy'' i = Some m \<and> answer_to srv m r" if "SyReceive i c r \<in> set (evs @ [ev])" for i c r
    using that se'(3) se''(3,4) by (metis domI map_le_def rotate1.simps(2) set_ConsD set_rotate1)
  with se''(1,2) show ?case by blast
qed auto

lemma new_system_inv:
  assumes "idle cl"
  shows "\<exists>se. sys_inv S err srv (new_system cl srv err w) se \<and> sys_live (new_system cl srv err w) se"
proof -
  let ?se = "new_service srv (\<lambda>_. []) w"
  have "(\<lambda>i. wire_stream (e_zstd S) (err i) []) = (\<lambda>s. \<lparr>in_bytes = [], in_err = err s\<rparr>)" by (simp add: wire_stream_def)
  with implements_new [of S err srv "\<lambda>_. []" w]
  have "implements S err (new_life srv (\<lambda>s. \<lparr>in_bytes = [], in_err = err s\<rparr>) w) ?se" by simp
  with calls_inv_idle [OF assms] assms have "sys_inv S err srv (new_system cl srv err w) ?se"
    by (intro sys_invI) (auto simp: new_system_def new_service_def idle_def)
  moreover have "sys_live (new_system cl srv err w) ?se" by (simp add: sys_live_def new_system_def new_service_def)
  ultimately show ?thesis by blast
qed

text \<open>A call whose response is in its channel returns it.\<close>

lemma can_receive:
  assumes "(i, c) \<in> sy_pending sy" and "c_chans (cl_cst (sy_client sy)) c = Some r"
  shows "\<exists>sy'. sys_run C S sy [SyReceive i c r] sy'"
proof -
  from assms(2) obtain cl' where "waitResponse Received c i (sy_client sy) = Some (Ok r, cl')" by (simp add: waitResponse_def)
  from sys_run_single [OF sys_step.receive [OF call_step.receive [OF assms(1) this]]] show ?thesis by blast
qed

text \<open>The two loops of a stream are never stuck while there is something to read.\<close>

lemma can_deliver:
  assumes inv: "sys_inv S err srv sy se" and n: "sy_got sy s < length (se_out se s)"
  obtains cl' where "sys_step C S sy (SyDeliver s) (sy\<lparr>sy_client := cl', sy_got := (sy_got sy)(s := sy_got sy s + 1)\<rparr>)"
    and "sys_inv S err srv (sy\<lparr>sy_client := cl', sy_got := (sy_got sy)(s := sy_got sy s + 1)\<rparr>) se"
    and "c_view (cl_cst cl') = deliver (se_out se s ! sy_got sy s) (c_view (cl_cst (sy_client sy)))"
proof -
  let ?r = "se_out se s ! sy_got sy s"
  note V = sys_invD [OF inv]
  have out: "li_out (sy_life sy) s = map (response_wire (m_zstd C)) (se_out se s)"
    using V(3) same_zstd by (simp add: implements_def)
  have r: "response_ok ?r" using V(6) [of ?r s] n by simp
  obtain f p rest where rd0: "read_frame True \<lparr>in_bytes = response_wire (m_zstd C) ?r, in_err = ErrEOF\<rparr> = (Inr (f, p), rest)"
    using cl.response_frame [OF r] by (metis append_Nil2)
  then have rd: "read_frame True \<lparr>in_bytes = li_out (sy_life sy) s ! sy_got sy s, in_err = ErrEOF\<rparr> = (Inr (f, p), rest)"
    using n by (simp add: out)
  have "c_ok (cl_cst (sy_client sy))" using calls_invD(1) [OF V(1)] by (simp add: cl_ok_def)
  from cl.frame_delivers [OF this r rd0] obtain st' where "length p + 1 < 2 ^ 32"
    "dispatch_frame C f p (cl_cst (sy_client sy)) = (None, st')" by blast
  then have call: "call_step C (sy_client sy, sy_pending sy) (EvFrame f p) ((sy_client sy)\<lparr>cl_cst := st'\<rparr>, sy_pending sy)"
    by (rule frame)
  have n': "sy_got sy s < length (li_out (sy_life sy) s)" using n by (simp add: out)
  from sys_step.deliver [OF n' rd call] inv_deliver [OF inv n' rd call] that show thesis by blast
qed

lemma can_serve:
  assumes "sys_inv S err srv sy se" and "se_in se s \<noteq> []"
  shows "in_bytes (li_in (sy_life sy) s) \<noteq> []"
proof -
  have "inmsg_wire zs x \<noteq> []" for zs x
    by (cases x) (simp_all add: request_wire_def event_wire_def wire_bytes_def frame_def)
  with assms(2) sys_invD(3) [OF assms(1)] show ?thesis by (auto simp: implements_def wire_stream_def neq_Nil_conv)
qed

text \<open>A call on a stream gets there, by the steps of the stream's two loops alone.\<close>

lemma return_after:
  assumes st: "sys_step C S sy ev sy1" "ev \<in> {SyServe s, SyDeliver s}"
    and "\<exists>evs sy' r. sys_run C S sy1 (evs @ [SyReceive i c r]) sy' \<and> set evs \<subseteq> {SyServe s, SyDeliver s}"
  shows "\<exists>evs sy' r. sys_run C S sy (evs @ [SyReceive i c r]) sy' \<and> set evs \<subseteq> {SyServe s, SyDeliver s}"
proof -
  from assms(3) obtain evs sy' r where r: "sys_run C S sy1 (evs @ [SyReceive i c r]) sy'" "set evs \<subseteq> {SyServe s, SyDeliver s}"
    by blast
  from sys_run_append [OF r(1) sys_run_single [OF st(1)]] r(2) st(2) show ?thesis
    by (intro exI [of _ "ev # evs"] exI [of _ sy'] exI [of _ r]) auto
qed

lemma can_return_from:
  assumes "sys_inv S err srv sy se" and "sys_live sy se" and "serves srv (sy_sent sy)" and "(i, c) \<in> sy_pending sy"
    and "waiting (sy_client sy) i = Some (RespChan c)" and "on_stream sy se i s"
  shows "\<exists>evs sy' r. sys_run C S sy (evs @ [SyReceive i c r]) sy' \<and> set evs \<subseteq> {SyServe s, SyDeliver s}"
  using assms
proof (induction "2 * length (se_in se s) + (length (se_out se s) - sy_got sy s)" arbitrary: sy se rule: less_induct)
  case less
  note inv = less.prems(1) and live = less.prems(2) and ok = less.prems(3)
  show ?case
  proof (cases "sy_got sy s < length (se_out se s)")
    case True
    obtain cl' where step: "sys_step C S sy (SyDeliver s) (sy\<lparr>sy_client := cl', sy_got := (sy_got sy)(s := sy_got sy s + 1)\<rparr>)"
      and inv': "sys_inv S err srv (sy\<lparr>sy_client := cl', sy_got := (sy_got sy)(s := sy_got sy s + 1)\<rparr>) se"
      and v: "c_view (cl_cst cl') = deliver (se_out se s ! sy_got sy s) (c_view (cl_cst (sy_client sy)))"
      by (rule can_deliver [OF inv True])
    let ?sy = "sy\<lparr>sy_client := cl', sy_got := (sy_got sy)(s := sy_got sy s + 1)\<rparr>"
    from on_stream_deliver [OF inv True v less.prems(5,6)] consider r where "c_chans (cl_cst cl') c = Some r"
      | "waiting cl' i = Some (RespChan c)" "on_stream ?sy se i s" by fastforce
    then show ?thesis
    proof cases
      case 1
      with can_receive [of i c ?sy r] less.prems(4) obtain sy' where "sys_run C S ?sy [SyReceive i c r] sy'" by auto
      then have "sys_run C S ?sy ([] @ [SyReceive i c r]) sy' \<and> set [] \<subseteq> {SyServe s, SyDeliver s}" by simp
      then show ?thesis by (intro return_after [OF step]) blast+
    next
      case 2
      show ?thesis
        by (rule return_after [OF step _ less.hyps [OF _ inv' live_deliver [OF inv live True v]]])
          (use 2 less.prems(3,4) True in auto)
    qed
  next
    case False
    with less.prems(6) have "se_in se s \<noteq> []" by (auto simp: on_stream_def)
    then have s: "in_bytes (li_in (sy_life sy) s) \<noteq> []" by (rule can_serve [OF inv])
    obtain m ms r w where "se_in se s = Call m # ms" "service_step err (Iterates s) se =
        se\<lparr>se_in := (se_in se)(s := ms), se_out := (se_out se)(s := se_out se s @ [r]), se_world := w\<rparr>"
      by (rule service_serves [OF inv live ok s])
    with False show ?thesis
      by (intro return_after [OF sys_step.serve [OF s] _ less.hyps [OF _ inv_serve [OF inv] live_serve [OF inv live ok s]
            _ _ _ on_stream_serve [OF inv live ok s less.prems(6)]]])
        (use less.prems(3-5) in simp_all)
  qed
qed

lemma can_return:
  assumes "sys_inv S err srv sy se" and "sys_live sy se" and "serves srv (sy_sent sy)" and "(i, c) \<in> sy_pending sy"
  shows "\<exists>evs sy' r. sys_run C S sy (evs @ [SyReceive i c r]) sy' \<and> (\<forall>ident ch. SySend ident ch \<notin> set evs)"
proof (cases "c_chans (cl_cst (sy_client sy)) c")
  case (Some r)
  with can_receive [OF assms(4)] show ?thesis by (metis append_Nil empty_iff list.set(1))
next
  case None
  then obtain s where "waiting (sy_client sy) i = Some (RespChan c)" "on_stream sy se i s"
    using assms(2,4) unfolding sys_live_def under_way_def by force
  from can_return_from [OF assms this] show ?thesis by fast
qed

end

lemma rpc_systemI:
  assumes "vt_helpers_skip (m_ph C)" and "zstd_lib (m_zstd C)"
    and "\<forall>d x. length d < 2 ^ 32 \<and> DecodeAll (m_zstd C) d = Inr x \<longrightarrow> length x < 2 ^ 63"
    and "vt_helpers (e_ph S)" and "e_zstd S = m_zstd C" and "\<forall>out b. e_write S out b = None" and "answers_fit srv"
  shows "rpc_system C S srv"
proof -
  have "client_stack C" using vt_helpers_skip.axioms(1) [OF assms(1)] assms(2) by (rule client_stackI)
  moreover have "server_stack S" using assms(2,4,5) by (simp add: server_stack.intro wire_stack.intro)
  ultimately show ?thesis
    using assms(5-7) frame_returns [OF assms(1,3)] by (intro rpc_system.intro rpc_system_axioms.intro) blast+
qed

text \<open>A server with one handler, on the method of the sample request.\<close>

definition reply_server :: "(unit, nat) server" where
  "reply_server = AddHandler (gostr ''ec'') (\<lambda>w c. (Inr [CSetBody (gostr ''pong'')], w + 1)) newServer"

lemma reply_handler:
  "handlers reply_server meth = Some h \<Longrightarrow> call_handler h w m = (Ok (Response_zero\<lparr>rs_RequestId := rq_RequestId m, rs_Body := gostr ''pong''\<rparr>), w + 1)"
  by (auto simp: reply_server_def AddHandler_def newServer_def call_handler_def fresh_ctx_def Ctx_SetBody_def deref_def
      split: if_splits)

lemma reply_fits: "answers_fit reply_server"
proof -
  have "response_ok (Response_zero\<lparr>rs_RequestId := i, rs_Body := gostr ''pong''\<rparr>)" for i
    using length_uvarint_le [of i]
    by (simp add: response_ok_def enc_response_def enc_headers_def enc_opt_bytes_def enc_bytes_def
        enc_opt_varint_def enc_varint_def uvarint_def Response_zero_def gostr_def venc.simps)
  then show ?thesis using reply_handler by (auto simp: answers_fit_def answer_to_def)
qed

interpretation demo_system: rpc_system demo_menv demo_env reply_server "\<lambda>_. ErrEOF"
proof (rule rpc_systemI [OF _ _ _ _ _ _ reply_fits])
  show "\<forall>d x. length d < 2 ^ 32 \<and> DecodeAll (m_zstd demo_menv) d = Inr x \<longrightarrow> length x < 2 ^ 63"
    unfolding demo_menv_simps using ref_DecodeAll_bound by blast
qed (simp_all add: ref.vt_helpers_skip_axioms ref.vt_helpers_axioms ref_z.zstd_lib_axioms)

section \<open>Properties\<close>



text \<open>One call is sent; it can return, and returns what the handler said.\<close>

lemma demo_sent:
  obtains ch sy where "sys_run demo_menv demo_env (new_system demo_client reply_server (\<lambda>_. ErrEOF) 0) [SySend 300 ch] sy"
    and "(300, ch) \<in> sy_pending sy" and "sy_sent sy = [300 \<mapsto> sample_request]"
proof -
  let ?sy = "new_system demo_client reply_server (\<lambda>_. ErrEOF) 0 :: (unit, unit, nat) system"
  have id: "rq_RequestId sample_request = 300" by (simp add: sample_request_def)
  have cl: "sy_client ?sy = demo_client" "sy_sent ?sy = Map.empty" by (simp_all add: new_system_def)
  obtain m l i st where "ri_req demo_impl = Some m" "ri_locals demo_impl = Some l"
    "sample_request = fst (assign_id demo_menv m demo_client)" "rq_RequestId sample_request \<noteq> 0" "request_ok sample_request"
    "next_route demo_client i st" "\<forall>t. m_deadline demo_menv st t = None"
    "m_write demo_menv st (c_out (cl_cst demo_client) st) (request_wire (m_zstd demo_menv) sample_request) = None"
    using demo_sendable unfolding sendable_def by blast
  from client_stack.SendRequest_begin_ok [OF demo_stack demo_client_ok(1,2) this(1-6)] this(7,8)
  obtain ch cl' where b: "SendRequest_begin demo_menv demo_impl demo_client = (Ok (ch, 300), cl')" unfolding id by blast
  have "sys_step demo_menv demo_env ?sy (SySend 300 ch)
      (?sy\<lparr>sy_client := cl', sy_pending := insert (300, ch) (sy_pending ?sy),
           sy_life := arrive (sy_client ?sy) cl' (sy_life ?sy), sy_sent := (sy_sent ?sy)(300 \<mapsto> sample_request)\<rparr>)"
    by (rule sys_step.send) (use demo_sendable b cl in simp_all)
  from that [OF sys_run_single [OF this]] cl(2) show thesis by simp
qed

lemma demo_serves: "serves reply_server [300 \<mapsto> sample_request]"
  using reply_handler
  by (auto simp: serves_def ran_def reply_server_def AddHandler_def newServer_def sample_request_def gostr_def)

lemmas demo_rpc = ref.vt_helpers_skip_axioms ref.vt_helpers_axioms ref_z.zstd_lib_axioms reply_fits demo_client_idle



end
