(* ===== verification/Go_Float.thy ===== *)
theory Go_Float
  imports Complex_Main "HOL-Library.Log_Nat"
begin

text \<open>
  Go's \<open>float64\<close> (IEEE 754 binary64) as far as the stress tester uses it: a finite value is the
  rational number it stands for, and an operation is the exact one followed by \<open>fl\<close>, the rounding
  to the nearest representable number, ties to even, with 53 bits of precision and the exponents of
  the subnormal numbers; the compiler is taken not to fuse a multiplication with an addition, as on
  amd64. Infinities and NaN do not occur: every divisor is positive and all values are far below
  \<open>2 ^ 1024\<close>. What the proofs need of \<open>fl\<close> are the two laws of the locale \<open>rounding\<close>, which \<open>fl\<close>
  interprets: it is monotone, and exact on integers up to \<open>2 ^ 53\<close>.
\<close>

type_synonym float64 = rat

section \<open>Rounding\<close>

definition round_even :: "rat \<Rightarrow> int" where
  "round_even x =
     (let f = \<lfloor>x\<rfloor>; d = x - of_int f
      in if d < 1 / 2 \<or> (d = 1 / 2 \<and> even f) then f else f + 1)"

text \<open>The binary exponent of a positive number: \<open>2 powi e \<le> a < 2 powi (e + 1)\<close>.\<close>

definition exponent2 :: "rat \<Rightarrow> int" where
  "exponent2 a =
     (if 1 \<le> a then bitlen \<lfloor>a\<rfloor> - 1 else - bitlen (\<lceil>1 / a\<rceil> - 1))"

definition fl :: "rat \<Rightarrow> float64" where
  "fl x =
     (if x = 0 then 0
      else let e = max (exponent2 \<bar>x\<bar> - 52) (- 1074)
           in of_int (round_even (x / 2 powi e)) * 2 powi e)"

text \<open>\<open>int(x)\<close> truncates towards zero.\<close>

definition int_of_float :: "float64 \<Rightarrow> int" where
  "int_of_float x = (if x < 0 then \<lceil>x\<rceil> else \<lfloor>x\<rfloor>)"

section \<open>Lemmas\<close>

lemma round_even_int [simp]: "round_even (of_int n) = n"
  by (simp add: round_even_def)

lemma round_even_bounds: "\<lfloor>x\<rfloor> \<le> round_even x" "round_even x \<le> \<lfloor>x\<rfloor> + 1"
  by (simp_all add: round_even_def Let_def)

lemma round_even_mono:
  assumes "x \<le> y"
  shows "round_even x \<le> round_even y"
proof (cases "\<lfloor>x\<rfloor> = \<lfloor>y\<rfloor>")
  case True
  with assms show ?thesis by (auto simp: round_even_def Let_def)
next
  case False
  then have "\<lfloor>x\<rfloor> + 1 \<le> \<lfloor>y\<rfloor>" using floor_mono [OF assms] by simp
  with round_even_bounds(2) [of x] round_even_bounds(1) [of y] show ?thesis by linarith
qed

lemma powi2_pos [simp]: "0 < (2 :: rat) powi e"
  by simp

lemma powi2_mono: "a \<le> b \<Longrightarrow> (2 :: rat) powi a \<le> 2 powi b"
  by (rule power_int_increasing) simp_all

lemma powi2_less_imp: "(2 :: rat) powi a < 2 powi b \<Longrightarrow> a < b"
  by (meson linorder_not_le powi2_mono)

lemma powi2_nat: "0 \<le> e \<Longrightarrow> (2 :: rat) powi e = of_int (2 ^ nat e)"
  by (simp add: power_int_def)

lemma bitlen_powi:
  assumes "1 \<le> m"
  shows "2 powi (bitlen m - 1) \<le> (of_int m :: rat)" and "of_int m + 1 \<le> (2 :: rat) powi bitlen m"
proof -
  have k: "0 < bitlen m" using assms bitlen_eq_zero_iff [of m] bitlen_nonneg [of m] by linarith
  have "2 ^ nat (bitlen m - 1) \<le> m" "m + 1 \<le> 2 ^ nat (bitlen m)"
    using bitlen_bounds [of m] assms by simp_all
  then have "(of_int (2 ^ nat (bitlen m - 1)) :: rat) \<le> of_int m" "(of_int (m + 1) :: rat) \<le> of_int (2 ^ nat (bitlen m))"
    by (simp_all only: of_int_le_iff)
  with k show "2 powi (bitlen m - 1) \<le> (of_int m :: rat)" "of_int m + 1 \<le> (2 :: rat) powi bitlen m"
    by (simp_all add: powi2_nat)
qed

lemma exponent2_spec:
  assumes "0 < a"
  shows "2 powi exponent2 a \<le> a \<and> a < 2 powi (exponent2 a + 1)"
proof (cases "1 \<le> a")
  case True
  then have "1 \<le> \<lfloor>a\<rfloor>" by (simp add: le_floor_iff)
  from bitlen_powi [OF this] True show ?thesis
    unfolding exponent2_def by (simp add: floor_correct) linarith
next
  case False
  let ?m = "\<lceil>1 / a\<rceil> - 1" and ?k = "bitlen (\<lceil>1 / a\<rceil> - 1)"
  have "1 < 1 / a" using False assms by simp
  then have "1 \<le> ?m" by (simp add: less_ceiling_iff)
  note k = bitlen_powi [OF this]
  have m: "of_int ?m < 1 / a" "1 / a \<le> of_int ?m + 1"
    using ceiling_correct [of "1 / a"] by simp_all
  have "1 / a \<le> 2 powi ?k" "2 powi (?k - 1) < 1 / a" using k m by linarith+
  then have "1 / 2 powi ?k \<le> a" "a < 1 / 2 powi (?k - 1)" using assms
    by (simp_all add: field_simps)
  then show ?thesis
    using False power_int_minus_divide [of "2 :: rat" ?k] power_int_minus_divide [of "2 :: rat" "?k - 1"]
    by (simp add: exponent2_def)
qed

lemma exponent2_mono:
  assumes "0 < x" and "x \<le> y"
  shows "exponent2 x \<le> exponent2 y"
  using exponent2_spec [of x] exponent2_spec [of y] assms powi2_less_imp [of "exponent2 x" "exponent2 y + 1"]
  by linarith

lemma round_even_ge: "of_int n \<le> x \<Longrightarrow> n \<le> round_even x"
  using round_even_mono [of "of_int n" x] by simp

lemma round_even_le: "x \<le> of_int n \<Longrightarrow> round_even x \<le> n"
  using round_even_mono [of x "of_int n"] by simp

lemma fl_0 [simp]: "fl 0 = 0"
  by (simp add: fl_def)

lemma powi2_split: "e \<le> k \<Longrightarrow> (2 :: rat) powi k = of_int (2 ^ nat (k - e)) * 2 powi e"
  using power_int_add [of "2 :: rat" "k - e" e] powi2_nat [of "k - e"] by simp

text \<open>Rounding does not cross a power of two that is a multiple of the unit in the last place.\<close>

abbreviation ulp_exponent :: "rat \<Rightarrow> int" where
  "ulp_exponent x \<equiv> max (exponent2 \<bar>x\<bar> - 52) (- 1074)"

lemma fl_le_powi:
  assumes "0 < x" and "x \<le> 2 powi k" and "ulp_exponent x \<le> k"
  shows "fl x \<le> 2 powi k"
proof -
  let ?e = "ulp_exponent x"
  have k: "(2 :: rat) powi k = of_int (2 ^ nat (k - ?e)) * 2 powi ?e"
    using assms(3) by (rule powi2_split)
  then have "round_even (x / 2 powi ?e) \<le> 2 ^ nat (k - ?e)"
    using assms(2) by (intro round_even_le) (simp add: divide_le_eq)
  then have "(of_int (round_even (x / 2 powi ?e)) :: rat) \<le> of_int (2 ^ nat (k - ?e))"
    by (simp only: of_int_le_iff)
  with assms(1) show ?thesis by (simp only: k) (simp add: fl_def Let_def)
qed

lemma fl_ge_powi:
  assumes "2 powi k \<le> x" and "ulp_exponent x \<le> k"
  shows "2 powi k \<le> fl x"
proof -
  let ?e = "ulp_exponent x"
  have k: "(2 :: rat) powi k = of_int (2 ^ nat (k - ?e)) * 2 powi ?e"
    using assms(2) by (rule powi2_split)
  then have "2 ^ nat (k - ?e) \<le> round_even (x / 2 powi ?e)"
    using assms(1) by (intro round_even_ge) (simp add: le_divide_eq)
  then have "(of_int (2 ^ nat (k - ?e)) :: rat) \<le> of_int (round_even (x / 2 powi ?e))"
    by (simp only: of_int_le_iff)
  moreover have "x \<noteq> 0" using assms(1) zero_less_power_int [of "2 :: rat" k] by linarith
  ultimately show ?thesis by (simp only: k) (simp add: fl_def Let_def)
qed

lemma fl_nonneg: "0 \<le> x \<Longrightarrow> 0 \<le> fl x"
  using round_even_ge [of 0 "x / 2 powi ulp_exponent x"] by (simp add: fl_def Let_def)

lemma fl_mono:
  assumes "0 \<le> x" and "x \<le> y"
  shows "fl x \<le> fl y"
proof (cases "x = 0")
  case True
  with assms show ?thesis by (simp add: fl_nonneg)
next
  case False
  with assms have pos: "0 < x" "0 < y" by simp_all
  have e: "exponent2 x \<le> exponent2 y" by (rule exponent2_mono [OF pos(1) assms(2)])
  show ?thesis
  proof (cases "ulp_exponent x = ulp_exponent y")
    case True
    have "round_even (x / 2 powi ulp_exponent x) \<le> round_even (y / 2 powi ulp_exponent x)"
      using assms(2) by (intro round_even_mono divide_right_mono) simp_all
    with True pos show ?thesis by (simp add: fl_def Let_def mult_right_mono)
  next
    case False
    with e pos have lt: "exponent2 x + 1 \<le> exponent2 y" "ulp_exponent x \<le> exponent2 y"
        "ulp_exponent y \<le> exponent2 y" by auto
    have "x \<le> 2 powi exponent2 y"
      using exponent2_spec [OF pos(1)] powi2_mono [OF lt(1)] by linarith
    then have "fl x \<le> 2 powi exponent2 y" using pos lt(2) by (intro fl_le_powi)
    also have "\<dots> \<le> fl y" using exponent2_spec [OF pos(2)] lt(3) by (intro fl_ge_powi) simp_all
    finally show ?thesis .
  qed
qed

lemma fl_of_int:
  assumes "\<bar>n\<bar> \<le> 2 ^ 53"
  shows "fl (of_int n) = of_int n"
proof (cases "n = 0")
  case False
  let ?e = "ulp_exponent (of_int n)"
  have spec: "2 powi exponent2 (of_int \<bar>n\<bar>) \<le> (of_int \<bar>n\<bar> :: rat)"
    using False exponent2_spec [of "of_int \<bar>n\<bar>"] by simp
  have up: "(of_int \<bar>n\<bar> :: rat) \<le> 2 powi 53"
    using assms by (simp add: powi2_nat del: of_int_abs)
  have "exponent2 (of_int \<bar>n\<bar>) \<le> 53"
    using powi2_less_imp [of "exponent2 (of_int \<bar>n\<bar>)" 54] spec up by (simp add: power_int_numeral)
  then have e: "?e \<le> 1" by simp
  obtain m where m: "(of_int n :: rat) = of_int m * 2 powi ?e"
  proof (cases "?e = 1")
    case True
    then have "exponent2 (of_int \<bar>n\<bar>) = 53" by (simp add: max_def split: if_splits)
    then have "(2 ^ 53 :: rat) \<le> of_int \<bar>n\<bar>" using spec by simp
    then have "2 ^ 53 \<le> \<bar>n\<bar>" by (simp del: of_int_abs)
    with assms have "\<bar>n\<bar> = 2 * 2 ^ 52" by simp
    then have "even n" by (metis dvd_abs_iff dvd_triv_left)
    then obtain m where "n = 2 * m" by (elim evenE)
    with True that [of m] show thesis by simp
  next
    case False
    with e have "0 \<le> - ?e" by simp
    then have "(of_int n :: rat) = of_int (n * 2 ^ nat (- ?e)) * 2 powi ?e"
      by (simp only: of_int_mult powi2_nat [symmetric] mult.assoc) (simp flip: power_int_add)
    then show thesis by (rule that)
  qed
  then have "(of_int n :: rat) / 2 powi ?e = of_int m" by (simp add: divide_eq_eq)
  then have "fl (of_int n) = of_int m * 2 powi ?e" using False by (simp add: fl_def Let_def)
  with m show ?thesis by simp
qed simp

section \<open>The laws of rounding\<close>

locale rounding =
  fixes rnd :: "rat \<Rightarrow> rat"
  assumes rnd_mono: "0 \<le> x \<Longrightarrow> x \<le> y \<Longrightarrow> rnd x \<le> rnd y"
    and rnd_int: "\<bar>n\<bar> \<le> 2 ^ 53 \<Longrightarrow> rnd (of_int n) = of_int n"
begin

lemma le_int: "0 \<le> x \<Longrightarrow> x \<le> of_int n \<Longrightarrow> n \<le> 2 ^ 53 \<Longrightarrow> rnd x \<le> of_int n"
  by (metis abs_of_nonneg rnd_mono rnd_int of_int_0_le_iff order_trans)

lemma ge_int: "0 \<le> n \<Longrightarrow> of_int n \<le> x \<Longrightarrow> n \<le> 2 ^ 53 \<Longrightarrow> of_int n \<le> rnd x"
  by (metis abs_of_nonneg rnd_mono rnd_int of_int_0_le_iff)

lemma nonneg: "0 \<le> x \<Longrightarrow> 0 \<le> rnd x"
  using ge_int [of 0 x] by simp

lemma le_one: "0 \<le> x \<Longrightarrow> x \<le> 1 \<Longrightarrow> rnd x \<le> 1"
  using le_int [of x 1] by simp

text \<open>A rounded integer compares with a limit below \<open>2 ^ 53\<close> as the integer does.\<close>

lemma less_iff:
  assumes "0 \<le> d" and "0 \<le> n" and "n \<le> 2 ^ 53"
  shows "rnd (of_int d) < of_int n \<longleftrightarrow> d < n"
proof (cases "d < n")
  case True
  with assms rnd_int [of d] show ?thesis by simp
next
  case False
  with assms ge_int [of n "of_int d"] show ?thesis by simp
qed

text \<open>Linear interpolation between two integers.\<close>

definition lerp :: "rat \<Rightarrow> int \<Rightarrow> int \<Rightarrow> rat" where
  "lerp f a b = rnd (of_int a + rnd (f * rnd (of_int b - of_int a)))"

lemma diff_exact: "0 \<le> a \<Longrightarrow> a \<le> b \<Longrightarrow> b \<le> 2 ^ 53 \<Longrightarrow> rnd (of_int b - of_int a) = of_int (b - a)"
  using rnd_int [of "b - a"] by simp

lemma lerp_bounds:
  assumes "0 \<le> f" and "f \<le> 1" and "0 \<le> a" and "a \<le> b" and "b \<le> 2 ^ 53"
  shows "of_int a \<le> lerp f a b" and "lerp f a b \<le> of_int b"
proof -
  let ?d = "rnd (f * of_int (b - a))"
  have le: "f * of_int (b - a) \<le> of_int (b - a)" using assms by (intro mult_left_le_one_le) simp_all
  have "0 \<le> ?d" using assms by (intro nonneg mult_nonneg_nonneg) simp_all
  moreover have "?d \<le> of_int (b - a)" using assms le by (intro le_int mult_nonneg_nonneg) simp_all
  ultimately show "of_int a \<le> lerp f a b" "lerp f a b \<le> of_int b"
    unfolding lerp_def diff_exact [OF assms(3-5)] using assms by (auto intro!: ge_int le_int)
qed

lemma lerp_mono:
  assumes "0 \<le> f" and "f \<le> g" and "0 \<le> a" and "a \<le> b" and "b \<le> 2 ^ 53"
  shows "lerp f a b \<le> lerp g a b"
  unfolding lerp_def diff_exact [OF assms(3-5)] using assms
  by (intro rnd_mono add_left_mono mult_right_mono add_nonneg_nonneg nonneg mult_nonneg_nonneg) simp_all

end

interpretation ieee: rounding fl
  by unfold_locales (fact fl_mono fl_of_int)+

text \<open>The rounding on concrete numbers: the literal \<open>0.1\<close>, and two ties.\<close>

lemma fl_one_tenth: "fl (1 / 10) = 3602879701896397 / 36028797018963968"
  by code_simp

lemma fl_ties: "fl 9007199254740993 = 9007199254740992 \<and> fl 9007199254740995 = 9007199254740996"
  by code_simp

end
