(* ===== verification/Go_Format.thy ===== *)
theory Go_Format
  imports Go_Float Go_Base
begin

text \<open>
  The formatting of Go's packages \<open>fmt\<close> and \<open>strings\<close> that the stress tester uses: decimal
  integers, fixed-point numbers, padding to a width and repetition. Strings are their UTF-8 bytes.
\<close>

section \<open>Numbers\<close>

text \<open>\<open>%d\<close>.\<close>

fun decimal :: "nat \<Rightarrow> string" where
  "decimal n = (if n < 10 then [] else decimal (n div 10)) @ [char_of (48 + n mod 10)]"

declare decimal.simps [simp del]

definition Itoa :: "int \<Rightarrow> string" where
  "Itoa n = (if n < 0 then ''-'' else []) @ decimal (nat \<bar>n\<bar>)"

text \<open>The last \<open>k\<close> decimal digits, and \<open>%.kf\<close>, which rounds the exact value, ties to even.\<close>

fun last_digits :: "nat \<Rightarrow> nat \<Rightarrow> string" where
  "last_digits 0 n = []"
| "last_digits (Suc k) n = last_digits k (n div 10) @ [char_of (48 + n mod 10)]"

definition Sprintf_f :: "nat \<Rightarrow> float64 \<Rightarrow> string" where
  "Sprintf_f k x =
     (let h = nat (round_even (10 ^ k * \<bar>x\<bar>))
      in (if x < 0 then ''-'' else []) @ decimal (h div 10 ^ k) @ (if k = 0 then [] else ''.'' @ last_digits k h))"

section \<open>Strings\<close>

text \<open>The number of runes of a valid UTF-8 string: its bytes that do not continue a rune.\<close>

definition rune_count :: "string \<Rightarrow> nat" where
  "rune_count s = length (filter (\<lambda>c. of_char c < (0x80 :: nat) \<or> 0xC0 \<le> (of_char c :: nat)) s)"

text \<open>\<open>%-ws\<close> and \<open>%ws\<close>.\<close>

definition pad_right :: "nat \<Rightarrow> string \<Rightarrow> string" where
  "pad_right w s = s @ replicate (w - rune_count s) CHR '' ''"

definition pad_left :: "nat \<Rightarrow> string \<Rightarrow> string" where
  "pad_left w s = replicate (w - rune_count s) CHR '' '' @ s"

text \<open>\<open>strings.Repeat\<close>, which panics for a negative count, and \<open>strings.Join\<close>.\<close>

definition Repeat :: "string \<Rightarrow> int \<Rightarrow> string outcome" where
  "Repeat s n = (if n < 0 then Panic InvalidArgument else Ok (concat (replicate (nat n) s)))"

fun Join :: "string list \<Rightarrow> string \<Rightarrow> string" where
  "Join [] sep = []"
| "Join [s] sep = s"
| "Join (s # t # ss) sep = s @ sep @ Join (t # ss) sep"

text \<open>The UTF-8 encodings of the white space of Unicode.\<close>

definition spaces :: "string list" where
  "spaces =
     [[CHR 0x09], [CHR 0x0A], [CHR 0x0B], [CHR 0x0C], [CHR 0x0D], [CHR 0x20], [CHR 0xC2, CHR 0x85],
      [CHR 0xC2, CHR 0xA0], [CHR 0xE1, CHR 0x9A, CHR 0x80], [CHR 0xE2, CHR 0x80, CHR 0xA8],
      [CHR 0xE2, CHR 0x80, CHR 0xA9], [CHR 0xE2, CHR 0x80, CHR 0xAF], [CHR 0xE2, CHR 0x81, CHR 0x9F],
      [CHR 0xE3, CHR 0x80, CHR 0x80]] @
     map (\<lambda>i. [CHR 0xE2, CHR 0x80, char_of i]) [0x80..<0x8B]"

definition newline :: string where
  "newline = [CHR 0x0A]"

definition em_dash :: string where
  "em_dash = [CHR 0xE2, CHR 0x80, CHR 0x94]"

definition micro_sign :: string where
  "micro_sign = [CHR 0xC2, CHR 0xB5]"

definition full_block :: string where
  "full_block = [CHR 0xE2, CHR 0x96, CHR 0x88]"

section \<open>Lemmas\<close>

text \<open>Reading a decimal number back, one digit at a time.\<close>

definition read_digit :: "char \<Rightarrow> nat \<Rightarrow> nat" where
  "read_digit c n = 10 * n + (of_char c - 48)"

lemma of_char_digit [simp]: "d < 10 \<Longrightarrow> of_char (char_of (48 + d) :: char) = (48 + d :: nat)"
  by (simp add: of_char_of)

lemma read_digit_digit [simp]: "d < 10 \<Longrightarrow> read_digit (char_of (48 + d)) n = 10 * n + d"
  by (simp add: read_digit_def)

lemma read_decimal: "fold read_digit (decimal n) 0 = n"
proof (induction n rule: decimal.induct)
  case (1 n)
  then show ?case by (subst decimal.simps) simp
qed

lemma decimal_digits: "c \<in> set (decimal n) \<Longrightarrow> 48 \<le> (of_char c :: nat) \<and> (of_char c :: nat) < 58"
proof (induction n rule: decimal.induct)
  case (1 n)
  from 1(2) show ?case
    by (subst (asm) decimal.simps) (auto dest: 1(1) split: if_splits)
qed

lemma decimal_not_Nil [simp]: "decimal n \<noteq> []"
  by (subst decimal.simps) simp

lemma decimal_inj [simp]: "decimal m = decimal n \<longleftrightarrow> m = n"
  by (metis read_decimal)

lemma last_digits_length [simp]: "length (last_digits k n) = k"
  by (induction k arbitrary: n) simp_all

lemma read_last_digits: "fold read_digit (last_digits k n) m = 10 ^ k * m + n mod 10 ^ k"
proof (induction k arbitrary: n)
  case (Suc k)
  have "10 * (n div 10 mod 10 ^ k) + n mod 10 = n mod 10 ^ Suc k"
    by (simp add: mod_mult2_eq)
  with Suc show ?case by simp
qed simp

text \<open>
  What \<open>%.kf\<close> prints is the number rounded to \<open>k\<close> decimals: without its point it reads as the
  nearest multiple of \<open>10 ^ - k\<close>.
\<close>

lemma read_Sprintf_f:
  assumes "0 \<le> x"
  shows "fold read_digit (filter (\<lambda>c. c \<noteq> CHR ''.'') (Sprintf_f k x)) 0 = nat (round_even (10 ^ k * x))"
proof -
  have nodot: "filter (\<lambda>c. c \<noteq> CHR ''.'') s = s" if "\<And>c. c \<in> set s \<Longrightarrow> 48 \<le> (of_char c :: nat)" for s
    using that by (intro filter_True) force
  have last: "48 \<le> (of_char c :: nat)" if "c \<in> set (last_digits k n)" for c n
    using that by (induction k arbitrary: n) auto
  show ?thesis
    using assms nodot [of "decimal _"] nodot [OF last] decimal_digits
    by (simp add: Sprintf_f_def Let_def read_decimal read_last_digits nodot)
qed

lemma pad_right_rune_count: "rune_count (pad_right w s) = max w (rune_count s)"
  by (simp add: pad_right_def rune_count_def)

lemma pad_left_rune_count: "rune_count (pad_left w s) = max w (rune_count s)"
  by (simp add: pad_left_def rune_count_def)

end
