(* ===== verification/Proto_Descriptor.thy ===== *)
theory Proto_Descriptor
  imports Vt_Codec Go_Format "HOL-Library.Monad_Syntax"
begin

text \<open>
  The descriptor that \<open>protos/pb/gen/schema.pb.go\<close> embeds, and its registration. The constant
  \<open>file_schema_proto_rawDesc\<close> is the serialised \<open>FileDescriptorProto\<close> of \<open>schema.proto\<close>. A reference
  reader of the wire format turns it back into messages and fields, and a reference encoder writes a
  message as its descriptor says. The code of \<open>schema_vtproto.pb.go\<close>, which was generated separately
  and never looks at the descriptor, is shown to write exactly that, and the tags of the structs to
  say the same as the descriptor.
\<close>

section \<open>The embedded descriptor\<close>

text \<open>The lines of the constant; \<open>\n\<close> is 10, \<open>\f\<close> 12, \<open>\a\<close> 7, \<open>\t\<close> 9, \<open>\b\<close> 8, \<open>\r\<close> 13.\<close>

definition file_schema_proto_rawDesc :: bytes where
  "file_schema_proto_rawDesc =
     [10] @
     12 # gostr ''schema.proto'' @ 34 # gostr ''n'' @ [10] @
     7 # gostr ''Request'' @ [0x12, 0x1d, 10] @
     [10] @
     gostr ''request_id'' @ [0x18, 0x03] @ gostr '' '' @ [0x01] @ gostr ''('' @ [0x04] @ gostr ''R'' @ 9 # gostr ''requestId'' @ [0x12, 0x18, 10] @
     7 # gostr ''headers'' @ [0x18, 0x01] @ gostr '' '' @ [0x03] @ gostr ''('' @ [12] @ gostr ''R'' @ 7 # gostr ''headers'' @ [0x12, 0x16, 10] @
     0x06 # gostr ''method'' @ [0x18, 0x02] @ gostr '' '' @ [0x01] @ gostr ''('' @ [12] @ gostr ''R'' @ 0x06 # gostr ''method'' @ [0x12, 0x12, 10] @
     0x04 # gostr ''body'' @ [0x18, 0x04] @ gostr '' '' @ [0x01] @ gostr ''('' @ [12] @ gostr ''R'' @ 0x04 # gostr ''body'' @ [34, 0x83, 0x01, 10] @
     8 # gostr ''Response'' @ [0x12, 0x1d, 10] @
     [10] @
     gostr ''request_id'' @ [0x18, 0x03] @ gostr '' '' @ [0x01] @ gostr ''('' @ [0x04] @ gostr ''R'' @ 9 # gostr ''requestId'' @ [0x12, 0x12, 10] @
     0x04 # gostr ''code'' @ [0x18, 0x05] @ gostr '' '' @ [0x01] @ gostr ''('' @ [13] @ gostr ''R'' @ 0x04 # gostr ''code'' @ [0x12, 0x18, 10] @
     7 # gostr ''headers'' @ [0x18, 0x01] @ gostr '' '' @ [0x03] @ gostr ''('' @ [12] @ gostr ''R'' @ 7 # gostr ''headers'' @ [0x12, 0x16, 10] @
     0x06 # gostr ''method'' @ [0x18, 0x02] @ gostr '' '' @ [0x01] @ gostr ''('' @ [12] @ gostr ''R'' @ 0x06 # gostr ''method'' @ [0x12, 0x12, 10] @
     0x04 # gostr ''body'' @ [0x18, 0x04] @ gostr '' '' @ [0x01] @ gostr ''('' @ [12] @ gostr ''R'' @ 0x04 # gostr ''body'' @ gostr ''B'' @
       8 # gostr ''Z'' @ 0x06 # gostr ''pb/genb'' @ 0x06 # gostr ''proto3''"

section \<open>Reading a descriptor\<close>

text \<open>The wire format: a message is a list of numbered fields, each a varint or a string of bytes.\<close>

datatype wire_value = Varint nat | Delimited bytes

fun read_uvarint :: "bytes \<Rightarrow> (nat \<times> bytes) option" where
  "read_uvarint [] = None"
| "read_uvarint (b # bs) =
     (if unat b < 128 then Some (unat b, bs)
      else (case read_uvarint bs of None \<Rightarrow> None | Some (n, rest) \<Rightarrow> Some (unat b - 128 + 128 * n, rest)))"

lemma read_uvarint_shorter: "read_uvarint bs = Some (n, rest) \<Longrightarrow> length rest < length bs"
  by (induction bs arbitrary: n rest) (auto split: if_splits option.splits prod.splits dest: less_SucI)

function read_fields :: "bytes \<Rightarrow> (nat \<times> wire_value) list option" where
  "read_fields bs =
     (if bs = [] then Some []
      else
        (case read_uvarint bs of
           None \<Rightarrow> None
         | Some (tag, bs1) \<Rightarrow>
             (case read_uvarint bs1 of
                None \<Rightarrow> None
              | Some (n, bs2) \<Rightarrow>
                  if tag mod 8 = 0 then map_option ((#) (tag div 8, Varint n)) (read_fields bs2)
                  else if tag mod 8 = 2 \<and> n \<le> length bs2
                  then map_option ((#) (tag div 8, Delimited (take n bs2))) (read_fields (drop n bs2))
                  else None)))"
  by pat_completeness auto
termination
  by (relation "measure length") (auto dest!: read_uvarint_shorter)

declare read_fields.simps [simp del]

datatype proto_label = LABEL_OPTIONAL | LABEL_REPEATED
datatype proto_type = TYPE_UINT64 | TYPE_UINT32 | TYPE_BYTES

record field_desc =
  fd_name :: bytes
  fd_number :: nat
  fd_label :: proto_label
  fd_type :: proto_type
  fd_json :: bytes

record message_desc =
  md_name :: bytes
  md_fields :: "field_desc list"

record file_desc =
  fi_name :: bytes
  fi_messages :: "message_desc list"
  fi_options :: bytes
  fi_syntax :: bytes

text \<open>The values of the fields with a number.\<close>

definition varints :: "nat \<Rightarrow> (nat \<times> wire_value) list \<Rightarrow> nat list" where
  "varints n fs = concat (map (\<lambda>(k, v). case v of Varint x \<Rightarrow> if k = n then [x] else [] | _ \<Rightarrow> []) fs)"

definition delimited :: "nat \<Rightarrow> (nat \<times> wire_value) list \<Rightarrow> bytes list" where
  "delimited n fs = concat (map (\<lambda>(k, v). case v of Delimited b \<Rightarrow> if k = n then [b] else [] | _ \<Rightarrow> []) fs)"

definition the_one :: "'a list \<Rightarrow> 'a option" where
  "the_one xs = (case xs of [x] \<Rightarrow> Some x | _ \<Rightarrow> None)"

fun all_some :: "'a option list \<Rightarrow> 'a list option" where
  "all_some [] = Some []"
| "all_some (None # xs) = None"
| "all_some (Some x # xs) = map_option ((#) x) (all_some xs)"

text \<open>
  \<open>FieldDescriptorProto\<close>, \<open>DescriptorProto\<close> and \<open>FileDescriptorProto\<close>, with the fields that occur here:
  a descriptor with any other field is not read.
\<close>

definition read_label :: "nat \<Rightarrow> proto_label option" where
  "read_label n = (if n = 1 then Some LABEL_OPTIONAL else if n = 3 then Some LABEL_REPEATED else None)"

definition read_type :: "nat \<Rightarrow> proto_type option" where
  "read_type n = (if n = 4 then Some TYPE_UINT64 else if n = 13 then Some TYPE_UINT32 else if n = 12 then Some TYPE_BYTES else None)"

definition read_field_desc :: "bytes \<Rightarrow> field_desc option" where
  "read_field_desc bs =
     do {
       fs \<leftarrow> read_fields bs;
       name \<leftarrow> the_one (delimited 1 fs);
       number \<leftarrow> the_one (varints 3 fs);
       label \<leftarrow> Option.bind (the_one (varints 4 fs)) read_label;
       typ \<leftarrow> Option.bind (the_one (varints 5 fs)) read_type;
       json \<leftarrow> the_one (delimited 10 fs);
       if length fs = 5 then Some \<lparr>fd_name = name, fd_number = number, fd_label = label, fd_type = typ, fd_json = json\<rparr>
       else None
     }"

definition read_message_desc :: "bytes \<Rightarrow> message_desc option" where
  "read_message_desc bs =
     do {
       fs \<leftarrow> read_fields bs;
       name \<leftarrow> the_one (delimited 1 fs);
       fields \<leftarrow> all_some (map read_field_desc (delimited 2 fs));
       if length fs = length fields + 1 then Some \<lparr>md_name = name, md_fields = fields\<rparr> else None
     }"

definition read_file_desc :: "bytes \<Rightarrow> file_desc option" where
  "read_file_desc bs =
     do {
       fs \<leftarrow> read_fields bs;
       name \<leftarrow> the_one (delimited 1 fs);
       messages \<leftarrow> all_some (map read_message_desc (delimited 4 fs));
       options \<leftarrow> the_one (delimited 8 fs);
       syntax' \<leftarrow> the_one (delimited 12 fs);
       if length fs = length messages + 3
       then Some \<lparr>fi_name = name, fi_messages = messages, fi_options = options, fi_syntax = syntax'\<rparr> else None
     }"

section \<open>The schema\<close>

text \<open>\<open>protos/schema.proto\<close>.\<close>

definition proto_field :: "string \<Rightarrow> string \<Rightarrow> nat \<Rightarrow> proto_label \<Rightarrow> proto_type \<Rightarrow> field_desc" where
  "proto_field name json n l t = \<lparr>fd_name = gostr name, fd_number = n, fd_label = l, fd_type = t, fd_json = gostr json\<rparr>"

definition request_fields :: "field_desc list" where
  "request_fields =
     [proto_field ''request_id'' ''requestId'' 3 LABEL_OPTIONAL TYPE_UINT64,
      proto_field ''headers'' ''headers'' 1 LABEL_REPEATED TYPE_BYTES,
      proto_field ''method'' ''method'' 2 LABEL_OPTIONAL TYPE_BYTES,
      proto_field ''body'' ''body'' 4 LABEL_OPTIONAL TYPE_BYTES]"

definition response_fields :: "field_desc list" where
  "response_fields =
     [proto_field ''request_id'' ''requestId'' 3 LABEL_OPTIONAL TYPE_UINT64,
      proto_field ''code'' ''code'' 5 LABEL_OPTIONAL TYPE_UINT32,
      proto_field ''headers'' ''headers'' 1 LABEL_REPEATED TYPE_BYTES,
      proto_field ''method'' ''method'' 2 LABEL_OPTIONAL TYPE_BYTES,
      proto_field ''body'' ''body'' 4 LABEL_OPTIONAL TYPE_BYTES]"

definition schema_proto :: file_desc where
  "schema_proto =
     \<lparr>fi_name = gostr ''schema.proto'',
      fi_messages = [\<lparr>md_name = gostr ''Request'', md_fields = request_fields\<rparr>,
                     \<lparr>md_name = gostr ''Response'', md_fields = response_fields\<rparr>],
      fi_options = gostr ''Z'' @ 6 # gostr ''pb/gen'', fi_syntax = gostr ''proto3''\<rparr>"

text \<open>The tags of the two structs, in the order of their fields.\<close>

definition Request_tags :: "string list" where
  "Request_tags =
     [''varint,3,opt,name=request_id,json=requestId,proto3'', ''bytes,1,rep,name=headers,proto3'',
      ''bytes,2,opt,name=method,proto3'', ''bytes,4,opt,name=body,proto3'']"

definition Response_tags :: "string list" where
  "Response_tags =
     [''varint,3,opt,name=request_id,json=requestId,proto3'', ''varint,5,opt,name=code,proto3'',
      ''bytes,1,rep,name=headers,proto3'', ''bytes,2,opt,name=method,proto3'', ''bytes,4,opt,name=body,proto3'']"

text \<open>What a field's descriptor says in the form of a tag.\<close>

definition struct_tag :: "field_desc \<Rightarrow> bytes" where
  "struct_tag fd =
     gostr ((case fd_type fd of TYPE_BYTES \<Rightarrow> ''bytes,'' | _ \<Rightarrow> ''varint,'') @ decimal (fd_number fd) @
       (case fd_label fd of LABEL_OPTIONAL \<Rightarrow> '',opt,name='' | LABEL_REPEATED \<Rightarrow> '',rep,name='')) @
     fd_name fd @ (if fd_json fd = fd_name fd then [] else gostr '',json='' @ fd_json fd) @ gostr '',proto3''"

section \<open>Encoding by descriptor\<close>

text \<open>
  The encoding of the protocol-buffer language for these types: fields in the order of their numbers,
  scalar fields without presence only when they are not zero, a repeated field once per element.
\<close>

datatype proto_value = PUint u64 | PBytes bytes | PList "bytes list"

definition wire_type :: "proto_type \<Rightarrow> nat" where
  "wire_type t = (case t of TYPE_BYTES \<Rightarrow> 2 | _ \<Rightarrow> 0)"

definition field_tag :: "field_desc \<Rightarrow> bytes" where
  "field_tag fd = venc (8 * fd_number fd + wire_type (fd_type fd))"

fun enc_value :: "field_desc \<Rightarrow> proto_value \<Rightarrow> bytes" where
  "enc_value fd (PUint v) = (if v = 0 then [] else field_tag fd @ venc (unat v))"
| "enc_value fd (PBytes b) = (if b = [] then [] else field_tag fd @ venc (length b) @ b)"
| "enc_value fd (PList bs) = concat (map (\<lambda>b. field_tag fd @ venc (length b) @ b) bs)"

text \<open>The values that a field of this type and label can have.\<close>

fun typed_value :: "field_desc \<Rightarrow> proto_value \<Rightarrow> bool" where
  "typed_value fd (PUint v) \<longleftrightarrow> fd_label fd = LABEL_OPTIONAL \<and>
     (fd_type fd = TYPE_UINT64 \<or> fd_type fd = TYPE_UINT32 \<and> unat v < 2 ^ 32)"
| "typed_value fd (PBytes b) \<longleftrightarrow> fd_label fd = LABEL_OPTIONAL \<and> fd_type fd = TYPE_BYTES"
| "typed_value fd (PList bs) \<longleftrightarrow> fd_label fd = LABEL_REPEATED \<and> fd_type fd = TYPE_BYTES"

type_synonym message_values = "(bytes \<times> proto_value) list"

definition enc_by_desc :: "message_desc \<Rightarrow> message_values \<Rightarrow> bytes option" where
  "enc_by_desc d vals =
     map_option concat (all_some (map (\<lambda>fd.
       case map_of vals (fd_name fd) of
         Some v \<Rightarrow> if typed_value fd v then Some (enc_value fd v) else None
       | None \<Rightarrow> None) (sort_key fd_number (md_fields d))))"

definition request_values :: "request \<Rightarrow> message_values" where
  "request_values m =
     [(gostr ''request_id'', PUint (rq_RequestId m)), (gostr ''headers'', PList (rq_Headers m)),
      (gostr ''method'', PBytes (rq_Method m)), (gostr ''body'', PBytes (rq_Body m))]"

definition response_values :: "response \<Rightarrow> message_values" where
  "response_values m =
     [(gostr ''request_id'', PUint (rs_RequestId m)), (gostr ''code'', PUint (ucast (rs_Code m))),
      (gostr ''headers'', PList (rs_Headers m)), (gostr ''method'', PBytes (rs_Method m)), (gostr ''body'', PBytes (rs_Body m))]"

section \<open>Registration\<close>

text \<open>
  The package variables: the file descriptor once it is built, the two tables that are dropped then,
  and the compressed descriptor, which is made at the first use. \<open>build\<close> is \<open>TypeBuilder.Build\<close>, \<open>gzip\<close>
  is \<open>CompressGZIP\<close>.
\<close>

record 'f proto_registry =
  pr_File :: "'f option"
  pr_goTypes :: "string list option"
  pr_depIdxs :: "int list option"
  pr_rawDescData :: "bytes option"

definition proto_registry_zero :: "'f proto_registry" where
  "proto_registry_zero =
     \<lparr>pr_File = None, pr_goTypes = Some [''Request'', ''Response''], pr_depIdxs = Some [0, 0, 0, 0, 0], pr_rawDescData = None\<rparr>"

definition file_schema_proto_init ::
    "(bytes \<Rightarrow> nat \<Rightarrow> string list option \<Rightarrow> int list option \<Rightarrow> 'f) \<Rightarrow> 'f proto_registry \<Rightarrow> 'f proto_registry" where
  "file_schema_proto_init build st =
     (if pr_File st \<noteq> None then st
      else st\<lparr>pr_File := Some (build file_schema_proto_rawDesc 2 (pr_goTypes st) (pr_depIdxs st)),
              pr_goTypes := None, pr_depIdxs := None\<rparr>)"

definition file_schema_proto_rawDescGZIP :: "(bytes \<Rightarrow> bytes) \<Rightarrow> 'f proto_registry \<Rightarrow> bytes \<times> 'f proto_registry" where
  "file_schema_proto_rawDescGZIP gzip st =
     (case pr_rawDescData st of
        Some d \<Rightarrow> (d, st)
      | None \<Rightarrow> let d = gzip file_schema_proto_rawDesc in (d, st\<lparr>pr_rawDescData := Some d\<rparr>))"

definition Request_Descriptor :: "(bytes \<Rightarrow> bytes) \<Rightarrow> 'f proto_registry \<Rightarrow> (bytes \<times> nat list) \<times> 'f proto_registry" where
  "Request_Descriptor gzip st = (let (d, st) = file_schema_proto_rawDescGZIP gzip st in ((d, [0]), st))"

definition Response_Descriptor :: "(bytes \<Rightarrow> bytes) \<Rightarrow> 'f proto_registry \<Rightarrow> (bytes \<times> nat list) \<times> 'f proto_registry" where
  "Response_Descriptor gzip st = (let (d, st) = file_schema_proto_rawDescGZIP gzip st in ((d, [1]), st))"

text \<open>
  The field \<open>state\<close> of a message holds its message info, an index into \<open>file_schema_proto_msgTypes\<close>, or
  nil. \<open>ProtoReflect\<close> returns the state of the message, or the info's view of a nil message.
\<close>

type_synonym message_state = "nat option"

datatype reflected = OfState message_state | OfNil nat

definition proto_reflect :: "nat \<Rightarrow> message_state option \<Rightarrow> reflected \<times> message_state option" where
  "proto_reflect mi x =
     (case x of
        None \<Rightarrow> (OfNil mi, None)
      | Some ms \<Rightarrow> let ms = (if ms = None then Some mi else ms) in (OfState ms, Some ms))"

definition Request_ProtoReflect :: "message_state option \<Rightarrow> reflected \<times> message_state option" where
  "Request_ProtoReflect = proto_reflect 0"

definition Response_ProtoReflect :: "message_state option \<Rightarrow> reflected \<times> message_state option" where
  "Response_ProtoReflect = proto_reflect 1"

section \<open>Lemmas\<close>

lemma rawDesc_is_schema: "read_file_desc file_schema_proto_rawDesc = Some schema_proto"
  by code_simp

lemma struct_tags:
  "map gostr Request_tags = map struct_tag request_fields" "map gostr Response_tags = map struct_tag response_fields"
  by code_simp+

text \<open>The order on the wire is that of the field numbers.\<close>

lemma sorted_fields:
  "sort_key fd_number request_fields = [request_fields ! 1, request_fields ! 2, request_fields ! 0, request_fields ! 3]"
  "sort_key fd_number response_fields =
     [response_fields ! 2, response_fields ! 3, response_fields ! 0, response_fields ! 4, response_fields ! 1]"
  by (simp_all add: request_fields_def response_fields_def proto_field_def)

lemma field_tags:
  "map field_tag request_fields = [[0x18], [0x0a], [0x12], [0x22]]"
  "map field_tag response_fields = [[0x18], [0x28], [0x0a], [0x12], [0x22]]"
  by code_simp+

lemma request_by_desc:
  assumes "md_fields d = request_fields"
  shows "map_option (\<lambda>b. b @ rq_unknownFields m) (enc_by_desc d (request_values m)) = Some (enc_request m)"
  using field_tags(1) unfolding enc_by_desc_def assms sorted_fields
  by (simp add: request_fields_def proto_field_def request_values_def gostr_def enc_request_def enc_headers_def
      enc_opt_bytes_def enc_opt_varint_def enc_bytes_def [abs_def] enc_varint_def uvarint_def)

lemma response_by_desc:
  assumes "md_fields d = response_fields"
  shows "map_option (\<lambda>b. b @ rs_unknownFields m) (enc_by_desc d (response_values m)) = Some (enc_response m)"
  using field_tags(2) unat_u32_less [of "rs_Code m"] unfolding enc_by_desc_def assms sorted_fields
  by (simp add: response_fields_def proto_field_def response_values_def gostr_def enc_response_def enc_headers_def
      enc_opt_bytes_def enc_opt_varint_def enc_bytes_def [abs_def] enc_varint_def uvarint_def unat_ucast_u32 ucast_u32_eq_0)

text \<open>The registry is built once, and the descriptor is compressed once.\<close>

lemma init_once: "file_schema_proto_init build (file_schema_proto_init build st) = file_schema_proto_init build st"
  by (simp add: file_schema_proto_init_def)

lemma rawDescGZIP_once:
  assumes "file_schema_proto_rawDescGZIP gzip st = (d, st')"
  shows "file_schema_proto_rawDescGZIP gzip' st' = (d, st')"
  using assms by (auto simp: file_schema_proto_rawDescGZIP_def Let_def split: option.splits)

lemma reflect_keeps_info:
  "proto_reflect mi (snd (proto_reflect mi x)) = proto_reflect mi x"
  by (auto simp: proto_reflect_def Let_def split: option.splits)

text \<open>
  C18. The embedded descriptor can be read: it holds the messages \<open>Request\<close> and \<open>Response\<close> of
  \<open>schema.proto\<close>. The tags of the two structs say what it says of their fields, and the separately
  generated \<open>MarshalVT\<close> writes the bytes that it prescribes for the values of the message, field by field
  in the order of the field numbers, followed by the unknown fields.
\<close>

theorem marshalling_follows_descriptor:
  assumes "vt_helpers ph" and "request_fits rq" and "response_fits rs"
  shows "\<exists>fd rqd rsd. read_file_desc file_schema_proto_rawDesc = Some fd \<and> fi_messages fd = [rqd, rsd] \<and>
    md_name rqd = gostr ''Request'' \<and> md_name rsd = gostr ''Response'' \<and>
    map struct_tag (md_fields rqd) = map gostr Request_tags \<and> map struct_tag (md_fields rsd) = map gostr Response_tags \<and>
    (\<exists>b. enc_by_desc rqd (request_values rq) = Some b \<and> Request_MarshalVT ph (Some rq) = Ok (b @ rq_unknownFields rq)) \<and>
    (\<exists>b. enc_by_desc rsd (response_values rs) = Some b \<and> Response_MarshalVT ph (Some rs) = Ok (b @ rs_unknownFields rs))"
proof -
  let ?rqd = "\<lparr>md_name = gostr ''Request'', md_fields = request_fields\<rparr>"
  let ?rsd = "\<lparr>md_name = gostr ''Response'', md_fields = response_fields\<rparr>"
  obtain b where rq: "enc_by_desc ?rqd (request_values rq) = Some b" "enc_request rq = b @ rq_unknownFields rq"
    using request_by_desc [of ?rqd rq] by auto
  obtain b' where rs: "enc_by_desc ?rsd (response_values rs) = Some b'" "enc_response rs = b' @ rs_unknownFields rs"
    using response_by_desc [of ?rsd rs] by auto
  have "Request_MarshalVT ph (Some rq) = Ok (b @ rq_unknownFields rq)"
    "Response_MarshalVT ph (Some rs) = Ok (b' @ rs_unknownFields rs)"
    using vt_helpers.Request_MarshalVT_eq [OF assms(1,2)] vt_helpers.Response_MarshalVT_eq [OF assms(1,3)] rq(2) rs(2) by simp_all
  then show ?thesis
    using rq(1) rs(1)
    by (intro exI [of _ schema_proto] exI [of _ ?rqd] exI [of _ ?rsd])
      (simp add: rawDesc_is_schema struct_tags, simp add: schema_proto_def)
qed

theorem marshalling_follows_descriptor_witness:
  "\<exists>fd rqd rsd b. read_file_desc file_schema_proto_rawDesc = Some fd \<and> fi_messages fd = [rqd, rsd] \<and>
    enc_by_desc rsd (response_values sample_response) = Some b \<and> Response_MarshalVT ref_helpers (Some sample_response) = Ok b"
  using marshalling_follows_descriptor [OF ref.vt_helpers_axioms sample_request_fits sample_response_fits]
  by (auto simp: sample_response_def)

end
