(* ===== verification/Zstd_Pools.thy ===== *)
theory Zstd_Pools
  imports Frame_Encoder
begin

text \<open>
  The pools of zstd encoders and decoders of \<open>internal/encoder.go\<close>. \<open>CompressZstd\<close> and
  \<open>DecompressZstd\<close> take an object from a pool, use it and put it back, and any number of calls may be
  between those two steps at the same time. The objects have a state of their own, which the library
  may change with every use; the locale \<open>pooled_object\<close> says what the program relies on, that the
  result does not depend on it. The calls then behave as the functions \<open>CompressZstd\<close> and
  \<open>DecompressZstd\<close> of \<open>Frame_Encoder\<close>, which the rest of the development uses.
\<close>

section \<open>The pools\<close>

text \<open>The library: \<open>zstd.NewWriter\<close>, \<open>zstd.NewReader\<close> and the methods of the objects that they make.\<close>

record ('e, 'd) zstd_objects =
  NewWriter :: "go_error + 'e"
  NewReader :: "go_error + 'd"
  enc_EncodeAll :: "'e \<Rightarrow> bytes \<Rightarrow> bytes \<times> 'e"
  dec_DecodeAll :: "'d \<Rightarrow> bytes \<Rightarrow> (go_error + bytes) \<times> 'd"

text \<open>\<open>New\<close> of the two pools panics when the library returns an error.\<close>

definition panic_on_error :: "go_error + 'o \<Rightarrow> 'o outcome" where
  "panic_on_error r = (case r of Inl err \<Rightarrow> Panic (PanicError err) | Inr x \<Rightarrow> Ok x)"

definition zstdEncPool_New :: "('e, 'd) zstd_objects \<Rightarrow> 'e outcome" where
  "zstdEncPool_New lib = panic_on_error (NewWriter lib)"

definition zstdDecPool_New :: "('e, 'd) zstd_objects \<Rightarrow> 'd outcome" where
  "zstdDecPool_New lib = panic_on_error (NewReader lib)"

text \<open>\<open>Get\<close> of a pool whose \<open>New\<close> may panic: \<open>New\<close> is called only when no pooled object is chosen.\<close>

definition pool_get_new :: "nat \<Rightarrow> 'o outcome \<Rightarrow> 'o list \<Rightarrow> 'o outcome \<times> 'o list" where
  "pool_get_new k new pool =
     (if k < length pool then (Ok (pool ! k), take k pool @ drop (Suc k) pool) else (new, pool))"

definition with_pooled ::
    "nat \<Rightarrow> 'o outcome \<Rightarrow> ('o \<Rightarrow> bytes \<Rightarrow> 'r \<times> 'o) \<Rightarrow> bytes \<Rightarrow> 'o list \<Rightarrow> 'r outcome \<times> 'o list" where
  "with_pooled k new work src pool =
     (case pool_get_new k new pool of
        (Ok x, pool) \<Rightarrow> (case work x src of (r, x) \<Rightarrow> (Ok r, pool_put x pool))
      | (Err e, pool) \<Rightarrow> (Err e, pool)
      | (Panic p, pool) \<Rightarrow> (Panic p, pool)
      | (Diverge, pool) \<Rightarrow> (Diverge, pool))"

definition enc_work :: "('e, 'd) zstd_objects \<Rightarrow> 'e \<Rightarrow> bytes \<Rightarrow> (go_error + bytes) \<times> 'e" where
  "enc_work lib enc src = (case enc_EncodeAll lib enc src of (d, enc) \<Rightarrow> (Inr d, enc))"

definition CompressZstd_pooled ::
    "('e, 'd) zstd_objects \<Rightarrow> nat \<Rightarrow> bytes \<Rightarrow> 'e list \<Rightarrow> (go_error + bytes) outcome \<times> 'e list" where
  "CompressZstd_pooled lib k =
     with_pooled k (zstdEncPool_New lib) (enc_work lib)"

definition DecompressZstd_pooled ::
    "('e, 'd) zstd_objects \<Rightarrow> nat \<Rightarrow> bytes \<Rightarrow> 'd list \<Rightarrow> (go_error + bytes) outcome \<times> 'd list" where
  "DecompressZstd_pooled lib k = with_pooled k (zstdDecPool_New lib) (dec_DecodeAll lib)"

section \<open>Concurrent calls\<close>

text \<open>
  Calls over one pool, interleaved: a call takes its object (or its goroutine panics), and later
  finishes with a result and puts the object back. The state holds the pool and, for each call
  between the two steps, its input and its object.
\<close>

datatype 'r pool_call_event = CallTakes nat bytes | CallPanics nat | CallEnds nat bytes 'r

inductive pool_call_step ::
    "'o outcome \<Rightarrow> ('o \<Rightarrow> bytes \<Rightarrow> 'r \<times> 'o) \<Rightarrow> 'o list \<times> (nat \<rightharpoonup> bytes \<times> 'o) \<Rightarrow> 'r pool_call_event \<Rightarrow>
     'o list \<times> (nat \<rightharpoonup> bytes \<times> 'o) \<Rightarrow> bool"
  for new work where
  takes: "A c = None \<Longrightarrow> pool_get_new k new pool = (Ok x, pool') \<Longrightarrow>
    pool_call_step new work (pool, A) (CallTakes c src) (pool', A(c \<mapsto> (src, x)))"
| panics: "A c = None \<Longrightarrow> pool_get_new k new pool = (Panic p, pool') \<Longrightarrow>
    pool_call_step new work (pool, A) (CallPanics c) (pool', A)"
| ends: "A c = Some (src, x) \<Longrightarrow> work x src = (r, x') \<Longrightarrow>
    pool_call_step new work (pool, A) (CallEnds c src r) (pool_put x' pool, A(c := None))"

inductive pool_call_run for new work where
  run_empty: "pool_call_run new work s [] s"
| run_more: "pool_call_run new work s evs s' \<Longrightarrow> pool_call_step new work s' ev s'' \<Longrightarrow>
    pool_call_run new work s (evs @ [ev]) s''"

section \<open>The contract\<close>

text \<open>
  An object is fit for use when it is new and stays so, and a fit object's result is the one of the
  function \<open>spec\<close>.
\<close>

definition pool_fit :: "('o \<Rightarrow> bool) \<Rightarrow> 'o list \<Rightarrow> bool" where
  "pool_fit fit pool \<longleftrightarrow> (\<forall>x \<in> set pool. fit x)"

definition calls_fit :: "('o \<Rightarrow> bool) \<Rightarrow> 'o list \<times> (nat \<rightharpoonup> bytes \<times> 'o) \<Rightarrow> bool" where
  "calls_fit fit = (\<lambda>(pool, A). pool_fit fit pool \<and> (\<forall>c src x. A c = Some (src, x) \<longrightarrow> fit x))"

locale pooled_object =
  fixes new :: "'o outcome" and work :: "'o \<Rightarrow> bytes \<Rightarrow> 'r \<times> 'o" and spec :: "bytes \<Rightarrow> 'r" and fit :: "'o \<Rightarrow> bool"
  assumes new_fit: "new = Ok x \<Longrightarrow> fit x"
    and work_spec: "fit x \<Longrightarrow> fst (work x src) = spec src"
    and work_fit: "fit x \<Longrightarrow> fit (snd (work x src))"
begin

lemma get_fit:
  assumes "pool_fit fit pool" and "pool_get_new k new pool = (r, pool')"
  shows "pool_fit fit pool'" and "r = Ok x \<Longrightarrow> fit x"
proof -
  have "set pool' \<subseteq> set pool"
    using assms(2) set_take_subset set_drop_subset by (fastforce simp: pool_get_new_def split: if_splits)
  then show "pool_fit fit pool'" using assms(1) by (auto simp: pool_fit_def)
  show "fit x" if "r = Ok x"
    using that assms new_fit by (auto simp: pool_get_new_def pool_fit_def split: if_splits)
qed

lemma put_fit: "pool_fit fit pool \<Longrightarrow> fit x \<Longrightarrow> pool_fit fit (pool_put x pool)"
  by (simp add: pool_fit_def pool_put_def)

lemma with_pooled_spec:
  assumes "pool_fit fit pool" and "new = Ok x \<or> k < length pool"
  shows "\<exists>pool'. with_pooled k new work src pool = (Ok (spec src), pool') \<and> pool_fit fit pool'"
proof -
  obtain y pool' where g: "pool_get_new k new pool = (Ok y, pool')"
    using assms(2) by (cases "k < length pool") (auto simp: pool_get_new_def)
  note get_fit [OF assms(1) g]
  then show ?thesis
    using work_spec [of y src] work_fit [of y src]
    by (auto simp: with_pooled_def g intro: put_fit split: prod.splits)
qed

lemma step_fit:
  assumes "pool_call_step new work s ev s'" and "calls_fit fit s"
  shows "calls_fit fit s' \<and> (\<forall>c src r. ev = CallEnds c src r \<longrightarrow> r = spec src)"
  using assms
proof (induction rule: pool_call_step.induct)
  case (takes A c k pool x pool' src)
  then show ?case using get_fit(1) [of pool k "Ok x" pool'] get_fit(2) [of pool k "Ok x" pool' x] by (auto simp: calls_fit_def)
next
  case (panics A c k pool p pool')
  then show ?case using get_fit(1) by (auto simp: calls_fit_def)
next
  case (ends A c src x r x' pool)
  then have "fit x" by (auto simp: calls_fit_def)
  then have "r = spec src" "fit x'"
    using work_spec [of x src] work_fit [of x src] ends(2) by simp_all
  then show ?case using ends(3) by (auto simp: calls_fit_def intro: put_fit)
qed

lemma run_fit:
  assumes "pool_call_run new work s evs s'" and "calls_fit fit s"
  shows "calls_fit fit s' \<and> (\<forall>c src r. CallEnds c src r \<in> set evs \<longrightarrow> r = spec src)"
  using assms by (induction rule: pool_call_run.induct) (auto dest: step_fit)

end

text \<open>What the program relies on of the objects of the library, against the functions of \<open>zs\<close>.\<close>

locale zstd_object_lib =
  fixes lib :: "('e, 'd) zstd_objects" and zs :: zstd and fitE :: "'e \<Rightarrow> bool" and fitD :: "'d \<Rightarrow> bool"
  assumes writer_fit: "NewWriter lib = Inr e \<Longrightarrow> fitE e"
    and reader_fit: "NewReader lib = Inr d \<Longrightarrow> fitD d"
    and encode: "fitE e \<Longrightarrow> fst (enc_EncodeAll lib e src) = EncodeAll zs src \<and> fitE (snd (enc_EncodeAll lib e src))"
    and decode: "fitD d \<Longrightarrow> fst (dec_DecodeAll lib d src) = DecodeAll zs src \<and> fitD (snd (dec_DecodeAll lib d src))"

sublocale zstd_object_lib \<subseteq> enc: pooled_object "zstdEncPool_New lib" "enc_work lib" "CompressZstd zs" fitE
proof
  show "fitE x" if "zstdEncPool_New lib = Ok x" for x
    using that writer_fit by (auto simp: zstdEncPool_New_def panic_on_error_def split: sum.splits)
  show "fst (enc_work lib x src) = CompressZstd zs src" "fitE (snd (enc_work lib x src))" if "fitE x" for x src
    using encode [OF that, of src] by (auto simp: enc_work_def CompressZstd_def split: prod.splits)
qed

sublocale zstd_object_lib \<subseteq> dec: pooled_object "zstdDecPool_New lib" "dec_DecodeAll lib" "DecompressZstd zs" fitD
  using reader_fit decode
  by unfold_locales (auto simp: zstdDecPool_New_def panic_on_error_def DecompressZstd_def split: sum.splits)

context zstd_object_lib
begin

lemma compress_refines:
  assumes "pool_fit fitE encs" and "NewWriter lib = Inr e"
  shows "\<exists>encs'. CompressZstd_pooled lib k src encs = (Ok (CompressZstd zs src), encs') \<and> pool_fit fitE encs'"
  unfolding CompressZstd_pooled_def
  by (rule enc.with_pooled_spec [OF assms(1), of e]) (simp add: zstdEncPool_New_def panic_on_error_def assms(2))

lemma decompress_refines:
  assumes "pool_fit fitD decs" and "NewReader lib = Inr d"
  shows "\<exists>decs'. DecompressZstd_pooled lib k src decs = (Ok (DecompressZstd zs src), decs') \<and> pool_fit fitD decs'"
  unfolding DecompressZstd_pooled_def
  by (rule dec.with_pooled_spec [OF assms(1), of d]) (simp add: zstdDecPool_New_def panic_on_error_def assms(2))

lemmas compressions = enc.run_fit
lemmas decompressions = dec.run_fit

end

text \<open>Objects that count their uses, over the codec of \<open>Frame_Encoder\<close>.\<close>

definition counting_zstd :: "(nat, nat) zstd_objects" where
  "counting_zstd =
     \<lparr>NewWriter = Inr 0, NewReader = Inr 0,
      enc_EncodeAll = (\<lambda>n src. (ref_EncodeAll src, Suc n)), dec_DecodeAll = (\<lambda>n src. (ref_DecodeAll src, Suc n))\<rparr>"

interpretation counting: zstd_object_lib counting_zstd ref_zstd "\<lambda>n. True" "\<lambda>n. True"
  by unfold_locales (simp_all add: counting_zstd_def ref_zstd_def)

section \<open>Results\<close>

text \<open>An error of the library, which a new object needs, is a panic of the caller; a pooled object is used without it.\<close>

lemma compress_panics:
  assumes "NewWriter lib = Inl err"
  shows "(\<exists>p. fst (CompressZstd_pooled lib k src encs) = Panic p) \<longleftrightarrow> length encs \<le> k"
  using assms
  by (auto simp: CompressZstd_pooled_def enc_work_def with_pooled_def pool_get_new_def zstdEncPool_New_def panic_on_error_def
      split: prod.splits)

text \<open>
  What one call compresses with any encoder, another call gets back with any decoder, and the pools stay
  fit for the next calls.
\<close>

lemma pooled_zstd_roundtrip:
  assumes "zstd_object_lib lib zs fitE fitD" and "zstd_lib zs"
    and "NewWriter lib = Inr e" and "NewReader lib = Inr d" and "pool_fit fitE encs" and "pool_fit fitD decs"
  shows "\<exists>c encs' decs'. CompressZstd_pooled lib k src encs = (Ok (Inr c), encs') \<and>
    DecompressZstd_pooled lib k' c decs = (Ok (Inr src), decs') \<and> pool_fit fitE encs' \<and> pool_fit fitD decs'"
  using zstd_object_lib.compress_refines [OF assms(1) _ assms(3), of encs k src]
    zstd_object_lib.decompress_refines [OF assms(1) _ assms(4), of decs k' "EncodeAll zs src"]
    zstd_lib.decode_encode [OF assms(2), of src] assms(5,6)
  by (auto simp: CompressZstd_def DecompressZstd_def)

text \<open>
  Any number of compressions and decompressions share the pools of encoders and decoders, in any
  interleaving of their \<open>Get\<close> and \<open>Put\<close>: a call that ends returns exactly what the library's function
  gives on that call's own input, and so a decompression of what a compression returned gives the input
  of that compression.
\<close>

theorem concurrent_zstd_calls:
  assumes "zstd_object_lib lib zs fitE fitD" and "zstd_lib zs"
    and "pool_call_run (zstdEncPool_New lib) (enc_work lib) ([], Map.empty) evs s"
    and "pool_call_run (zstdDecPool_New lib) (dec_DecodeAll lib) ([], Map.empty) evs' s'"
    and "CallEnds c src r \<in> set evs" and "CallEnds c' src' r' \<in> set evs'"
  shows "r = CompressZstd zs src \<and> r' = DecompressZstd zs src' \<and> (r = Inr src' \<longrightarrow> r' = Inr src)"
proof -
  have fit: "calls_fit fitE ([], Map.empty)" "calls_fit fitD ([], Map.empty)"
    by (simp_all add: calls_fit_def pool_fit_def)
  have "r = CompressZstd zs src"
    using zstd_object_lib.compressions [OF assms(1,3) fit(1)] assms(5) by blast
  moreover have "r' = DecompressZstd zs src'"
    using zstd_object_lib.decompressions [OF assms(1,4) fit(2)] assms(6) by blast
  ultimately show ?thesis
    using zstd_lib.decode_encode [OF assms(2), of src] by (auto simp: CompressZstd_def DecompressZstd_def)
qed

text \<open>Two compressions overlap, the second one ends first, and one decompression follows.\<close>

definition demo_zstd_events :: "(go_error + bytes) pool_call_event list" where
  "demo_zstd_events =
     [CallTakes 0 [5, 0], CallTakes 1 [9], CallEnds 1 [9] (Inr (ref_EncodeAll [9])), CallEnds 0 [5, 0] (Inr (ref_EncodeAll [5, 0]))]"

lemma demo_zstd_run: "\<exists>s. pool_call_run (zstdEncPool_New counting_zstd) (enc_work counting_zstd) ([], Map.empty) demo_zstd_events s"
proof -
  let ?step = "pool_call_step (zstdEncPool_New counting_zstd) (enc_work counting_zstd)"
  let ?run = "pool_call_run (zstdEncPool_New counting_zstd) (enc_work counting_zstd) ([], Map.empty)"
  have new: "zstdEncPool_New counting_zstd = Ok 0"
    by (simp add: zstdEncPool_New_def panic_on_error_def counting_zstd_def)
  have work: "enc_work counting_zstd n src = (Inr (ref_EncodeAll src), Suc n)" for n src
    by (simp add: enc_work_def counting_zstd_def)
  let ?A = "[0 \<mapsto> ([5, 0], 0)] :: nat \<rightharpoonup> bytes \<times> nat" and ?B = "[0 \<mapsto> ([5, 0], 0), 1 \<mapsto> ([9], 0)] :: nat \<rightharpoonup> bytes \<times> nat"
  have "?step ([], Map.empty) (CallTakes 0 [5, 0]) ([], ?A)" "?step ([], ?A) (CallTakes 1 [9]) ([], ?B)"
    by (rule takes [where k = 0]; simp add: pool_get_new_def new)+
  moreover have "?step ([], ?B) (CallEnds 1 [9] (Inr (ref_EncodeAll [9]))) (pool_put 1 [], ?B(1 := None))"
    by (rule ends [where x = 0]) (simp_all add: work)
  moreover have "?step (pool_put 1 [], ?B(1 := None)) (CallEnds 0 [5, 0] (Inr (ref_EncodeAll [5, 0])))
      (pool_put 1 (pool_put 1 []), (?B(1 := None))(0 := None))"
    by (rule ends [where x = 0]) (simp_all add: work)
  ultimately have "?run ([] @ [CallTakes 0 [5, 0]] @ [CallTakes 1 [9]] @ [CallEnds 1 [9] (Inr (ref_EncodeAll [9]))] @
      [CallEnds 0 [5, 0] (Inr (ref_EncodeAll [5, 0]))]) (pool_put 1 (pool_put 1 []), (?B(1 := None))(0 := None))"
    unfolding append_assoc [symmetric] by (blast intro: run_empty run_more)
  then show ?thesis by (auto simp: demo_zstd_events_def)
qed

lemma demo_unzstd_run:
  "\<exists>s. pool_call_run (zstdDecPool_New counting_zstd) (dec_DecodeAll counting_zstd) ([], Map.empty)
    [CallTakes 0 (ref_EncodeAll [5, 0]), CallEnds 0 (ref_EncodeAll [5, 0]) (Inr [5, 0])] s"
proof -
  have "pool_call_step (zstdDecPool_New counting_zstd) (dec_DecodeAll counting_zstd) ([], Map.empty)
      (CallTakes 0 (ref_EncodeAll [5, 0])) ([], [0 \<mapsto> (ref_EncodeAll [5, 0], 0)])"
    by (rule takes [where k = 0]) (simp_all add: pool_get_new_def zstdDecPool_New_def panic_on_error_def counting_zstd_def)
  moreover have "pool_call_step (zstdDecPool_New counting_zstd) (dec_DecodeAll counting_zstd) ([], [0 \<mapsto> (ref_EncodeAll [5, 0], 0)])
      (CallEnds 0 (ref_EncodeAll [5, 0]) (Inr [5, 0])) (pool_put 1 [], [0 \<mapsto> (ref_EncodeAll [5, 0], 0)](0 := None))"
    using ref_z.decode_encode [of "[5, 0]"] by (intro ends) (simp_all add: counting_zstd_def ref_zstd_def)
  ultimately have "pool_call_run (zstdDecPool_New counting_zstd) (dec_DecodeAll counting_zstd) ([], Map.empty)
      (([] @ [CallTakes 0 (ref_EncodeAll [5, 0])]) @ [CallEnds 0 (ref_EncodeAll [5, 0]) (Inr [5, 0])])
      (pool_put 1 [], [0 \<mapsto> (ref_EncodeAll [5, 0], 0)](0 := None))"
    by (blast intro: run_empty run_more)
  then show ?thesis by auto
qed

theorem concurrent_zstd_calls_witness:
  "CallEnds 0 [5, 0] (CompressZstd ref_zstd [5, 0]) \<in> set demo_zstd_events \<and>
   DecompressZstd ref_zstd (ref_EncodeAll [5, 0]) = Inr [5, 0]"
proof -
  obtain s s' where runs: "pool_call_run (zstdEncPool_New counting_zstd) (enc_work counting_zstd) ([], Map.empty) demo_zstd_events s"
    "pool_call_run (zstdDecPool_New counting_zstd) (dec_DecodeAll counting_zstd) ([], Map.empty)
      [CallTakes 0 (ref_EncodeAll [5, 0]), CallEnds 0 (ref_EncodeAll [5, 0]) (Inr [5, 0])] s'"
    using demo_zstd_run demo_unzstd_run by blast
  have "CallEnds 0 [5, 0] (Inr (ref_EncodeAll [5, 0])) \<in> set demo_zstd_events"
    by (simp add: demo_zstd_events_def)
  with concurrent_zstd_calls [OF counting.zstd_object_lib_axioms ref_z.zstd_lib_axioms runs this]
  show ?thesis by simp
qed

end
