(* ===== verification/Go_Memory.thy ===== *)
theory Go_Memory
  imports Go_Base
begin

text \<open>
  Go slices as references: an array in a memory, an offset, a length and a capacity. The other
  theories identify a slice with its elements, which is what the program sees as long as no two
  slices share an array. Here \<open>append\<close> writes into the array when the capacity suffices and moves
  to a new array otherwise, as the language does; how much capacity a new array has beyond what is
  needed is the choice of the runtime and an argument.
\<close>

section \<open>Slices and memories\<close>

record gslice =
  sl_addr :: nat
  sl_off :: nat
  sl_len :: nat
  sl_cap :: nat

record 'v memory =
  arrays :: "nat \<Rightarrow> 'v list"
  next_addr :: nat

definition nil_slice :: gslice where
  "nil_slice = \<lparr>sl_addr = 0, sl_off = 0, sl_len = 0, sl_cap = 0\<rparr>"

definition empty_memory :: "'v memory" where
  "empty_memory = \<lparr>arrays = (\<lambda>_. []), next_addr = 0\<rparr>"

text \<open>The elements of a slice, and \<open>s[:0]\<close>.\<close>

definition contents :: "'v memory \<Rightarrow> gslice \<Rightarrow> 'v list" where
  "contents m s = take (sl_len s) (drop (sl_off s) (arrays m (sl_addr s)))"

definition truncated :: "gslice \<Rightarrow> gslice" where
  "truncated s = s\<lparr>sl_len := 0\<rparr>"

text \<open>A new array with the given elements and some more of zero value.\<close>

definition new_array :: "'v \<Rightarrow> nat \<Rightarrow> 'v list \<Rightarrow> 'v memory \<Rightarrow> gslice \<times> 'v memory" where
  "new_array z extra vs m =
     (\<lparr>sl_addr = next_addr m, sl_off = 0, sl_len = length vs, sl_cap = length vs + extra\<rparr>,
      \<lparr>arrays = (arrays m)(next_addr m := vs @ replicate extra z), next_addr = next_addr m + 1\<rparr>)"

definition overwrite :: "nat \<Rightarrow> 'v list \<Rightarrow> 'v list \<Rightarrow> 'v list" where
  "overwrite i vs xs = take i xs @ vs @ drop (i + length vs) xs"

definition go_append :: "'v \<Rightarrow> nat \<Rightarrow> gslice \<Rightarrow> 'v list \<Rightarrow> 'v memory \<Rightarrow> gslice \<times> 'v memory" where
  "go_append z extra s vs m =
     (if sl_len s + length vs \<le> sl_cap s
      then (s\<lparr>sl_len := sl_len s + length vs\<rparr>,
            m\<lparr>arrays := (arrays m)(sl_addr s :=
                overwrite (sl_off s + sl_len s) vs (arrays m (sl_addr s)))\<rparr>)
      else new_array z extra (contents m s @ vs) m)"

section \<open>Well-formed slices\<close>

text \<open>A slice lies in its array; one without capacity refers to nothing.\<close>

definition slice_ok :: "'v memory \<Rightarrow> gslice \<Rightarrow> bool" where
  "slice_ok m s \<longleftrightarrow> sl_len s \<le> sl_cap s \<and>
     (0 < sl_cap s \<longrightarrow> sl_addr s < next_addr m \<and> sl_off s + sl_cap s \<le> length (arrays m (sl_addr s)))"

text \<open>The array that an append to the slice may write.\<close>

definition writes :: "gslice \<Rightarrow> nat set" where
  "writes s = (if sl_cap s = 0 then {} else {sl_addr s})"

text \<open>A memory that only grows, and changes at most the arrays of \<open>A\<close> among the old ones.\<close>

definition extends :: "nat set \<Rightarrow> 'v memory \<Rightarrow> 'v memory \<Rightarrow> bool" where
  "extends A m m' \<longleftrightarrow> next_addr m \<le> next_addr m' \<and>
     (\<forall>a < next_addr m. length (arrays m' a) = length (arrays m a) \<and> (a \<notin> A \<longrightarrow> arrays m' a = arrays m a))"

lemma nil_slice_ok [simp]: "slice_ok m nil_slice"
  by (simp add: slice_ok_def nil_slice_def)

lemma writes_nil [simp]: "writes nil_slice = {}"
  by (simp add: writes_def nil_slice_def)

lemma contents_nil [simp]: "contents m nil_slice = []"
  by (simp add: contents_def nil_slice_def)

lemma truncated_ok [simp]: "slice_ok m s \<Longrightarrow> slice_ok m (truncated s)"
  by (simp add: slice_ok_def truncated_def)

lemma writes_truncated [simp]: "writes (truncated s) = writes s"
  by (simp add: writes_def truncated_def)

lemma contents_truncated [simp]: "contents m (truncated s) = []"
  by (simp add: contents_def truncated_def)

lemma writes_bound: "slice_ok m s \<Longrightarrow> a \<in> writes s \<Longrightarrow> a < next_addr m"
  by (auto simp: slice_ok_def writes_def split: if_splits)

lemma extends_refl [simp]: "extends A m m"
  by (simp add: extends_def)

lemma extends_mono: "extends A m m' \<Longrightarrow> A \<subseteq> B \<Longrightarrow> extends B m m'"
  by (auto simp: extends_def)

lemma extends_trans:
  assumes "extends A m m'" and "extends B m' m''"
  shows "extends (A \<union> B) m m''"
  using assms by (auto simp: extends_def)

text \<open>New arrays do not count: what is written there was not in the old memory.\<close>

lemma extends_trans_new:
  assumes "extends A m m'" and "extends B m' m''" and "\<forall>b \<in> B. b \<in> A \<or> next_addr m \<le> b"
  shows "extends A m m''"
  using assms unfolding extends_def
  by (metis leD order_le_less_trans order_trans order.strict_trans2)

lemma slice_ok_extends: "slice_ok m s \<Longrightarrow> extends A m m' \<Longrightarrow> slice_ok m' s"
  by (auto simp: slice_ok_def extends_def)

lemma contents_extends:
  assumes "slice_ok m s" and "extends A m m'" and "writes s \<inter> A = {}"
  shows "contents m' s = contents m s"
proof (cases "sl_cap s = 0")
  case True
  with assms(1) show ?thesis by (simp add: slice_ok_def contents_def)
next
  case False
  with assms have "sl_addr s < next_addr m" "sl_addr s \<notin> A" by (auto simp: slice_ok_def writes_def)
  with assms(2) show ?thesis by (simp add: extends_def contents_def)
qed

lemma new_array_ok:
  assumes "new_array z extra vs m = (s', m')"
  shows "slice_ok m' s'" and "contents m' s' = vs" and "extends {} m m'"
    and "writes s' \<subseteq> {next_addr m}"
  using assms by (auto simp: new_array_def slice_ok_def contents_def extends_def writes_def)

lemma go_append_ok:
  assumes "slice_ok m s" and "go_append z extra s vs m = (s', m')"
  shows "slice_ok m' s'" and "contents m' s' = contents m s @ vs" and "extends (writes s) m m'"
    and "writes s' \<subseteq> writes s \<union> {next_addr m}" and "writes s' = writes s \<or> writes s' = {next_addr m}"
proof -
  have "slice_ok m' s' \<and> contents m' s' = contents m s @ vs \<and> extends (writes s) m m' \<and>
    (writes s' = writes s \<or> writes s' = {next_addr m})"
  proof (cases "sl_len s + length vs \<le> sl_cap s")
    case True
    then have s': "s' = s\<lparr>sl_len := sl_len s + length vs\<rparr>"
      and m': "m' = m\<lparr>arrays := (arrays m)(sl_addr s := overwrite (sl_off s + sl_len s) vs (arrays m (sl_addr s)))\<rparr>"
      using assms(2) by (simp_all add: go_append_def)
    show ?thesis
    proof (cases "sl_cap s = 0")
      case True
      then have "vs = []" "sl_len s = 0" using assms(1) \<open>sl_len s + length vs \<le> sl_cap s\<close> by (auto simp: slice_ok_def)
      with True s' m' assms(1) show ?thesis
        by (auto simp: slice_ok_def contents_def extends_def writes_def overwrite_def)
    next
      case False
      with assms(1) have b: "sl_off s + sl_cap s \<le> length (arrays m (sl_addr s))" "sl_addr s < next_addr m"
        by (simp_all add: slice_ok_def)
      let ?xs = "arrays m (sl_addr s)"
      have len: "length (overwrite (sl_off s + sl_len s) vs ?xs) = length ?xs"
        using b(1) True by (simp add: overwrite_def)
      have "take (sl_len s + length vs) (drop (sl_off s) (overwrite (sl_off s + sl_len s) vs ?xs)) =
          take (sl_len s) (drop (sl_off s) ?xs) @ vs"
        using b(1) True by (cases vs) (auto simp: overwrite_def drop_take min_def)
      with len b True False s' m' assms(1) show ?thesis
        by (auto simp: slice_ok_def contents_def extends_def writes_def)
    qed
  next
    case False
    then have n: "new_array z extra (contents m s @ vs) m = (s', m')" using assms(2) by (simp add: go_append_def)
    moreover have "writes s' = {next_addr m}"
    proof -
      have "length (contents m s @ vs) > 0" using False assms(1)
        by (cases vs) (simp_all add: slice_ok_def)
      with n show ?thesis by (auto simp: new_array_def writes_def)
    qed
    ultimately show ?thesis using new_array_ok [OF n] extends_mono [of "{}" m m' "writes s"] by auto
  qed
  then show "slice_ok m' s'" "contents m' s' = contents m s @ vs" "extends (writes s) m m'"
    "writes s' = writes s \<or> writes s' = {next_addr m}" "writes s' \<subseteq> writes s \<union> {next_addr m}" by auto
qed

end
