(* ===== verification/Shared_Messages.thy ===== *)
theory Shared_Messages
  imports Go_Memory Rpc_Server "HOL-Library.Multiset"
begin

text \<open>
  The protobuf messages of the server with their slices as references into shared memory, and the
  operations that write through them: \<open>UnmarshalVT\<close> into a pooled request, the setters of a
  handler's context on the response, and the release functions, which keep the arrays of a message
  for its next use. \<open>sharing_inv\<close> says who owns which array: no array that an operation can write is
  in two messages, and no response refers to the bytes of a request. Every operation keeps it and
  changes the contents of no other message, provided that the handler puts new slices into its
  response.
\<close>

section \<open>Messages\<close>

text \<open>The common fields of both messages; a response has a code too. Header slices hold byte slices.\<close>

record smsg =
  sm_RequestId :: u64
  sm_Headers :: gslice
  sm_Method :: gslice
  sm_Body :: gslice
  sm_unknownFields :: bytes

record sresponse = smsg +
  sm_Code :: u32

record store =
  bmem :: "byte memory"
  hmem :: "gslice memory"

definition new_request :: smsg where
  "new_request = \<lparr>sm_RequestId = 0, sm_Headers = nil_slice, sm_Method = nil_slice, sm_Body = nil_slice,
     sm_unknownFields = []\<rparr>"

definition new_response :: sresponse where
  "new_response = \<lparr>sm_RequestId = 0, sm_Headers = nil_slice, sm_Method = nil_slice, sm_Body = nil_slice,
     sm_unknownFields = [], sm_Code = 0\<rparr>"

text \<open>What a message reads as.\<close>

definition read_headers :: "store \<Rightarrow> gslice \<Rightarrow> bytes list" where
  "read_headers S h = map (contents (bmem S)) (contents (hmem S) h)"

definition read_request :: "store \<Rightarrow> smsg \<Rightarrow> request" where
  "read_request S q = \<lparr>rq_RequestId = sm_RequestId q, rq_Headers = read_headers S (sm_Headers q),
     rq_Method = contents (bmem S) (sm_Method q), rq_Body = contents (bmem S) (sm_Body q),
     rq_unknownFields = sm_unknownFields q\<rparr>"

definition read_response :: "store \<Rightarrow> sresponse \<Rightarrow> response" where
  "read_response S r = \<lparr>rs_RequestId = sm_RequestId r, rs_Code = sm_Code r, rs_Headers = read_headers S (sm_Headers r),
     rs_Method = contents (bmem S) (sm_Method r), rs_Body = contents (bmem S) (sm_Body r),
     rs_unknownFields = sm_unknownFields r\<rparr>"

section \<open>Operations\<close>

text \<open>\<open>ReleaseRequest\<close> and \<open>ReleaseResponse\<close>: what goes back into the pool.\<close>

definition released_request :: "smsg \<Rightarrow> smsg" where
  "released_request q = new_request\<lparr>sm_Headers := truncated (sm_Headers q), sm_Method := truncated (sm_Method q),
     sm_Body := truncated (sm_Body q)\<rparr>"

definition released_response :: "sresponse \<Rightarrow> sresponse" where
  "released_response r = new_response\<lparr>sm_Headers := truncated (sm_Headers r), sm_Method := truncated (sm_Method r),
     sm_Body := truncated (sm_Body r)\<rparr>"

text \<open>
  The fields that \<open>UnmarshalVT\<close> finds in its input, in their order, and what each does. \<open>grow\<close> is
  the extra capacity the runtime gives to an array of a length.
\<close>

datatype field = FHeader bytes | FMethod bytes | FRequestId u64 | FBody bytes | FUnknown bytes

fun value_field :: "field \<Rightarrow> request \<Rightarrow> request" where
  "value_field (FHeader h) m = m\<lparr>rq_Headers := rq_Headers m @ [h]\<rparr>"
| "value_field (FMethod v) m = m\<lparr>rq_Method := v\<rparr>"
| "value_field (FRequestId n) m = m\<lparr>rq_RequestId := n\<rparr>"
| "value_field (FBody v) m = m\<lparr>rq_Body := v\<rparr>"
| "value_field (FUnknown v) m = m\<lparr>rq_unknownFields := rq_unknownFields m @ v\<rparr>"

fun unmarshal_field :: "(nat \<Rightarrow> nat) \<Rightarrow> field \<Rightarrow> smsg \<times> store \<Rightarrow> smsg \<times> store" where
  "unmarshal_field grow (FHeader h) (q, S) =
     (let (c, bm) = new_array 0 0 h (bmem S);
          (s, hm) = go_append nil_slice (grow (sl_len (sm_Headers q) + 1)) (sm_Headers q) [c] (hmem S)
      in (q\<lparr>sm_Headers := s\<rparr>, S\<lparr>bmem := bm, hmem := hm\<rparr>))"
| "unmarshal_field grow (FMethod v) (q, S) =
     (let (s, bm) = go_append 0 (grow (length v)) (truncated (sm_Method q)) v (bmem S)
      in (q\<lparr>sm_Method := s\<rparr>, S\<lparr>bmem := bm\<rparr>))"
| "unmarshal_field grow (FRequestId n) (q, S) = (q\<lparr>sm_RequestId := n\<rparr>, S)"
| "unmarshal_field grow (FBody v) (q, S) =
     (let (s, bm) = go_append 0 (grow (length v)) (truncated (sm_Body q)) v (bmem S)
      in (q\<lparr>sm_Body := s\<rparr>, S\<lparr>bmem := bm\<rparr>))"
| "unmarshal_field grow (FUnknown v) (q, S) = (q\<lparr>sm_unknownFields := sm_unknownFields q @ v\<rparr>, S)"

definition unmarshal_fields :: "(nat \<Rightarrow> nat) \<Rightarrow> field list \<Rightarrow> smsg \<times> store \<Rightarrow> smsg \<times> store" where
  "unmarshal_fields grow fs qS = fold (unmarshal_field grow) fs qS"

text \<open>
  \<open>UnmarshalVT\<close> itself: what each iteration finds, the fields up to the end of the input or to the
  first error, and the message they leave, which is partly filled when the outcome is an error.
\<close>

definition Request_item ::
    "protohelpers \<Rightarrow> bytes \<Rightarrow> nat \<Rightarrow> u32 \<Rightarrow> u64 \<Rightarrow> nat \<Rightarrow> (nat \<times> field) outcome" where
  "Request_item ph dAtA pre fieldNum wireType i =
     (if fieldNum = 1 then
        (if wireType \<noteq> 2 then Err (ErrWrongWireType wireType ''Headers'')
         else obind (read_bytes dAtA i) (\<lambda>(v, j). Ok (j, FHeader v)))
      else if fieldNum = 2 then
        (if wireType \<noteq> 2 then Err (ErrWrongWireType wireType ''Method'')
         else obind (read_bytes dAtA i) (\<lambda>(v, j). Ok (j, FMethod v)))
      else if fieldNum = 3 then
        (if wireType \<noteq> 0 then Err (ErrWrongWireType wireType ''RequestId'')
         else obind (varint_loop dAtA i 0 0) (\<lambda>(v, j). Ok (j, FRequestId v)))
      else if fieldNum = 4 then
        (if wireType \<noteq> 2 then Err (ErrWrongWireType wireType ''Body'')
         else obind (read_bytes dAtA i) (\<lambda>(v, j). Ok (j, FBody v)))
      else obind (skip_field ph dAtA pre) (\<lambda>(v, j). Ok (j, FUnknown v)))"

definition next_item :: "protohelpers \<Rightarrow> bytes \<Rightarrow> nat \<Rightarrow> (nat \<times> field) outcome" where
  "next_item ph dAtA iNdEx =
     obind (read_tag ''Request'' dAtA iNdEx) (\<lambda>(fieldNum, wireType, i).
       Request_item ph dAtA iNdEx fieldNum wireType i)"

function parse_items :: "protohelpers \<Rightarrow> bytes \<Rightarrow> nat \<Rightarrow> field list \<times> unit outcome" where
  "parse_items ph dAtA iNdEx =
     (if iNdEx < length dAtA then
        (case next_item ph dAtA iNdEx of
           Ok (j, f) \<Rightarrow>
             if iNdEx < j then (let (fs, r) = parse_items ph dAtA j in (f # fs, r)) else ([], Diverge)
         | Err e \<Rightarrow> ([], Err e)
         | Panic p \<Rightarrow> ([], Panic p)
         | Diverge \<Rightarrow> ([], Diverge))
      else ([], if iNdEx > length dAtA then Err ErrUnexpectedEOF else Ok ()))"
  by pat_completeness auto
termination
  by (relation "measure (\<lambda>(ph, dAtA, iNdEx). length dAtA - iNdEx)") auto

declare parse_items.simps [simp del]

definition shared_UnmarshalVT ::
    "protohelpers \<Rightarrow> (nat \<Rightarrow> nat) \<Rightarrow> bytes \<Rightarrow> smsg \<times> store \<Rightarrow> (smsg \<times> store) \<times> unit outcome" where
  "shared_UnmarshalVT ph grow dAtA qS =
     (let (fs, r) = parse_items ph dAtA 0 in (unmarshal_fields grow fs qS, r))"

text \<open>
  The calls of a handler on its context. The slice it passes is one that it makes for this response,
  or one of the request: \<open>SetBody(ctx.Body())\<close>, \<open>SetBody(ctx.Method())\<close>, \<open>SetHeaders(ctx.Headers())\<close>.
\<close>

datatype sh_op =
    NewBody bytes
  | NewHeaders "bytes list"
  | RequestBody
  | RequestMethod
  | RequestHeaders
  | AddHeader gostring gostring
  | PutCode u32

fun alloc_all :: "bytes list \<Rightarrow> byte memory \<Rightarrow> gslice list \<times> byte memory" where
  "alloc_all [] m = ([], m)"
| "alloc_all (b # bs) m =
     (let (c, m) = new_array 0 0 b m; (cs, m) = alloc_all bs m in (c # cs, m))"

fun sh_op_step :: "(nat \<Rightarrow> nat) \<Rightarrow> smsg \<Rightarrow> sh_op \<Rightarrow> sresponse \<times> store \<Rightarrow> sresponse \<times> store" where
  "sh_op_step grow q (NewBody b) (r, S) =
     (let (s, bm) = new_array 0 0 b (bmem S) in (r\<lparr>sm_Body := s\<rparr>, S\<lparr>bmem := bm\<rparr>))"
| "sh_op_step grow q (NewHeaders hs) (r, S) =
     (let (cs, bm) = alloc_all hs (bmem S); (s, hm) = new_array nil_slice 0 cs (hmem S)
      in (r\<lparr>sm_Headers := s\<rparr>, S\<lparr>bmem := bm, hmem := hm\<rparr>))"
| "sh_op_step grow q RequestBody (r, S) = (r\<lparr>sm_Body := sm_Body q\<rparr>, S)"
| "sh_op_step grow q RequestMethod (r, S) = (r\<lparr>sm_Body := sm_Method q\<rparr>, S)"
| "sh_op_step grow q RequestHeaders (r, S) = (r\<lparr>sm_Headers := sm_Headers q\<rparr>, S)"
| "sh_op_step grow q (AddHeader key val) (r, S) =
     (let (cs, bm) = alloc_all [stringToBytes key, stringToBytes val] (bmem S);
          (s, hm) = go_append nil_slice (grow (sl_len (sm_Headers r) + 2)) (sm_Headers r) cs (hmem S)
      in (r\<lparr>sm_Headers := s\<rparr>, S\<lparr>bmem := bm, hmem := hm\<rparr>))"
| "sh_op_step grow q (PutCode code) (r, S) = (r\<lparr>sm_Code := code\<rparr>, S)"

text \<open>The calls that only pass new slices, and what the calls are on values.\<close>

fun copies :: "sh_op \<Rightarrow> bool" where
  "copies RequestBody = False"
| "copies RequestMethod = False"
| "copies RequestHeaders = False"
| "copies _ = True"

fun ctx_op_of :: "request \<Rightarrow> sh_op \<Rightarrow> unit ctx_op" where
  "ctx_op_of m (NewBody b) = CSetBody b"
| "ctx_op_of m (NewHeaders hs) = CSetHeaders hs"
| "ctx_op_of m RequestBody = CSetBody (rq_Body m)"
| "ctx_op_of m RequestMethod = CSetBody (rq_Method m)"
| "ctx_op_of m RequestHeaders = CSetHeaders (rq_Headers m)"
| "ctx_op_of m (AddHeader key val) = CSetHeader key val"
| "ctx_op_of m (PutCode code) = CSetCode code"

fun value_op :: "request \<Rightarrow> sh_op \<Rightarrow> response \<Rightarrow> response" where
  "value_op m (NewBody b) r = r\<lparr>rs_Body := b\<rparr>"
| "value_op m (NewHeaders hs) r = r\<lparr>rs_Headers := hs\<rparr>"
| "value_op m RequestBody r = r\<lparr>rs_Body := rq_Body m\<rparr>"
| "value_op m RequestMethod r = r\<lparr>rs_Body := rq_Method m\<rparr>"
| "value_op m RequestHeaders r = r\<lparr>rs_Headers := rq_Headers m\<rparr>"
| "value_op m (AddHeader key val) r = r\<lparr>rs_Headers := rs_Headers r @ [stringToBytes key, stringToBytes val]\<rparr>"
| "value_op m (PutCode code) r = r\<lparr>rs_Code := code\<rparr>"

section \<open>Ownership\<close>

definition owns :: "gslice \<Rightarrow> nat multiset" where
  "owns s = (if sl_cap s = 0 then {#} else {#sl_addr s#})"

definition byte_owner :: "'a smsg_scheme \<Rightarrow> nat multiset" where
  "byte_owner q = owns (sm_Method q) + owns (sm_Body q)"

definition byte_arrays :: "smsg multiset \<Rightarrow> nat multiset" where
  "byte_arrays Q = \<Sum>\<^sub># (image_mset byte_owner Q)"

definition header_arrays :: "'a smsg_scheme multiset \<Rightarrow> nat multiset" where
  "header_arrays X = \<Sum>\<^sub># (image_mset (\<lambda>x. owns (sm_Headers x)) X)"

definition sole :: "nat multiset \<Rightarrow> bool" where
  "sole M \<longleftrightarrow> (\<forall>a. count M a \<le> 1)"

text \<open>The slices lie in their arrays, and the header values are not among the writable bytes \<open>W\<close>.\<close>

definition msg_ok :: "store \<Rightarrow> nat set \<Rightarrow> 'a smsg_scheme \<Rightarrow> bool" where
  "msg_ok S W x \<longleftrightarrow> slice_ok (bmem S) (sm_Method x) \<and> slice_ok (bmem S) (sm_Body x) \<and> slice_ok (hmem S) (sm_Headers x) \<and>
     (\<forall>c \<in> set (contents (hmem S) (sm_Headers x)). slice_ok (bmem S) c \<and> writes c \<inter> W = {})"

definition response_msg_ok :: "store \<Rightarrow> nat set \<Rightarrow> sresponse \<Rightarrow> bool" where
  "response_msg_ok S W r \<longleftrightarrow> msg_ok S W r \<and> writes (sm_Body r) \<inter> W = {} \<and> writes (sm_Method r) \<inter> W = {}"

definition sharing_inv :: "store \<Rightarrow> smsg multiset \<Rightarrow> sresponse multiset \<Rightarrow> bool" where
  "sharing_inv S Q R \<longleftrightarrow>
     sole (byte_arrays Q) \<and> sole (header_arrays Q + header_arrays R) \<and>
     (\<forall>q \<in># Q. msg_ok S (set_mset (byte_arrays Q)) q) \<and>
     (\<forall>r \<in># R. response_msg_ok S (set_mset (byte_arrays Q)) r)"

section \<open>Lemmas\<close>

lemma set_owns [simp]: "set_mset (owns s) = writes s"
  by (simp add: owns_def writes_def)

lemma owns_nil [simp]: "owns nil_slice = {#}"
  by (simp add: owns_def nil_slice_def)

lemma owns_truncated [simp]: "owns (truncated s) = owns s"
  by (simp add: owns_def truncated_def)

lemma sole_union: "sole (A + B) \<longleftrightarrow> sole A \<and> sole B \<and> set_mset A \<inter> set_mset B = {}"
proof
  assume l: "sole (A + B)"
  then have c: "count A a + count B a \<le> 1" for a by (simp add: sole_def)
  have "count A a \<le> 1 \<and> count B a \<le> 1 \<and> (a \<notin># A \<or> a \<notin># B)" for a
    using c [of a] by (cases "count A a"; cases "count B a") (auto simp: not_in_iff)
  then show "sole A \<and> sole B \<and> set_mset A \<inter> set_mset B = {}" by (auto simp: sole_def)
next
  assume r: "sole A \<and> sole B \<and> set_mset A \<inter> set_mset B = {}"
  have "count A a + count B a \<le> 1" for a
  proof (cases "a \<in># A")
    case True
    then have "count B a = 0" using r by (meson disjoint_iff not_in_iff)
    then show ?thesis using r by (simp add: sole_def)
  next
    case False
    then show ?thesis using r by (simp add: sole_def not_in_iff)
  qed
  then show "sole (A + B)" by (simp add: sole_def)
qed

lemma sole_owns [simp]: "sole (owns s)"
  by (simp add: sole_def owns_def)

lemma arrays_add [simp]:
  "byte_arrays (add_mset q Q) = byte_owner q + byte_arrays Q"
  "header_arrays (add_mset x X) = owns (sm_Headers x) + header_arrays X"
  by (simp_all add: byte_arrays_def header_arrays_def)

lemma arrays_member:
  "q \<in># Q \<Longrightarrow> set_mset (byte_owner q) \<subseteq> set_mset (byte_arrays Q)"
  "x \<in># X \<Longrightarrow> writes (sm_Headers x) \<subseteq> set_mset (header_arrays X)"
  by (metis (no_types, lifting) arrays_add(1) insert_DiffM set_mset_union sup_ge1)
    (metis (no_types, lifting) arrays_add(2) insert_DiffM set_mset_union sup_ge1 set_owns)

text \<open>The contents of all messages stay the same.\<close>

definition same :: "store \<Rightarrow> store \<Rightarrow> smsg multiset \<Rightarrow> sresponse multiset \<Rightarrow> bool" where
  "same S S' Q R \<longleftrightarrow> (\<forall>q \<in># Q. read_request S' q = read_request S q) \<and> (\<forall>r \<in># R. read_response S' r = read_response S r)"

lemma same_refl [simp]: "same S S Q R"
  by (simp add: same_def)

lemma same_trans: "same S S' Q R \<Longrightarrow> same S' S'' Q R \<Longrightarrow> same S S'' Q R"
  by (simp add: same_def)

lemma store_updates [simp]:
  "bmem (S\<lparr>hmem := h\<rparr>) = bmem S" "hmem (S\<lparr>bmem := b\<rparr>) = hmem S"
  by simp_all

lemma bytes_changed:
  assumes "msg_ok S W x" and "extends A (bmem S) bm" and "A \<subseteq> W" and "\<forall>a \<in> W'. a \<in> W \<or> next_addr (bmem S) \<le> a"
  shows "msg_ok (S\<lparr>bmem := bm\<rparr>) W' x" and "read_headers (S\<lparr>bmem := bm\<rparr>) (sm_Headers x) = read_headers S (sm_Headers x)"
proof -
  have cells: "slice_ok (bmem S) c" "writes c \<inter> W = {}" if "c \<in> set (contents (hmem S) (sm_Headers x))" for c
    using assms(1) that by (simp_all add: msg_ok_def)
  have "slice_ok bm c \<and> writes c \<inter> W' = {}" if "c \<in> set (contents (hmem S) (sm_Headers x))" for c
    using slice_ok_extends [OF cells(1) [OF that] assms(2)] cells(2) [OF that] writes_bound [OF cells(1) [OF that]] assms(4)
    by fastforce
  then show "msg_ok (S\<lparr>bmem := bm\<rparr>) W' x"
    using assms(1,2) by (auto simp: msg_ok_def intro: slice_ok_extends)
  have "contents bm c = contents (bmem S) c" if "c \<in> set (contents (hmem S) (sm_Headers x))" for c
    using contents_extends [OF cells(1) [OF that] assms(2)] cells(2) [OF that] assms(3) by blast
  then show "read_headers (S\<lparr>bmem := bm\<rparr>) (sm_Headers x) = read_headers S (sm_Headers x)"
    by (simp add: read_headers_def)
qed

lemma headers_changed:
  assumes "msg_ok S W x" and "extends B (hmem S) hm" and "writes (sm_Headers x) \<inter> B = {}"
  shows "msg_ok (S\<lparr>hmem := hm\<rparr>) W x" and "read_headers (S\<lparr>hmem := hm\<rparr>) (sm_Headers x) = read_headers S (sm_Headers x)"
proof -
  have h: "slice_ok (hmem S) (sm_Headers x)" using assms(1) by (simp add: msg_ok_def)
  have "contents hm (sm_Headers x) = contents (hmem S) (sm_Headers x)" by (rule contents_extends [OF h assms(2,3)])
  with slice_ok_extends [OF h assms(2)] assms(1)
  show "msg_ok (S\<lparr>hmem := hm\<rparr>) W x" "read_headers (S\<lparr>hmem := hm\<rparr>) (sm_Headers x) = read_headers S (sm_Headers x)"
    by (simp_all add: msg_ok_def read_headers_def)
qed

text \<open>A request writes its own bytes.\<close>

lemma write_bytes:
  assumes inv: "sharing_inv S (add_mset q Q) R"
    and ext: "extends A (bmem S) bm" and A: "A \<subseteq> set_mset (byte_owner q)"
    and q': "sm_Headers q' = sm_Headers q" "sole (byte_owner q')"
      "\<forall>a \<in># byte_owner q'. a \<in># byte_owner q \<or> next_addr (bmem S) \<le> a"
      "slice_ok bm (sm_Method q')" "slice_ok bm (sm_Body q')"
  shows "sharing_inv (S\<lparr>bmem := bm\<rparr>) (add_mset q' Q) R" and "same S (S\<lparr>bmem := bm\<rparr>) Q R"
    and "read_headers (S\<lparr>bmem := bm\<rparr>) (sm_Headers q) = read_headers S (sm_Headers q)"
proof -
  let ?S' = "S\<lparr>bmem := bm\<rparr>"
  let ?W = "set_mset (byte_arrays (add_mset q Q))" and ?W' = "set_mset (byte_arrays (add_mset q' Q))"
  have AW: "A \<subseteq> ?W" using A by auto
  have W': "\<forall>a \<in> ?W'. a \<in> ?W \<or> next_addr (bmem S) \<le> a" using q'(3) by auto
  have ok: "msg_ok S ?W q" "\<And>x. x \<in># Q \<Longrightarrow> msg_ok S ?W x" "\<And>r. r \<in># R \<Longrightarrow> response_msg_ok S ?W r"
    using inv by (simp_all add: sharing_inv_def)
  have rok: "msg_ok S ?W r" "writes (sm_Body r) \<inter> ?W = {}" "writes (sm_Method r) \<inter> ?W = {}" if "r \<in># R" for r
    using ok(3) [OF that] by (simp_all add: response_msg_ok_def)
  have sole: "sole (byte_owner q)" "sole (byte_arrays Q)" "set_mset (byte_owner q) \<inter> set_mset (byte_arrays Q) = {}"
    using inv by (simp_all add: sharing_inv_def sole_union)
  have bound: "a < next_addr (bmem S)" if "a \<in># byte_arrays Q" for a
  proof -
    from that obtain x where "x \<in># Q" "a \<in># byte_owner x" by (auto simp: byte_arrays_def)
    with ok(2) [of x] show ?thesis by (auto simp: msg_ok_def byte_owner_def dest: writes_bound)
  qed
  have "sole (byte_arrays (add_mset q' Q))"
    using sole q'(2,3) bound by (fastforce simp: sole_union)
  moreover have "msg_ok ?S' ?W' q'"
    using bytes_changed(1) [OF ok(1) ext AW W'] q'(1,4,5) by (simp add: msg_ok_def)
  moreover have "msg_ok ?S' ?W' x" if "x \<in># Q" for x
    by (rule bytes_changed(1) [OF ok(2) [OF that] ext AW W'])
  moreover have "response_msg_ok ?S' ?W' r" if "r \<in># R" for r
  proof -
    have "slice_ok (bmem S) (sm_Body r)" "slice_ok (bmem S) (sm_Method r)" using rok(1) [OF that] by (simp_all add: msg_ok_def)
    from writes_bound [OF this(1)] writes_bound [OF this(2)] rok(2,3) [OF that] W'
    have "writes (sm_Body r) \<inter> ?W' = {}" "writes (sm_Method r) \<inter> ?W' = {}" by fastforce+
    with bytes_changed(1) [OF rok(1) [OF that] ext AW W'] show ?thesis by (simp add: response_msg_ok_def)
  qed
  ultimately show "sharing_inv ?S' (add_mset q' Q) R"
    using inv q'(1) by (simp add: sharing_inv_def)
  show "read_headers ?S' (sm_Headers q) = read_headers S (sm_Headers q)"
    by (rule bytes_changed(2) [OF ok(1) ext AW W'])
  have "read_request ?S' x = read_request S x" if x: "x \<in># Q" for x
  proof -
    have "set_mset (byte_owner x) \<inter> A = {}" using sole(3) A arrays_member(1) [OF x] by blast
    then have "writes (sm_Method x) \<inter> A = {}" "writes (sm_Body x) \<inter> A = {}" by (auto simp: byte_owner_def)
    with ok(2) [OF x] bytes_changed(2) [OF ok(2) [OF x] ext AW W'] ext show ?thesis
      by (simp add: read_request_def msg_ok_def contents_extends)
  qed
  moreover have "read_response ?S' r = read_response S r" if r: "r \<in># R" for r
  proof -
    have "writes (sm_Method r) \<inter> A = {}" "writes (sm_Body r) \<inter> A = {}" using rok(2,3) [OF r] AW by blast+
    with rok(1) [OF r] bytes_changed(2) [OF rok(1) [OF r] ext AW W'] ext show ?thesis
      by (simp add: read_response_def msg_ok_def contents_extends)
  qed
  ultimately show "same S ?S' Q R" by (simp add: same_def)
qed

text \<open>Forgetting a message.\<close>

lemma msg_ok_mono:
  assumes "W' \<subseteq> W"
  shows "msg_ok S W x \<Longrightarrow> msg_ok S W' x" and "response_msg_ok S W r \<Longrightarrow> response_msg_ok S W' r"
  using assms unfolding response_msg_ok_def msg_ok_def by (meson disjoint_iff subsetD)+

lemma sharing_inv_drop:
  "sharing_inv S (add_mset q Q) R \<Longrightarrow> sharing_inv S Q R"
  "sharing_inv S Q (add_mset r R) \<Longrightarrow> sharing_inv S Q R"
proof -
  assume inv: "sharing_inv S (add_mset q Q) R"
  have W: "set_mset (byte_arrays Q) \<subseteq> set_mset (byte_owner q + byte_arrays Q)" by simp
  show "sharing_inv S Q R"
    using inv unfolding sharing_inv_def arrays_add sole_union
    by (auto intro: msg_ok_mono [OF W])
next
  assume "sharing_inv S Q (add_mset r R)"
  then show "sharing_inv S Q R" by (auto simp: sharing_inv_def sole_union)
qed

text \<open>New arrays change nothing.\<close>

lemma alloc_bytes:
  assumes inv: "sharing_inv S Q R" and ext: "extends {} (bmem S) bm"
  shows "sharing_inv (S\<lparr>bmem := bm\<rparr>) Q R" and "same S (S\<lparr>bmem := bm\<rparr>) Q R"
proof -
  let ?W = "set_mset (byte_arrays Q)"
  have W: "\<forall>a \<in> ?W. a \<in> ?W \<or> next_addr (bmem S) \<le> a" by simp
  note ch = bytes_changed [OF _ ext empty_subsetI W]
  have ok: "\<And>x. x \<in># Q \<Longrightarrow> msg_ok S ?W x" "\<And>r. r \<in># R \<Longrightarrow> response_msg_ok S ?W r"
    using inv by (simp_all add: sharing_inv_def)
  then have rok: "\<And>r. r \<in># R \<Longrightarrow> msg_ok S ?W r" by (simp add: response_msg_ok_def)
  show "sharing_inv (S\<lparr>bmem := bm\<rparr>) Q R"
    using inv ch(1) [OF ok(1)] ch(1) [OF rok] ok(2) by (simp add: sharing_inv_def response_msg_ok_def)
  have "contents bm s = contents (bmem S) s" if "slice_ok (bmem S) s" for s
    using contents_extends [OF that ext] by simp
  then show "same S (S\<lparr>bmem := bm\<rparr>) Q R"
    using ch(2) [OF ok(1)] ch(2) [OF rok] ok(1) rok
    by (simp add: same_def read_request_def read_response_def msg_ok_def)
qed

text \<open>A message writes its own header array.\<close>

lemma header_bound:
  assumes "sharing_inv S Q R" and "a \<in># header_arrays Q + header_arrays R"
  shows "a < next_addr (hmem S)"
  using assms by (auto simp: sharing_inv_def header_arrays_def msg_ok_def response_msg_ok_def dest: writes_bound)

lemma header_fresh:
  assumes "sharing_inv S Q R"
  shows "next_addr (hmem S) \<notin># header_arrays Q" and "next_addr (hmem S) \<notin># header_arrays R"
  using header_bound [OF assms, of "next_addr (hmem S)"] by auto

lemma header_frame:
  assumes inv: "sharing_inv S Q R" and ext: "extends B (hmem S) hm"
    and B: "B \<inter> set_mset (header_arrays Q + header_arrays R) = {}"
  shows "\<forall>q \<in># Q. msg_ok (S\<lparr>hmem := hm\<rparr>) (set_mset (byte_arrays Q)) q"
    and "\<forall>r \<in># R. response_msg_ok (S\<lparr>hmem := hm\<rparr>) (set_mset (byte_arrays Q)) r"
    and "same S (S\<lparr>hmem := hm\<rparr>) Q R"
proof -
  let ?W = "set_mset (byte_arrays Q)"
  have ok: "\<And>x. x \<in># Q \<Longrightarrow> msg_ok S ?W x" "\<And>r. r \<in># R \<Longrightarrow> response_msg_ok S ?W r"
    using inv by (simp_all add: sharing_inv_def)
  then have rok: "\<And>r. r \<in># R \<Longrightarrow> msg_ok S ?W r" by (simp add: response_msg_ok_def)
  have "B \<inter> set_mset (header_arrays Q) = {}" "B \<inter> set_mset (header_arrays R) = {}" using B by auto
  then have dis: "\<And>x. x \<in># Q \<Longrightarrow> writes (sm_Headers x) \<inter> B = {}" "\<And>r. r \<in># R \<Longrightarrow> writes (sm_Headers r) \<inter> B = {}"
    using arrays_member(2) [of _ Q] arrays_member(2) [of _ R] by blast+
  note chq = headers_changed [OF ok(1) ext dis(1)] and chr = headers_changed [OF rok ext dis(2)]
  show "\<forall>q \<in># Q. msg_ok (S\<lparr>hmem := hm\<rparr>) ?W q" using chq(1) by blast
  show "\<forall>r \<in># R. response_msg_ok (S\<lparr>hmem := hm\<rparr>) ?W r" using chr(1) ok(2) by (simp add: response_msg_ok_def)
  show "same S (S\<lparr>hmem := hm\<rparr>) Q R"
    using chq(2) chr(2) by (simp add: same_def read_request_def read_response_def)
qed

lemma request_headers:
  assumes inv: "sharing_inv S (add_mset q Q) R" and s: "slice_ok hm s" "writes s = writes (sm_Headers q) \<or> writes s = {next_addr (hmem S)}"
    and ext: "extends (writes (sm_Headers q)) (hmem S) hm"
    and cells: "\<forall>c \<in> set (contents hm s). slice_ok (bmem S) c \<and> writes c \<inter> set_mset (byte_arrays (add_mset q Q)) = {}"
  shows "sharing_inv (S\<lparr>hmem := hm\<rparr>) (add_mset (q\<lparr>sm_Headers := s\<rparr>) Q) R" and "same S (S\<lparr>hmem := hm\<rparr>) Q R"
proof -
  note inv0 = sharing_inv_drop(1) [OF inv]
  have B: "writes (sm_Headers q) \<inter> set_mset (header_arrays Q + header_arrays R) = {}"
    using inv by (auto simp: sharing_inv_def sole_union)
  note fr = header_frame [OF inv0 ext B]
  show "same S (S\<lparr>hmem := hm\<rparr>) Q R" by (rule fr(3))
  let ?W = "set_mset (byte_arrays (add_mset q Q))"
  have ok: "\<And>x. x \<in># Q \<Longrightarrow> msg_ok S ?W x" "\<And>r. r \<in># R \<Longrightarrow> response_msg_ok S ?W r" "msg_ok S ?W q"
    using inv by (simp_all add: sharing_inv_def)
  have "writes (sm_Headers q) \<inter> set_mset (header_arrays Q) = {}" "writes (sm_Headers q) \<inter> set_mset (header_arrays R) = {}"
    using B by auto
  then have dis: "\<And>x. x \<in># Q \<Longrightarrow> writes (sm_Headers x) \<inter> writes (sm_Headers q) = {}"
    "\<And>r. r \<in># R \<Longrightarrow> writes (sm_Headers r) \<inter> writes (sm_Headers q) = {}"
    using arrays_member(2) [of _ Q] arrays_member(2) [of _ R] by blast+
  have "msg_ok (S\<lparr>hmem := hm\<rparr>) ?W x" if "x \<in># Q" for x
    by (rule headers_changed(1) [OF ok(1) [OF that] ext dis(1) [OF that]])
  moreover have "response_msg_ok (S\<lparr>hmem := hm\<rparr>) ?W r" if "r \<in># R" for r
    using headers_changed(1) [OF _ ext dis(2) [OF that], of ?W] ok(2) [OF that] by (simp add: response_msg_ok_def)
  moreover have "msg_ok (S\<lparr>hmem := hm\<rparr>) ?W (q\<lparr>sm_Headers := s\<rparr>)"
    using ok(3) s(1) cells by (simp add: msg_ok_def)
  moreover have "byte_arrays (add_mset (q\<lparr>sm_Headers := s\<rparr>) Q) = byte_arrays (add_mset q Q)" by (simp add: byte_owner_def)
  moreover have "sole (header_arrays (add_mset (q\<lparr>sm_Headers := s\<rparr>) Q) + header_arrays R)"
    using inv s(2) B header_fresh [OF inv0] by (auto simp: sharing_inv_def sole_union)
  ultimately show "sharing_inv (S\<lparr>hmem := hm\<rparr>) (add_mset (q\<lparr>sm_Headers := s\<rparr>) Q) R"
    using inv by (simp add: sharing_inv_def)
qed

lemma response_headers:
  assumes inv: "sharing_inv S Q (add_mset r R)" and s: "slice_ok hm s" "writes s \<subseteq> writes (sm_Headers r) \<union> {next_addr (hmem S)}"
    and ext: "extends (writes (sm_Headers r)) (hmem S) hm"
    and cells: "\<forall>c \<in> set (contents hm s). slice_ok (bmem S) c \<and> writes c \<inter> set_mset (byte_arrays Q) = {}"
  shows "sharing_inv (S\<lparr>hmem := hm\<rparr>) Q (add_mset (r\<lparr>sm_Headers := s\<rparr>) R)" and "same S (S\<lparr>hmem := hm\<rparr>) Q R"
proof -
  note inv0 = sharing_inv_drop(2) [OF inv]
  have B: "writes (sm_Headers r) \<inter> set_mset (header_arrays Q + header_arrays R) = {}"
    using inv by (auto simp: sharing_inv_def sole_union)
  note fr = header_frame [OF inv0 ext B]
  show "same S (S\<lparr>hmem := hm\<rparr>) Q R" by (rule fr(3))
  have "response_msg_ok (S\<lparr>hmem := hm\<rparr>) (set_mset (byte_arrays Q)) (r\<lparr>sm_Headers := s\<rparr>)"
    using inv s(1) cells by (simp add: sharing_inv_def response_msg_ok_def msg_ok_def)
  moreover have "sole (header_arrays Q + header_arrays (add_mset (r\<lparr>sm_Headers := s\<rparr>) R))"
    using inv s(2) B header_fresh [OF inv0] by (fastforce simp: sharing_inv_def sole_union)
  ultimately show "sharing_inv (S\<lparr>hmem := hm\<rparr>) Q (add_mset (r\<lparr>sm_Headers := s\<rparr>) R)"
    using inv fr(1,2) by (simp add: sharing_inv_def)
qed

subsection \<open>Unmarshalling\<close>

lemma byte_bound:
  assumes "sharing_inv S Q R" and "a \<in># byte_arrays Q"
  shows "a < next_addr (bmem S)"
  using assms by (auto simp: sharing_inv_def byte_arrays_def msg_ok_def byte_owner_def dest: writes_bound)

lemma byte_fresh:
  assumes "sharing_inv S Q R" and "A \<subseteq> {a. next_addr (bmem S) \<le> a}"
  shows "A \<inter> set_mset (byte_arrays Q) = {}"
  using byte_bound [OF assms(1)] assms(2) by fastforce

lemma unmarshal_header_ok:
  assumes inv: "sharing_inv S (add_mset q Q) R" and e: "unmarshal_field grow (FHeader h) (q, S) = (q', S')"
  shows "sharing_inv S' (add_mset q' Q) R \<and> same S S' Q R \<and> read_request S' q' = value_field (FHeader h) (read_request S q)"
proof -
  obtain c bm where c: "new_array 0 0 h (bmem S) = (c, bm)" by fastforce
  obtain s hm where s: "go_append nil_slice (grow (sl_len (sm_Headers q) + 1)) (sm_Headers q) [c] (hmem S) = (s, hm)" by fastforce
  let ?S1 = "S\<lparr>bmem := bm\<rparr>"
  have r: "q' = q\<lparr>sm_Headers := s\<rparr>" "S' = ?S1\<lparr>hmem := hm\<rparr>" using e c s by simp_all
  note c_ok = new_array_ok [OF c]
  note S1 = alloc_bytes [OF inv c_ok(3)]
  have h: "slice_ok (hmem S) (sm_Headers q)" using inv by (simp add: sharing_inv_def msg_ok_def)
  note s_ok = go_append_ok [OF h s]
  have "\<forall>d \<in> set (contents hm s). slice_ok (bmem ?S1) d \<and> writes d \<inter> set_mset (byte_arrays (add_mset q Q)) = {}"
  proof -
    have "writes c \<inter> set_mset (byte_arrays (add_mset q Q)) = {}"
      using c_ok(4) by (intro byte_fresh [OF inv]) auto
    moreover have "\<forall>d \<in> set (contents (hmem S) (sm_Headers q)). slice_ok bm d \<and> writes d \<inter> set_mset (byte_arrays (add_mset q Q)) = {}"
      using S1(1) by (simp add: sharing_inv_def msg_ok_def)
    ultimately show ?thesis using c_ok(1) by (simp add: s_ok(2))
  qed
  note w = request_headers [OF S1(1), of hm s, simplified, OF s_ok(1,5,3) this [simplified]]
  have "same S ?S1 Q R" using S1(2) by (simp add: same_def)
  moreover have "read_request S' q' = value_field (FHeader h) (read_request ?S1 q)"
    by (simp add: r read_request_def read_headers_def s_ok(2) c_ok(2))
  moreover have "read_request ?S1 q = read_request S q" using S1(2) by (simp add: same_def)
  ultimately show ?thesis using w same_trans by (auto simp: r)
qed

text \<open>The two fields whose array is reused, method and body.\<close>

lemma unmarshal_bytes_ok:
  assumes inv: "sharing_inv S (add_mset q Q) R"
    and a: "go_append 0 n (truncated s) v (bmem S) = (s', bm)"
    and q': "sm_Headers q' = sm_Headers q" and ok: "slice_ok (bmem S) s" "slice_ok (bmem S) t"
    and q: "byte_owner q = owns s + owns t" "byte_owner q' = owns s' + owns t"
    and fields: "slice_ok bm s' \<Longrightarrow> slice_ok bm t \<Longrightarrow> slice_ok bm (sm_Method q') \<and> slice_ok bm (sm_Body q')"
  shows "sharing_inv (S\<lparr>bmem := bm\<rparr>) (add_mset q' Q) R" "same S (S\<lparr>bmem := bm\<rparr>) Q R"
    "read_headers (S\<lparr>bmem := bm\<rparr>) (sm_Headers q) = read_headers S (sm_Headers q)"
    "contents bm s' = v" "contents bm t = contents (bmem S) t"
proof -
  note a_ok = go_append_ok [OF truncated_ok [OF ok(1)] a, simplified]
  have dis: "writes s \<inter> writes t = {}" using inv by (simp add: sharing_inv_def sole_union q(1))
  have t: "slice_ok bm t" by (rule slice_ok_extends [OF ok(2) a_ok(3)])
  have "writes s' \<inter> writes t = {}" using a_ok(5) dis writes_bound [OF ok(2)] by fastforce
  then have sole: "sole (byte_owner q')" by (simp add: q(2) sole_union)
  have new: "\<forall>a \<in># byte_owner q'. a \<in># byte_owner q \<or> next_addr (bmem S) \<le> a"
    using a_ok(4) by (auto simp: q)
  have A: "writes s \<subseteq> set_mset (byte_owner q)" by (simp add: q(1))
  note w = write_bytes [OF inv a_ok(3) A q' sole new] 
  show "sharing_inv (S\<lparr>bmem := bm\<rparr>) (add_mset q' Q) R" "same S (S\<lparr>bmem := bm\<rparr>) Q R"
    "read_headers (S\<lparr>bmem := bm\<rparr>) (sm_Headers q) = read_headers S (sm_Headers q)"
    using w fields [OF a_ok(1) t] by simp_all
  show "contents bm s' = v" by (rule a_ok(2))
  show "contents bm t = contents (bmem S) t"
    using dis by (intro contents_extends [OF ok(2) a_ok(3)]) blast
qed

lemma unmarshal_field_ok:
  assumes inv: "sharing_inv S (add_mset q Q) R" and e: "unmarshal_field grow f (q, S) = (q', S')"
  shows "sharing_inv S' (add_mset q' Q) R \<and> same S S' Q R \<and> read_request S' q' = value_field f (read_request S q)"
proof (cases f)
  case (FHeader h)
  with unmarshal_header_ok [OF inv] e show ?thesis by simp
next
  case (FMethod v)
  obtain s bm where s: "go_append 0 (grow (length v)) (truncated (sm_Method q)) v (bmem S) = (s, bm)" by fastforce
  have r: "q' = q\<lparr>sm_Method := s\<rparr>" "S' = S\<lparr>bmem := bm\<rparr>" using e s FMethod by simp_all
  have ok: "slice_ok (bmem S) (sm_Method q)" "slice_ok (bmem S) (sm_Body q)" using inv by (simp_all add: sharing_inv_def msg_ok_def)
  from unmarshal_bytes_ok [OF inv s _ ok, of q'] show ?thesis
    by (simp add: r byte_owner_def FMethod read_request_def)
next
  case (FRequestId n)
  then have "q' = q\<lparr>sm_RequestId := n\<rparr>" "S' = S" using e by simp_all
  with inv FRequestId show ?thesis by (simp add: sharing_inv_def msg_ok_def byte_owner_def read_request_def)
next
  case (FBody v)
  obtain s bm where s: "go_append 0 (grow (length v)) (truncated (sm_Body q)) v (bmem S) = (s, bm)" by fastforce
  have r: "q' = q\<lparr>sm_Body := s\<rparr>" "S' = S\<lparr>bmem := bm\<rparr>" using e s FBody by simp_all
  have ok: "slice_ok (bmem S) (sm_Body q)" "slice_ok (bmem S) (sm_Method q)" using inv by (simp_all add: sharing_inv_def msg_ok_def)
  from unmarshal_bytes_ok [OF inv s _ ok, of q'] show ?thesis
    by (simp add: r byte_owner_def FBody read_request_def add.commute)
next
  case (FUnknown v)
  then have "q' = q\<lparr>sm_unknownFields := sm_unknownFields q @ v\<rparr>" "S' = S" using e by simp_all
  with inv FUnknown show ?thesis by (simp add: sharing_inv_def msg_ok_def byte_owner_def read_request_def)
qed

lemma unmarshal_fields_ok:
  assumes "sharing_inv S (add_mset q Q) R" and "unmarshal_fields grow fs (q, S) = (q', S')"
  shows "sharing_inv S' (add_mset q' Q) R \<and> same S S' Q R \<and> read_request S' q' = fold value_field fs (read_request S q)"
  using assms
proof (induction fs arbitrary: q S)
  case Nil
  then show ?case by (simp add: unmarshal_fields_def)
next
  case (Cons f fs)
  obtain q1 S1 where f: "unmarshal_field grow f (q, S) = (q1, S1)" by fastforce
  note ok = unmarshal_field_ok [OF Cons.prems(1) f]
  have "unmarshal_fields grow fs (q1, S1) = (q', S')" using Cons.prems(2) f by (simp add: unmarshal_fields_def)
  with Cons.IH [of S1 q1] ok same_trans show ?case by auto
qed

text \<open>\<open>UnmarshalVT\<close> on shared memory does to the contents what it does to values.\<close>

lemma Request_field_item:
  "Request_field ph dAtA pre n w i m = obind (Request_item ph dAtA pre n w i) (\<lambda>(j, f). Ok (j, value_field f m))"
  by (simp add: Request_field_def Request_item_def obind_assoc case_prod_unfold)

lemma Request_step_item:
  "Request_step ph dAtA i m = obind (next_item ph dAtA i) (\<lambda>(j, f). Ok (j, value_field f m))"
  by (simp add: Request_step_def next_item_def Request_field_item obind_assoc case_prod_unfold)

lemma parse_items_loop:
  "parse_items ph dAtA i = (fs, r) \<Longrightarrow>
   unmarshal_loop (Request_step ph) dAtA i m = obind r (\<lambda>_. Ok (fold value_field fs m))"
proof (induction ph dAtA i arbitrary: fs m rule: parse_items.induct)
  case (1 ph dAtA i)
  note loop = unmarshal_loop.simps [of "Request_step ph" dAtA i m] Request_step_item [of ph dAtA i m] and items = parse_items.simps [of ph dAtA i]
  show ?case
  proof (cases "i < length dAtA")
    case False
    with "1.prems" show ?thesis by (auto simp: loop items)
  next
    case True
    show ?thesis
    proof (cases "next_item ph dAtA i")
      case (Ok jf)
      obtain j f where jf: "jf = (j, f)" by fastforce
      have step: "Request_step ph dAtA i m = Ok (j, value_field f m)" using Ok jf by (simp add: Request_step_item)
      show ?thesis
      proof (cases "i < j")
        case True
        obtain fs' where fs': "parse_items ph dAtA j = (fs', r)" "fs = f # fs'"
          using "1.prems" \<open>i < length dAtA\<close> Ok jf True by (auto simp: items split: prod.splits)
        from "1.IH" [OF \<open>i < length dAtA\<close> Ok jf [symmetric] True fs'(1), of "value_field f m"] step fs'(2) True \<open>i < length dAtA\<close>
        show ?thesis by (simp add: loop)
      next
        case False
        with "1.prems" \<open>i < length dAtA\<close> Ok jf step show ?thesis by (auto simp: loop items)
      qed
    qed (use "1.prems" True in \<open>auto simp: loop items\<close>)
  qed
qed

lemma Request_UnmarshalVT_items:
  assumes "parse_items ph dAtA 0 = (fs, r)"
  shows "Request_UnmarshalVT ph m dAtA = obind r (\<lambda>_. Ok (fold value_field fs m))"
  by (simp add: Request_UnmarshalVT_def parse_items_loop [OF assms])

lemma shared_UnmarshalVT_ok:
  assumes "sharing_inv S (add_mset q Q) R" and "shared_UnmarshalVT ph grow dAtA (q, S) = ((q', S'), r)"
  shows "sharing_inv S' (add_mset q' Q) R" and "same S S' Q R"
    and "Request_UnmarshalVT ph (read_request S q) dAtA = obind r (\<lambda>_. Ok (read_request S' q'))"
proof -
  obtain fs where fs: "parse_items ph dAtA 0 = (fs, r)" "unmarshal_fields grow fs (q, S) = (q', S')"
    using assms(2) by (auto simp: shared_UnmarshalVT_def split: prod.splits)
  from unmarshal_fields_ok [OF assms(1) fs(2)] Request_UnmarshalVT_items [OF fs(1), of "read_request S q"]
  show "sharing_inv S' (add_mset q' Q) R" "same S S' Q R"
    "Request_UnmarshalVT ph (read_request S q) dAtA = obind r (\<lambda>_. Ok (read_request S' q'))"
    by simp_all
qed

subsection \<open>Handlers\<close>

lemma alloc_all_ok:
  "alloc_all bs m = (cs, m') \<Longrightarrow>
   extends {} m m' \<and> map (contents m') cs = bs \<and>
   (\<forall>c \<in> set cs. slice_ok m' c \<and> writes c \<subseteq> {a. next_addr m \<le> a})"
proof (induction bs arbitrary: m cs)
  case (Cons b bs)
  obtain c m1 where c: "new_array 0 0 b m = (c, m1)" by fastforce
  obtain ds where ds: "alloc_all bs m1 = (ds, m')" "cs = c # ds" using Cons.prems c by (auto split: prod.splits)
  note c_ok = new_array_ok [OF c] and IH = Cons.IH [OF ds(1)]
  have le: "next_addr m \<le> next_addr m1" using c_ok(3) by (simp add: extends_def)
  have ext: "extends {} m1 m'" using IH by blast
  have "contents m' c = b" using contents_extends [OF c_ok(1) ext] c_ok(2) by simp
  moreover have "extends {} m m'" using extends_trans [OF c_ok(3) ext] by simp
  ultimately show ?case using IH ds(2) le c_ok(4) slice_ok_extends [OF c_ok(1) ext] by fastforce
qed simp

text \<open>New header values and a header slice that holds them, after the old ones or instead of them.\<close>

lemma new_headers_ok:
  assumes inv: "sharing_inv S Q (add_mset r R)" and cs: "alloc_all hs (bmem S) = (cs, bm)"
    and s: "slice_ok hm s" "writes s \<subseteq> writes (sm_Headers r) \<union> {next_addr (hmem S)}"
    and ext: "extends (writes (sm_Headers r)) (hmem S) hm"
    and con: "contents hm s = contents (hmem S) old @ cs" and old: "old = sm_Headers r \<or> old = nil_slice"
  defines "S' \<equiv> S\<lparr>bmem := bm, hmem := hm\<rparr>"
  shows "sharing_inv S' Q (add_mset (r\<lparr>sm_Headers := s\<rparr>) R)" and "same S S' Q R"
    and "read_response S' (r\<lparr>sm_Headers := s\<rparr>) = (read_response S r)\<lparr>rs_Headers := read_headers S old @ hs\<rparr>"
proof -
  note a = alloc_all_ok [OF cs]
  have ext0: "extends {} (bmem S) bm" using a by blast
  note S1 = alloc_bytes [OF inv ext0]
  have oldok: "\<forall>d \<in> set (contents (hmem S) old). slice_ok bm d \<and> writes d \<inter> set_mset (byte_arrays Q) = {}"
    using S1(1) old by (auto simp: sharing_inv_def response_msg_ok_def msg_ok_def)
  have "\<forall>d \<in> set (contents hm s). slice_ok bm d \<and> writes d \<inter> set_mset (byte_arrays Q) = {}"
    using oldok a byte_fresh [OF inv] by (auto simp: con)
  with s(2) have "writes s \<subseteq> insert (next_addr (hmem S)) (writes (sm_Headers r))" and cells: "\<forall>d \<in> set (contents hm s).
      slice_ok bm d \<and> writes d \<inter> set_mset (byte_arrays Q) = {}" by auto
  note w = response_headers [OF S1(1), of hm s, simplified, OF s(1) this(1) ext cells]
  show "sharing_inv S' Q (add_mset (r\<lparr>sm_Headers := s\<rparr>) R)" using w(1) by (simp add: S'_def)
  have "same S (S\<lparr>bmem := bm\<rparr>) Q R" using S1(2) by (simp add: same_def)
  with w(2) same_trans show "same S S' Q R" by (auto simp: S'_def)
  have r: "read_response (S\<lparr>bmem := bm\<rparr>) r = read_response S r" using S1(2) by (simp add: same_def)
  then have "read_headers (S\<lparr>bmem := bm\<rparr>) old = read_headers S old"
    using old by (auto simp: read_response_def read_headers_def)
  with r a show "read_response S' (r\<lparr>sm_Headers := s\<rparr>) = (read_response S r)\<lparr>rs_Headers := read_headers S old @ hs\<rparr>"
    by (simp add: S'_def read_response_def read_headers_def con)
qed

lemma sh_op_step_ok:
  assumes inv: "sharing_inv S Q (add_mset r R)" and e: "sh_op_step grow q op (r, S) = (r', S')" and "copies op"
  shows "sharing_inv S' Q (add_mset r' R) \<and> same S S' Q R \<and> read_response S' r' = value_op m op (read_response S r)"
proof (cases op)
  case (NewBody b)
  obtain s bm where s: "new_array 0 0 b (bmem S) = (s, bm)" by fastforce
  note s_ok = new_array_ok [OF s] and S1 = alloc_bytes [OF inv new_array_ok(3) [OF s]]
  have r: "r' = r\<lparr>sm_Body := s\<rparr>" "S' = S\<lparr>bmem := bm\<rparr>" using e s NewBody by simp_all
  have "writes s \<inter> set_mset (byte_arrays Q) = {}" using s_ok(4) by (intro byte_fresh [OF inv]) auto
  with S1(1) s_ok(1) have "sharing_inv S' Q (add_mset r' R)"
    by (simp add: r sharing_inv_def response_msg_ok_def msg_ok_def)
  moreover have "same S S' Q R" "read_response S' r = read_response S r" using S1(2) by (simp_all add: same_def r)
  ultimately show ?thesis using s_ok(2) NewBody by (simp add: r read_response_def)
next
  case (NewHeaders hs)
  obtain cs bm where cs: "alloc_all hs (bmem S) = (cs, bm)" by fastforce
  obtain s hm where s: "new_array nil_slice 0 cs (hmem S) = (s, hm)" by fastforce
  note s_ok = new_array_ok [OF s]
  have ext: "extends (writes (sm_Headers r)) (hmem S) hm" by (rule extends_mono [OF s_ok(3)]) simp
  have r: "r' = r\<lparr>sm_Headers := s\<rparr>" "S' = S\<lparr>bmem := bm, hmem := hm\<rparr>" using e s cs NewHeaders by simp_all
  have w: "writes s \<subseteq> writes (sm_Headers r) \<union> {next_addr (hmem S)}" using s_ok(4) by blast
  from new_headers_ok [OF inv cs s_ok(1) w ext, of nil_slice] s_ok(2) NewHeaders show ?thesis
    by (simp add: r read_headers_def)
next
  case (AddHeader key val)
  let ?hs = "[stringToBytes key, stringToBytes val]"
  obtain cs bm where cs: "alloc_all ?hs (bmem S) = (cs, bm)" by fastforce
  obtain s hm where s: "go_append nil_slice (grow (sl_len (sm_Headers r) + 2)) (sm_Headers r) cs (hmem S) = (s, hm)" by fastforce
  have "slice_ok (hmem S) (sm_Headers r)" using inv by (simp add: sharing_inv_def response_msg_ok_def msg_ok_def)
  note s_ok = go_append_ok [OF this s]
  have r: "r' = r\<lparr>sm_Headers := s\<rparr>" "S' = S\<lparr>bmem := bm, hmem := hm\<rparr>" using e s cs AddHeader by (simp_all del: alloc_all.simps)
  from new_headers_ok [OF inv cs s_ok(1,4,3,2)] AddHeader show ?thesis
    by (simp add: r read_response_def)
next
  case (PutCode code)
  then have "r' = r\<lparr>sm_Code := code\<rparr>" "S' = S" using e by simp_all
  with inv PutCode show ?thesis by (simp add: sharing_inv_def response_msg_ok_def msg_ok_def read_response_def)
qed (use \<open>copies op\<close> in simp_all)

lemma ctx_ops_of:
  "ctx_ops (map (ctx_op_of m) ops) c = Ok (c\<lparr>cx_resp := Some (fold (value_op m) ops r)\<rparr>)" if "cx_resp c = Some r"
  using that
proof (induction ops arbitrary: c r)
  case (Cons op ops)
  have "ctx_op_step (ctx_op_of m op) c = Ok (c\<lparr>cx_resp := Some (value_op m op r)\<rparr>)"
    using Cons.prems
    by (cases op) (simp_all add: Ctx_SetBody_def Ctx_SetHeaders_def Ctx_SetHeader_def Ctx_SetCode_def deref_def)
  with Cons.IH [of "c\<lparr>cx_resp := Some (value_op m op r)\<rparr>" "value_op m op r"] show ?case by simp
qed simp

subsection \<open>Pools\<close>

lemma new_messages_ok:
  "sharing_inv S Q R \<Longrightarrow> sharing_inv S (add_mset new_request Q) R"
  "sharing_inv S Q R \<Longrightarrow> sharing_inv S Q (add_mset new_response R)"
  by (simp_all add: sharing_inv_def new_request_def new_response_def byte_owner_def msg_ok_def response_msg_ok_def)

lemma released_ok:
  "sharing_inv S (add_mset q Q) R \<Longrightarrow> sharing_inv S (add_mset (released_request q) Q) R"
  "sharing_inv S Q (add_mset r R) \<Longrightarrow> sharing_inv S Q (add_mset (released_response r) R)"
  by (simp_all add: sharing_inv_def released_request_def released_response_def new_request_def new_response_def
      byte_owner_def msg_ok_def response_msg_ok_def)

lemma read_clean [simp]:
  "read_request S new_request = Request_zero" "read_request S (released_request q) = Request_zero"
  "read_response S new_response = Response_zero" "read_response S (released_response r) = Response_zero"
  by (simp_all add: read_request_def read_response_def new_request_def new_response_def released_request_def
      released_response_def read_headers_def Request_zero_def Response_zero_def)

lemma put_id_ok:
  assumes "sharing_inv S Q (add_mset r R)"
  shows "sharing_inv S Q (add_mset (r\<lparr>sm_RequestId := n\<rparr>) R)"
    and "read_response S (r\<lparr>sm_RequestId := n\<rparr>) = (read_response S r)\<lparr>rs_RequestId := n\<rparr>"
  using assms by (simp_all add: sharing_inv_def response_msg_ok_def msg_ok_def read_response_def)

end
