(* ===== verification/Server_Streams.thy ===== *)
theory Server_Streams
  imports Shared_Messages
begin

text \<open>
  The streams of a server that run at the same time. Every stream is a goroutine of
  \<open>streamReadCycle\<close>; they share the pools of messages and the memory that the messages point to. A
  schedule says which goroutine makes the next step, and which object each \<open>Get\<close> of a \<open>sync.Pool\<close>
  returns; the steps are the calls of the loop, in their order, and inside a handler its calls on the
  context.

  A handler is a function of the request here: it keeps no state of its own. What it passes to the
  context may be slices of the request. As long as it passes new slices only, every stream answers
  what \<open>serve_spec\<close> says for this stream alone, for every schedule; a handler that echoes the
  request's own body can send the body of another stream's request.
\<close>

section \<open>Streams\<close>

text \<open>A frame of a stream, after \<open>maybeDecompress\<close>.\<close>

datatype inframe = CallFrame bytes | EventFrame bytes

fun frame_data :: "inframe \<Rightarrow> bytes" where
  "frame_data (CallFrame d) = d"
| "frame_data (EventFrame d) = d"

text \<open>
  Where the goroutine of a stream is: between two frames; with the messages it has taken for a
  request, before and after \<open>UnmarshalVT\<close>; in the handler, with the calls that are left; after
  \<open>ReleaseRequest\<close>; the same for an event; or at the end (no handler for the method, or an
  \<open>UnmarshalVT\<close> that does not return).
\<close>

datatype phase =
    Idle
  | Reading smsg sresponse bytes
  | Decoded smsg sresponse
  | Handling smsg sresponse "sh_op list"
  | Encoding sresponse
  | ReadingEvent smsg bytes
  | Notified smsg
  | Stopped

record sstream =
  ss_in :: "inframe list"
  ss_phase :: phase
  ss_out :: "response list"

text \<open>The memory and the package variables \<open>requests\<close> and \<open>responses\<close>.\<close>

record shared =
  sh_store :: store
  sh_requests :: "smsg list"
  sh_responses :: "sresponse list"

record sh_server =
  sh_handlers :: "gostring \<rightharpoonup> (request \<Rightarrow> sh_op list)"
  sh_eventHandlers :: "gostring \<Rightarrow> bool"

definition sh_ReleaseRequest :: "smsg \<Rightarrow> shared \<Rightarrow> shared" where
  "sh_ReleaseRequest q sh = sh\<lparr>sh_requests := pool_put (released_request q) (sh_requests sh)\<rparr>"

definition sh_ReleaseResponse :: "sresponse \<Rightarrow> shared \<Rightarrow> shared" where
  "sh_ReleaseResponse r sh = sh\<lparr>sh_responses := pool_put (released_response r) (sh_responses sh)\<rparr>"

section \<open>Steps\<close>

text \<open>\<open>GetRequest\<close> and \<open>GetResponse\<close>, with the choices of the pools.\<close>

definition take_frame :: "nat \<times> nat \<Rightarrow> sstream \<Rightarrow> shared \<Rightarrow> sstream \<times> shared" where
  "take_frame k s sh =
     (case ss_in s of
        [] \<Rightarrow> (s, sh)
      | CallFrame d # fs \<Rightarrow>
          let (q, reqs) = pool_get (fst k) new_request (sh_requests sh);
              (r, resps) = pool_get (snd k) new_response (sh_responses sh)
          in (s\<lparr>ss_in := fs, ss_phase := Reading q r d\<rparr>, sh\<lparr>sh_requests := reqs, sh_responses := resps\<rparr>)
      | EventFrame d # fs \<Rightarrow>
          let (q, reqs) = pool_get (fst k) new_request (sh_requests sh)
          in (s\<lparr>ss_in := fs, ss_phase := ReadingEvent q d\<rparr>, sh\<lparr>sh_requests := reqs\<rparr>))"

text \<open>\<open>req.UnmarshalVT(data)\<close> for a request; on an error both messages are released.\<close>

definition read_call ::
    "protohelpers \<Rightarrow> (nat \<Rightarrow> nat) \<Rightarrow> smsg \<Rightarrow> sresponse \<Rightarrow> bytes \<Rightarrow> sstream \<Rightarrow> shared \<Rightarrow> sstream \<times> shared" where
  "read_call ph grow q r d s sh =
     (let ((q', S'), x) = shared_UnmarshalVT ph grow d (q, sh_store sh); sh' = sh\<lparr>sh_store := S'\<rparr>
      in case x of
           Ok _ \<Rightarrow> (s\<lparr>ss_phase := Decoded q' r\<rparr>, sh')
         | Err _ \<Rightarrow> (s\<lparr>ss_phase := Idle\<rparr>, sh_ReleaseResponse r (sh_ReleaseRequest q' sh'))
         | _ \<Rightarrow> (s\<lparr>ss_phase := Stopped\<rparr>, sh'))"

text \<open>The handler is looked up; \<open>resp.RequestId = req.RequestId\<close>; it starts.\<close>

definition start_handler :: "sh_server \<Rightarrow> smsg \<Rightarrow> sresponse \<Rightarrow> sstream \<Rightarrow> shared \<Rightarrow> sstream \<times> shared" where
  "start_handler sv q r s sh =
     (let m = read_request (sh_store sh) q
      in case sh_handlers sv (rq_Method m) of
           None \<Rightarrow> (s\<lparr>ss_phase := Stopped\<rparr>, sh_ReleaseResponse r (sh_ReleaseRequest q sh))
         | Some h \<Rightarrow> (s\<lparr>ss_phase := Handling q (r\<lparr>sm_RequestId := rq_RequestId m\<rparr>) (h m)\<rparr>, sh))"

text \<open>The next call of the handler, or \<open>ReleaseRequest\<close> after its last one.\<close>

fun handler_step ::
    "(nat \<Rightarrow> nat) \<Rightarrow> smsg \<Rightarrow> sresponse \<Rightarrow> sh_op list \<Rightarrow> sstream \<Rightarrow> shared \<Rightarrow> sstream \<times> shared" where
  "handler_step grow q r [] s sh = (s\<lparr>ss_phase := Encoding r\<rparr>, sh_ReleaseRequest q sh)"
| "handler_step grow q r (op # ops) s sh =
     (let (r', S') = sh_op_step grow q op (r, sh_store sh)
      in (s\<lparr>ss_phase := Handling q r' ops\<rparr>, sh\<lparr>sh_store := S'\<rparr>))"

text \<open>\<open>EncodeResponse(resp)\<close>, which reads the response, and \<open>ReleaseResponse\<close>.\<close>

definition encode_step :: "sresponse \<Rightarrow> sstream \<Rightarrow> shared \<Rightarrow> sstream \<times> shared" where
  "encode_step r s sh =
     (s\<lparr>ss_phase := Idle, ss_out := ss_out s @ [read_response (sh_store sh) r]\<rparr>, sh_ReleaseResponse r sh)"

definition read_event ::
    "protohelpers \<Rightarrow> (nat \<Rightarrow> nat) \<Rightarrow> sh_server \<Rightarrow> smsg \<Rightarrow> bytes \<Rightarrow> sstream \<Rightarrow> shared \<Rightarrow> sstream \<times> shared" where
  "read_event ph grow sv q d s sh =
     (let ((q', S'), x) = shared_UnmarshalVT ph grow d (q, sh_store sh); sh' = sh\<lparr>sh_store := S'\<rparr>
      in case x of
           Ok _ \<Rightarrow>
             if sh_eventHandlers sv (contents (bmem S') (sm_Method q')) then (s\<lparr>ss_phase := Notified q'\<rparr>, sh')
             else (s\<lparr>ss_phase := Idle\<rparr>, sh_ReleaseRequest q' sh')
         | Err _ \<Rightarrow> (s\<lparr>ss_phase := Idle\<rparr>, sh_ReleaseRequest q' sh')
         | _ \<Rightarrow> (s\<lparr>ss_phase := Stopped\<rparr>, sh'))"

definition stream_step ::
    "protohelpers \<Rightarrow> (nat \<Rightarrow> nat) \<Rightarrow> sh_server \<Rightarrow> nat \<times> nat \<Rightarrow> sstream \<times> shared \<Rightarrow> sstream \<times> shared" where
  "stream_step ph grow sv k x =
     (let (s, sh) = x in case ss_phase s of
        Idle \<Rightarrow> take_frame k s sh
      | Reading q r d \<Rightarrow> read_call ph grow q r d s sh
      | Decoded q r \<Rightarrow> start_handler sv q r s sh
      | Handling q r ops \<Rightarrow> handler_step grow q r ops s sh
      | Encoding r \<Rightarrow> encode_step r s sh
      | ReadingEvent q d \<Rightarrow> read_event ph grow sv q d s sh
      | Notified q \<Rightarrow> (s\<lparr>ss_phase := Idle\<rparr>, sh_ReleaseRequest q sh)
      | Stopped \<Rightarrow> (s, sh))"

text \<open>A schedule: whose turn it is, and the choices of the pools in this step.\<close>

type_synonym turn = "nat \<times> nat \<times> nat"

definition turn_step ::
    "protohelpers \<Rightarrow> (nat \<Rightarrow> nat) \<Rightarrow> sh_server \<Rightarrow> turn \<Rightarrow> sstream list \<times> shared \<Rightarrow> sstream list \<times> shared" where
  "turn_step ph grow sv t st =
     (let (i, k) = t; (ss, sh) = st
      in if i < length ss then let (s', sh') = stream_step ph grow sv k (ss ! i, sh) in (ss[i := s'], sh') else st)"

definition run_streams ::
    "protohelpers \<Rightarrow> (nat \<Rightarrow> nat) \<Rightarrow> sh_server \<Rightarrow> turn list \<Rightarrow> sstream list \<times> shared \<Rightarrow> sstream list \<times> shared" where
  "run_streams ph grow sv sched st = fold (turn_step ph grow sv) sched st"

definition new_stream :: "inframe list \<Rightarrow> sstream" where
  "new_stream fs = \<lparr>ss_in = fs, ss_phase = Idle, ss_out = []\<rparr>"

definition new_shared :: shared where
  "new_shared = \<lparr>sh_store = \<lparr>bmem = empty_memory, hmem = empty_memory\<rparr>, sh_requests = [], sh_responses = []\<rparr>"

section \<open>What a stream answers on its own\<close>

text \<open>The messages among the frames that parse, and the server on values.\<close>

fun frame_msgs :: "protohelpers \<Rightarrow> inframe list \<Rightarrow> inmsg list" where
  "frame_msgs ph [] = []"
| "frame_msgs ph (CallFrame d # fs) =
     (case Request_UnmarshalVT ph Request_zero d of Ok m \<Rightarrow> Call m # frame_msgs ph fs | _ \<Rightarrow> frame_msgs ph fs)"
| "frame_msgs ph (EventFrame d # fs) =
     (case Request_UnmarshalVT ph Request_zero d of Ok m \<Rightarrow> Notify m # frame_msgs ph fs | _ \<Rightarrow> frame_msgs ph fs)"

definition value_server :: "sh_server \<Rightarrow> (unit, unit) server" where
  "value_server sv =
     \<lparr>handlers = (\<lambda>meth. map_option (\<lambda>h w c.
        case cx_req c of None \<Rightarrow> (Inl NilDereference, w) | Some m \<Rightarrow> (Inr (map (ctx_op_of m) (h m)), w)) (sh_handlers sv meth)),
      eventHandlers = (\<lambda>meth. if sh_eventHandlers sv meth then Some (\<lambda>w c. (Inr [], w)) else None)\<rparr>"

definition answers :: "protohelpers \<Rightarrow> sh_server \<Rightarrow> inframe list \<Rightarrow> response list" where
  "answers ph sv fs = fst (serve_spec (value_server sv) (frame_msgs ph fs) ())"

text \<open>Handlers that only pass new slices.\<close>

definition copying :: "sh_server \<Rightarrow> bool" where
  "copying sv \<longleftrightarrow> (\<forall>meth h m. sh_handlers sv meth = Some h \<longrightarrow> list_all copies (h m))"

text \<open>The number of turns a stream needs for its frames.\<close>

fun turns :: "protohelpers \<Rightarrow> sh_server \<Rightarrow> inframe list \<Rightarrow> nat" where
  "turns ph sv [] = 0"
| "turns ph sv (CallFrame d # fs) =
     (case Request_UnmarshalVT ph Request_zero d of
        Ok m \<Rightarrow> (case sh_handlers sv (rq_Method m) of None \<Rightarrow> 3 | Some h \<Rightarrow> 5 + length (h m))
      | _ \<Rightarrow> 2) + turns ph sv fs"
| "turns ph sv (EventFrame d # fs) = 3 + turns ph sv fs"

section \<open>The invariant\<close>

text \<open>The messages that a stream has taken out of the pools.\<close>

fun in_requests :: "phase \<Rightarrow> smsg multiset" where
  "in_requests (Reading q r d) = {#q#}"
| "in_requests (Decoded q r) = {#q#}"
| "in_requests (Handling q r ops) = {#q#}"
| "in_requests (ReadingEvent q d) = {#q#}"
| "in_requests (Notified q) = {#q#}"
| "in_requests _ = {#}"

fun in_responses :: "phase \<Rightarrow> sresponse multiset" where
  "in_responses (Reading q r d) = {#r#}"
| "in_responses (Decoded q r) = {#r#}"
| "in_responses (Handling q r ops) = {#r#}"
| "in_responses (Encoding r) = {#r#}"
| "in_responses _ = {#}"

fun phase_ok :: "store \<Rightarrow> phase \<Rightarrow> bool" where
  "phase_ok S (Reading q r d) \<longleftrightarrow> read_request S q = Request_zero \<and> read_response S r = Response_zero"
| "phase_ok S (Decoded q r) \<longleftrightarrow> read_response S r = Response_zero"
| "phase_ok S (Handling q r ops) \<longleftrightarrow> list_all copies ops"
| "phase_ok S (ReadingEvent q d) \<longleftrightarrow> read_request S q = Request_zero"
| "phase_ok S _ \<longleftrightarrow> True"

text \<open>What a stream alone answers, also when \<open>UnmarshalVT\<close> does not return; what is left to answer; the turns left.\<close>

definition reply :: "sh_server \<Rightarrow> request \<Rightarrow> response list \<Rightarrow> response list" where
  "reply sv m rest =
     (case sh_handlers sv (rq_Method m) of
        None \<Rightarrow> []
      | Some h \<Rightarrow> fold (value_op m) (h m) (Response_zero\<lparr>rs_RequestId := rq_RequestId m\<rparr>) # rest)"

fun alone :: "protohelpers \<Rightarrow> sh_server \<Rightarrow> inframe list \<Rightarrow> response list" where
  "alone ph sv [] = []"
| "alone ph sv (CallFrame d # fs) =
     (case Request_UnmarshalVT ph Request_zero d of
        Ok m \<Rightarrow> reply sv m (alone ph sv fs) | Err e \<Rightarrow> alone ph sv fs | _ \<Rightarrow> [])"
| "alone ph sv (EventFrame d # fs) =
     (case Request_UnmarshalVT ph Request_zero d of Ok m \<Rightarrow> alone ph sv fs | Err e \<Rightarrow> alone ph sv fs | _ \<Rightarrow> [])"

fun pending :: "protohelpers \<Rightarrow> sh_server \<Rightarrow> store \<Rightarrow> inframe list \<Rightarrow> phase \<Rightarrow> response list" where
  "pending ph sv S fs Idle = alone ph sv fs"
| "pending ph sv S fs (Reading q r d) = alone ph sv (CallFrame d # fs)"
| "pending ph sv S fs (Decoded q r) = reply sv (read_request S q) (alone ph sv fs)"
| "pending ph sv S fs (Handling q r ops) =
     fold (value_op (read_request S q)) ops (read_response S r) # alone ph sv fs"
| "pending ph sv S fs (Encoding r) = read_response S r # alone ph sv fs"
| "pending ph sv S fs (ReadingEvent q d) = alone ph sv (EventFrame d # fs)"
| "pending ph sv S fs (Notified q) = alone ph sv fs"
| "pending ph sv S fs Stopped = []"

fun turns_left :: "protohelpers \<Rightarrow> sh_server \<Rightarrow> store \<Rightarrow> inframe list \<Rightarrow> phase \<Rightarrow> nat" where
  "turns_left ph sv S fs Idle = turns ph sv fs"
| "turns_left ph sv S fs (Reading q r d) = turns ph sv (CallFrame d # fs) - 1"
| "turns_left ph sv S fs (Decoded q r) =
     (case sh_handlers sv (rq_Method (read_request S q)) of None \<Rightarrow> 1 | Some h \<Rightarrow> 3 + length (h (read_request S q))) +
     turns ph sv fs"
| "turns_left ph sv S fs (Handling q r ops) = 2 + length ops + turns ph sv fs"
| "turns_left ph sv S fs (Encoding r) = 1 + turns ph sv fs"
| "turns_left ph sv S fs (ReadingEvent q d) = 2 + turns ph sv fs"
| "turns_left ph sv S fs (Notified q) = 1 + turns ph sv fs"
| "turns_left ph sv S fs Stopped = 0"

definition pools_clean :: "shared \<Rightarrow> bool" where
  "pools_clean sh \<longleftrightarrow>
     (\<forall>q \<in> set (sh_requests sh). read_request (sh_store sh) q = Request_zero) \<and>
     (\<forall>r \<in> set (sh_responses sh). read_response (sh_store sh) r = Response_zero)"

text \<open>One stream, the pools and the messages of the other streams.\<close>

definition stream_inv :: "sstream \<Rightarrow> shared \<Rightarrow> smsg multiset \<Rightarrow> sresponse multiset \<Rightarrow> bool" where
  "stream_inv s sh Q R \<longleftrightarrow>
     sharing_inv (sh_store sh) (in_requests (ss_phase s) + mset (sh_requests sh) + Q)
       (in_responses (ss_phase s) + mset (sh_responses sh) + R) \<and>
     pools_clean sh \<and> phase_ok (sh_store sh) (ss_phase s)"

text \<open>A step of a stream: it answers what it would have answered, in fewer turns, and the others keep their messages.\<close>

definition step_ok ::
    "protohelpers \<Rightarrow> sh_server \<Rightarrow> sstream \<Rightarrow> shared \<Rightarrow> sstream \<Rightarrow> shared \<Rightarrow> smsg multiset \<Rightarrow> sresponse multiset \<Rightarrow> bool" where
  "step_ok ph sv s sh s' sh' Q R \<longleftrightarrow>
     stream_inv s' sh' Q R \<and> same (sh_store sh) (sh_store sh') Q R \<and>
     ss_out s' @ pending ph sv (sh_store sh') (ss_in s') (ss_phase s') =
       ss_out s @ pending ph sv (sh_store sh) (ss_in s) (ss_phase s) \<and>
     turns_left ph sv (sh_store sh') (ss_in s') (ss_phase s') \<le> turns_left ph sv (sh_store sh) (ss_in s) (ss_phase s) - 1"

section \<open>Lemmas\<close>

lemma pool_get_mset:
  assumes "pool_get k new pool = (x, rest)"
  shows "x = new \<and> rest = pool \<or> mset pool = add_mset x (mset rest)"
proof (cases "k < length pool")
  case True
  with assms have "x = pool ! k" "rest = take k pool @ drop (Suc k) pool" by (auto simp: pool_get_def)
  moreover have "mset pool = add_mset (pool ! k) (mset (take k pool) + mset (drop (Suc k) pool))"
    using id_take_nth_drop [OF True] by (metis mset.simps(2) mset_append union_mset_add_mset_right)
  ultimately show ?thesis by simp
qed (use assms in \<open>auto simp: pool_get_def\<close>)

lemma get_request_inv:
  assumes "sharing_inv S (mset pool + Q) R" and "pool_get k new_request pool = (q, rest)"
  shows "sharing_inv S (add_mset q (mset rest + Q)) R"
  using assms new_messages_ok(1) [OF assms(1)] pool_get_mset [OF assms(2)] by auto

lemma get_response_inv:
  assumes "sharing_inv S Q (mset pool + R)" and "pool_get k new_response pool = (r, rest)"
  shows "sharing_inv S Q (add_mset r (mset rest + R))"
  using assms new_messages_ok(2) [OF assms(1)] pool_get_mset [OF assms(2)] by auto

lemma take_clean:
  assumes "\<forall>x \<in> set pool. P x" and "pool_get k new pool = (x, rest)" and "P new"
  shows "P x" and "\<forall>y \<in> set rest. P y"
  using assms pool_get_in [of x k new pool] pool_get_rest [of k new pool] by auto

lemma same_others:
  assumes "same (sh_store sh) S' (mset (sh_requests sh) + Q) (mset (sh_responses sh) + R)" and "pools_clean sh"
  shows "same (sh_store sh) S' Q R" and "pools_clean (sh\<lparr>sh_store := S'\<rparr>)"
  using assms by (auto simp: same_def pools_clean_def)

lemma release_clean [simp]:
  "pools_clean (sh_ReleaseRequest q sh) \<longleftrightarrow> pools_clean sh" "pools_clean (sh_ReleaseResponse r sh) \<longleftrightarrow> pools_clean sh"
  "sh_store (sh_ReleaseRequest q sh) = sh_store sh" "sh_store (sh_ReleaseResponse r sh) = sh_store sh"
  "sh_responses (sh_ReleaseRequest q sh) = sh_responses sh" "sh_requests (sh_ReleaseResponse r sh) = sh_requests sh"
  "mset (sh_requests (sh_ReleaseRequest q sh)) = add_mset (released_request q) (mset (sh_requests sh))"
  "mset (sh_responses (sh_ReleaseResponse r sh)) = add_mset (released_response r) (mset (sh_responses sh))"
  by (simp_all add: pools_clean_def sh_ReleaseRequest_def sh_ReleaseResponse_def pool_put_def)

lemma turns_call: "turns ph sv (CallFrame d # fs) \<ge> 2"
  by (auto split: outcome.splits option.splits)

lemma take_frame_ok:
  assumes inv: "stream_inv s sh Q R" and p: "ss_phase s = Idle" and e: "take_frame k s sh = (s', sh')"
  shows "step_ok ph sv s sh s' sh' Q R"
proof (cases "ss_in s")
  case Nil
  with e inv p show ?thesis by (simp add: take_frame_def step_ok_def)
next
  case (Cons f fs)
  have i: "sharing_inv (sh_store sh) (mset (sh_requests sh) + Q) (mset (sh_responses sh) + R)" and c: "pools_clean sh"
    using inv p by (simp_all add: stream_inv_def)
  obtain q reqs where q: "pool_get (fst k) new_request (sh_requests sh) = (q, reqs)" by fastforce
  obtain r resps where r: "pool_get (snd k) new_response (sh_responses sh) = (r, resps)" by fastforce
  note iq = get_request_inv [OF i q] and ir = get_response_inv [OF get_request_inv [OF i q] r]
  have "\<forall>x \<in> set (sh_requests sh). read_request (sh_store sh) x = Request_zero"
    and "\<forall>x \<in> set (sh_responses sh). read_response (sh_store sh) x = Response_zero" using c by (simp_all add: pools_clean_def)
  note cq = take_clean [OF this(1) q read_clean(1)] and cr = take_clean [OF this(2) r read_clean(3)]
  show ?thesis
  proof (cases f)
    case (CallFrame d)
    then have "s' = s\<lparr>ss_in := fs, ss_phase := Reading q r d\<rparr>" "sh' = sh\<lparr>sh_requests := reqs, sh_responses := resps\<rparr>"
      using e Cons q r by (simp_all add: take_frame_def)
    with CallFrame p Cons ir cq cr show ?thesis
      by (simp add: step_ok_def stream_inv_def pools_clean_def del: alone.simps turns.simps)
  next
    case (EventFrame d)
    then have "s' = s\<lparr>ss_in := fs, ss_phase := ReadingEvent q d\<rparr>" "sh' = sh\<lparr>sh_requests := reqs\<rparr>"
      using e Cons q by (simp_all add: take_frame_def)
    with EventFrame p Cons iq cq c show ?thesis
      by (simp add: step_ok_def stream_inv_def pools_clean_def del: alone.simps)
  qed
qed

text \<open>\<open>UnmarshalVT\<close> into a clean message.\<close>

lemma unmarshal_clean:
  assumes inv: "sharing_inv (sh_store sh) (add_mset q (mset (sh_requests sh) + Q)) (R0 + mset (sh_responses sh) + R)"
    and c: "pools_clean sh" and q: "read_request (sh_store sh) q = Request_zero"
    and e: "shared_UnmarshalVT ph grow d (q, sh_store sh) = ((q', S'), x)"
  shows "sharing_inv S' (add_mset q' (mset (sh_requests sh) + Q)) (R0 + mset (sh_responses sh) + R)"
    and "same (sh_store sh) S' Q R" and "pools_clean (sh\<lparr>sh_store := S'\<rparr>)" and "same (sh_store sh) S' {#} R0"
    and "Request_UnmarshalVT ph Request_zero d = obind x (\<lambda>_. Ok (read_request S' q'))"
proof -
  note u = shared_UnmarshalVT_ok [OF inv e]
  have s: "same (sh_store sh) S' (mset (sh_requests sh) + Q) (mset (sh_responses sh) + R)" "same (sh_store sh) S' {#} R0"
    using u(2) by (simp_all add: same_def)
  show "sharing_inv S' (add_mset q' (mset (sh_requests sh) + Q)) (R0 + mset (sh_responses sh) + R)" by (rule u(1))
  show "same (sh_store sh) S' Q R" "pools_clean (sh\<lparr>sh_store := S'\<rparr>)" by (rule same_others [OF s(1) c])+
  show "same (sh_store sh) S' {#} R0" by (rule s(2))
  show "Request_UnmarshalVT ph Request_zero d = obind x (\<lambda>_. Ok (read_request S' q'))" using u(3) q by simp
qed

lemma read_call_ok:
  assumes inv: "stream_inv s sh Q R" and p: "ss_phase s = Reading q r d" and e: "read_call ph grow q r d s sh = (s', sh')"
  shows "step_ok ph sv s sh s' sh' Q R"
proof -
  obtain q' S' x where u: "shared_UnmarshalVT ph grow d (q, sh_store sh) = ((q', S'), x)" by (metis prod.collapse)
  let ?sh = "sh\<lparr>sh_store := S'\<rparr>"
  have "sharing_inv (sh_store sh) (add_mset q (mset (sh_requests sh) + Q)) ({#r#} + mset (sh_responses sh) + R)"
    and c: "pools_clean sh" and z: "read_request (sh_store sh) q = Request_zero" "read_response (sh_store sh) r = Response_zero"
    using inv p by (simp_all add: stream_inv_def)
  note ok = unmarshal_clean [OF this(1) c z(1) u]
  have r: "read_response S' r = Response_zero" using ok(4) z(2) by (simp add: same_def)
  show ?thesis
  proof (cases x)
    case (Ok y)
    then have "s' = s\<lparr>ss_phase := Decoded q' r\<rparr>" "sh' = ?sh" using e u by (simp_all add: read_call_def)
    with Ok p ok r show ?thesis by (simp add: step_ok_def stream_inv_def split: option.splits)
  next
    case (Err y)
    then have s': "s' = s\<lparr>ss_phase := Idle\<rparr>" "sh' = sh_ReleaseResponse r (sh_ReleaseRequest q' ?sh)"
      using e u by (simp_all add: read_call_def)
    have "sharing_inv S' (add_mset (released_request q') (mset (sh_requests sh) + Q))
        (add_mset (released_response r) (mset (sh_responses sh) + R))"
      using released_ok(2) [OF released_ok(1) [OF ok(1), simplified]] by simp
    with Err p ok s' show ?thesis by (simp add: step_ok_def stream_inv_def)
  next
    case (Panic y)
    then have s': "s' = s\<lparr>ss_phase := Stopped\<rparr>" "sh' = ?sh" using e u by (simp_all add: read_call_def)
    from sharing_inv_drop(2) [OF sharing_inv_drop(1) [OF ok(1), simplified]] Panic p ok s' show ?thesis
      by (simp add: step_ok_def stream_inv_def)
  next
    case Diverge
    then have s': "s' = s\<lparr>ss_phase := Stopped\<rparr>" "sh' = ?sh" using e u by (simp_all add: read_call_def)
    from sharing_inv_drop(2) [OF sharing_inv_drop(1) [OF ok(1), simplified]] Diverge p ok s' show ?thesis
      by (simp add: step_ok_def stream_inv_def)
  qed
qed

lemma read_event_ok:
  assumes inv: "stream_inv s sh Q R" and p: "ss_phase s = ReadingEvent q d" and e: "read_event ph grow sv q d s sh = (s', sh')"
  shows "step_ok ph sv s sh s' sh' Q R"
proof -
  obtain q' S' x where u: "shared_UnmarshalVT ph grow d (q, sh_store sh) = ((q', S'), x)" by (metis prod.collapse)
  let ?sh = "sh\<lparr>sh_store := S'\<rparr>"
  have "sharing_inv (sh_store sh) (add_mset q (mset (sh_requests sh) + Q)) ({#} + mset (sh_responses sh) + R)"
    and c: "pools_clean sh" and z: "read_request (sh_store sh) q = Request_zero"
    using inv p by (simp_all add: stream_inv_def)
  note ok = unmarshal_clean [OF this(1) c z u]
  have rel: "sharing_inv S' (add_mset (released_request q') (mset (sh_requests sh) + Q)) (mset (sh_responses sh) + R)"
    using released_ok(1) [OF ok(1)] by simp
  have drop: "sharing_inv S' (mset (sh_requests sh) + Q) (mset (sh_responses sh) + R)"
    using sharing_inv_drop(1) [OF ok(1)] by simp
  show ?thesis
    using e u p ok rel drop
    by (cases x) (auto simp: read_event_def step_ok_def stream_inv_def Let_def split: if_splits)
qed

lemma start_handler_ok:
  assumes inv: "stream_inv s sh Q R" and p: "ss_phase s = Decoded q r" and sv: "copying sv"
    and e: "start_handler sv q r s sh = (s', sh')"
  shows "step_ok ph sv s sh s' sh' Q R"
proof -
  let ?m = "read_request (sh_store sh) q"
  have i: "sharing_inv (sh_store sh) (add_mset q (mset (sh_requests sh) + Q)) (add_mset r (mset (sh_responses sh) + R))"
    and c: "pools_clean sh" and z: "read_response (sh_store sh) r = Response_zero"
    using inv p by (simp_all add: stream_inv_def)
  show ?thesis
  proof (cases "sh_handlers sv (rq_Method ?m)")
    case None
    with e p c released_ok(2) [OF released_ok(1) [OF i]] show ?thesis
      by (auto simp: start_handler_def step_ok_def stream_inv_def reply_def Let_def)
  next
    case (Some h)
    with sv have "list_all copies (h ?m)" by (simp add: copying_def)
    with Some e p c put_id_ok [OF i, of "rq_RequestId ?m"] z show ?thesis
      by (auto simp: start_handler_def step_ok_def stream_inv_def reply_def Let_def)
  qed
qed

lemma handler_step_ok:
  assumes inv: "stream_inv s sh Q R" and p: "ss_phase s = Handling q r ops"
    and e: "handler_step grow q r ops s sh = (s', sh')"
  shows "step_ok ph sv s sh s' sh' Q R"
proof -
  have i: "sharing_inv (sh_store sh) (add_mset q (mset (sh_requests sh) + Q)) (add_mset r (mset (sh_responses sh) + R))"
    and c: "pools_clean sh" and cp: "list_all copies ops"
    using inv p by (simp_all add: stream_inv_def)
  show ?thesis
  proof (cases ops)
    case Nil
    with e p c released_ok(1) [OF i] show ?thesis by (auto simp: step_ok_def stream_inv_def)
  next
    case (Cons op ops')
    obtain r' S' where o: "sh_op_step grow q op (r, sh_store sh) = (r', S')" by fastforce
    have "copies op" "list_all copies ops'" using cp Cons by simp_all
    note ok = sh_op_step_ok [OF i o this(1), of "read_request (sh_store sh) q"]
    have "same (sh_store sh) S' (mset (sh_requests sh) + Q) (mset (sh_responses sh) + R)"
      and q: "read_request S' q = read_request (sh_store sh) q" using ok by (simp_all add: same_def)
    from same_others [OF this(1) c] ok q e p Cons o \<open>list_all copies ops'\<close> show ?thesis
      by (auto simp: step_ok_def stream_inv_def)
  qed
qed

lemma stream_step_ok:
  assumes inv: "stream_inv s sh Q R" and sv: "copying sv" and e: "stream_step ph grow sv k (s, sh) = (s', sh')"
  shows "step_ok ph sv s sh s' sh' Q R"
proof (cases "ss_phase s")
  case Idle
  with e take_frame_ok [OF inv Idle] show ?thesis by (simp add: stream_step_def)
next
  case (Reading q r d)
  with e read_call_ok [OF inv Reading] show ?thesis by (simp add: stream_step_def)
next
  case (Decoded q r)
  with e start_handler_ok [OF inv Decoded sv] show ?thesis by (simp add: stream_step_def)
next
  case (Handling q r ops)
  with e handler_step_ok [OF inv Handling] show ?thesis by (simp add: stream_step_def)
next
  case (Encoding r)
  then have "sharing_inv (sh_store sh) (mset (sh_requests sh) + Q) (add_mset r (mset (sh_responses sh) + R))" "pools_clean sh"
    using inv by (simp_all add: stream_inv_def)
  with e Encoding released_ok(2) [OF this(1)] show ?thesis
    by (auto simp: stream_step_def encode_step_def step_ok_def stream_inv_def)
next
  case (ReadingEvent q d)
  with e read_event_ok [OF inv ReadingEvent] show ?thesis by (simp add: stream_step_def)
next
  case (Notified q)
  then have "sharing_inv (sh_store sh) (add_mset q (mset (sh_requests sh) + Q)) (mset (sh_responses sh) + R)" "pools_clean sh"
    using inv by (simp_all add: stream_inv_def)
  with e Notified released_ok(1) [OF this(1)] show ?thesis
    by (auto simp: stream_step_def step_ok_def stream_inv_def)
next
  case Stopped
  with e inv show ?thesis by (simp add: stream_step_def step_ok_def)
qed

section \<open>All streams\<close>

definition all_requests :: "sstream list \<Rightarrow> smsg multiset" where
  "all_requests ss = sum_list (map (\<lambda>s. in_requests (ss_phase s)) ss)"

definition all_responses :: "sstream list \<Rightarrow> sresponse multiset" where
  "all_responses ss = sum_list (map (\<lambda>s. in_responses (ss_phase s)) ss)"

definition streams_inv :: "sstream list \<times> shared \<Rightarrow> bool" where
  "streams_inv st \<longleftrightarrow> (case st of (ss, sh) \<Rightarrow>
     sharing_inv (sh_store sh) (mset (sh_requests sh) + all_requests ss) (mset (sh_responses sh) + all_responses ss) \<and>
     pools_clean sh \<and> (\<forall>s \<in> set ss. phase_ok (sh_store sh) (ss_phase s)))"

text \<open>What a stream has answered and will answer, and the turns it still needs.\<close>

definition total_out :: "protohelpers \<Rightarrow> sh_server \<Rightarrow> nat \<Rightarrow> sstream list \<times> shared \<Rightarrow> response list" where
  "total_out ph sv i st = (case st of (ss, sh) \<Rightarrow>
     ss_out (ss ! i) @ pending ph sv (sh_store sh) (ss_in (ss ! i)) (ss_phase (ss ! i)))"

definition left_of :: "protohelpers \<Rightarrow> sh_server \<Rightarrow> nat \<Rightarrow> sstream list \<times> shared \<Rightarrow> nat" where
  "left_of ph sv i st = (case st of (ss, sh) \<Rightarrow> turns_left ph sv (sh_store sh) (ss_in (ss ! i)) (ss_phase (ss ! i)))"

definition other_streams :: "nat \<Rightarrow> sstream list \<Rightarrow> sstream list" where
  "other_streams i ss = take i ss @ drop (Suc i) ss"

lemma other_streams_messages:
  assumes "i < length ss"
  shows "all_requests (ss[i := s]) = in_requests (ss_phase s) + all_requests (other_streams i ss)"
    and "all_responses (ss[i := s]) = in_responses (ss_phase s) + all_responses (other_streams i ss)"
  using assms
  by (simp_all add: all_requests_def all_responses_def other_streams_def upd_conv_take_nth_drop ac_simps)

lemma other_streams_member:
  assumes "j < length ss" "j \<noteq> i"
  shows "ss ! j \<in> set (other_streams i ss)"
proof (cases "j < i")
  case True
  then show ?thesis using assms(1) by (auto simp: other_streams_def in_set_conv_nth intro!: exI [of _ j])
next
  case False
  with assms have "drop (Suc i) ss ! (j - Suc i) = ss ! j" "j - Suc i < length (drop (Suc i) ss)" by simp_all
  then show ?thesis unfolding other_streams_def by (metis Un_iff nth_mem set_append)
qed

lemma phase_same:
  assumes "same S S' (in_requests p) (in_responses p)"
  shows "pending ph sv S' fs p = pending ph sv S fs p" and "turns_left ph sv S' fs p = turns_left ph sv S fs p"
    and "phase_ok S' p = phase_ok S p"
proof -
  show "pending ph sv S' fs p = pending ph sv S fs p"
    using assms by (cases p) (simp_all add: same_def)
  show "turns_left ph sv S' fs p = turns_left ph sv S fs p"
    using assms by (cases p) (simp_all add: same_def split: option.splits)
  show "phase_ok S' p = phase_ok S p"
    using assms by (cases p) (simp_all add: same_def)
qed

lemma turn_step_ok:
  assumes inv: "streams_inv st" and sv: "copying sv" and e: "turn_step ph grow sv (i, k) st = st'"
    and j: "j < length (fst st)"
  shows "streams_inv st'" and "length (fst st') = length (fst st)" and "total_out ph sv j st' = total_out ph sv j st"
    and "left_of ph sv j st' \<le> left_of ph sv j st - (if i = j then 1 else 0)"
proof -
  obtain ss sh where st: "st = (ss, sh)" by fastforce
  have "streams_inv st' \<and> length (fst st') = length (fst st) \<and> total_out ph sv j st' = total_out ph sv j st \<and>
    left_of ph sv j st' \<le> left_of ph sv j st - (if i = j then 1 else 0)"
  proof (cases "i < length ss")
    case False
    with e inv j st show ?thesis by (auto simp: turn_step_def)
  next
    case True
    obtain s' sh' where step: "stream_step ph grow sv k (ss ! i, sh) = (s', sh')" by fastforce
    have st': "st' = (ss[i := s'], sh')" using e st True step by (simp add: turn_step_def)
    let ?ts = "other_streams i ss"
    note upd = other_streams_messages [OF True] and cur = other_streams_messages [OF True, of "ss ! i", unfolded list_update_id]
      and mem = other_streams_member
    have "stream_inv (ss ! i) sh (all_requests ?ts) (all_responses ?ts)"
      using inv True by (simp add: st streams_inv_def stream_inv_def cur add.assoc add.left_commute)
    note ok = stream_step_ok [OF this sv step, unfolded step_ok_def]
    have oth: "same (sh_store sh) (sh_store sh') (in_requests (ss_phase (ss ! n))) (in_responses (ss_phase (ss ! n)))"
      if "n < length ss" "n \<noteq> i" for n
      using ok mem [OF that] by (auto simp: same_def all_requests_def all_responses_def)
    have "phase_ok (sh_store sh') (ss_phase (ss ! n))" if "n < length ss" "n \<noteq> i" for n
      using phase_same(3) [OF oth [OF that]] inv that by (simp add: st streams_inv_def)
    then have "\<forall>s \<in> set (ss[i := s']). phase_ok (sh_store sh') (ss_phase s)"
      using ok True by (auto simp: in_set_conv_nth nth_list_update stream_inv_def)
    with ok have "streams_inv st'"
      by (simp add: st' streams_inv_def stream_inv_def upd add.assoc add.left_commute)
    moreover have "total_out ph sv j st' = total_out ph sv j st \<and>
        left_of ph sv j st' \<le> left_of ph sv j st - (if i = j then 1 else 0)"
      using ok phase_same(1,2) [OF oth [of j]] True j
      by (cases "i = j") (auto simp: st st' total_out_def left_of_def)
    ultimately show ?thesis by (simp add: st st')
  qed
  then show "streams_inv st'" "length (fst st') = length (fst st)" "total_out ph sv j st' = total_out ph sv j st"
    "left_of ph sv j st' \<le> left_of ph sv j st - (if i = j then 1 else 0)" by blast+
qed

lemma run_streams_ok:
  assumes "streams_inv st" and "copying sv" and "j < length (fst st)"
  shows "streams_inv (run_streams ph grow sv sched st) \<and> length (fst (run_streams ph grow sv sched st)) = length (fst st) \<and>
    total_out ph sv j (run_streams ph grow sv sched st) = total_out ph sv j st \<and>
    left_of ph sv j (run_streams ph grow sv sched st) \<le> left_of ph sv j st - count_list (map fst sched) j"
  using assms
proof (induction sched arbitrary: st)
  case Nil
  then show ?case by (simp add: run_streams_def)
next
  case (Cons t sched)
  obtain i k where t: "t = (i, k)" by (rule prod.exhaust)
  note s = turn_step_ok [OF Cons.prems(1,2) refl Cons.prems(3), of ph grow i k]
  have "run_streams ph grow sv (t # sched) st = run_streams ph grow sv sched (turn_step ph grow sv (i, k) st)"
    by (simp add: run_streams_def t)
  with Cons.IH [OF s(1) Cons.prems(2)] s Cons.prems(3) show ?case by (auto simp: t)
qed

text \<open>A stream that needs no more turns has no more answers.\<close>

definition finished :: "sstream \<Rightarrow> bool" where
  "finished s \<longleftrightarrow> ss_phase s = Stopped \<or> ss_phase s = Idle \<and> ss_in s = []"

lemma turns_zero: "turns ph sv fs = 0 \<longleftrightarrow> fs = []"
proof (cases fs)
  case (Cons f fs')
  then show ?thesis by (cases f) (auto split: outcome.splits option.splits)
qed simp

lemma finished_iff: "left_of ph sv i (ss, sh) = 0 \<longleftrightarrow> finished (ss ! i)"
proof -
  have "turns ph sv (CallFrame d # fs) - 1 \<noteq> 0" for d fs using turns_call [of ph sv d fs] by linarith
  then show ?thesis
    by (cases "ss_phase (ss ! i)")
      (simp_all add: left_of_def finished_def turns_zero del: turns.simps split: option.splits)
qed

lemma finished_out: "finished (ss ! i) \<Longrightarrow> total_out ph sv i (ss, sh) = ss_out (ss ! i)"
  by (auto simp: finished_def total_out_def)

lemma initial_inv: "streams_inv (map new_stream ins, new_shared)"
proof -
  have "all_requests (map new_stream ins) = {#}" "all_responses (map new_stream ins) = {#}"
    by (induction ins) (simp_all add: all_requests_def all_responses_def new_stream_def)
  then show ?thesis
    by (auto simp: streams_inv_def new_shared_def pools_clean_def new_stream_def sharing_inv_def byte_arrays_def
        header_arrays_def sole_def)
qed

lemma call_value_handler:
  assumes "sh_handlers sv meth = Some h"
  obtains g where "handlers (value_server sv) meth = Some g"
    and "call_handler g () m = (Ok (fold (value_op m) (h m) (Response_zero\<lparr>rs_RequestId := rq_RequestId m\<rparr>)), ())"
proof
  show "handlers (value_server sv) meth = Some (\<lambda>w c.
      case cx_req c of None \<Rightarrow> (Inl NilDereference, w) | Some m \<Rightarrow> (Inr (map (ctx_op_of m) (h m)), w))"
    by (simp add: value_server_def assms)
  show "call_handler (\<lambda>w c. case cx_req c of None \<Rightarrow> (Inl NilDereference, w) | Some m \<Rightarrow> (Inr (map (ctx_op_of m) (h m)), w)) () m =
      (Ok (fold (value_op m) (h m) (Response_zero\<lparr>rs_RequestId := rq_RequestId m\<rparr>)), ())"
    by (simp add: call_handler_def fresh_ctx_def ctx_ops_of deref_def)
qed

lemma alone_answers:
  assumes "vt_helpers_skip ph" and "\<forall>f \<in> set fs. length (frame_data f) < 2 ^ 63"
  shows "alone ph sv fs = answers ph sv fs"
  using assms(2)
proof (induction fs)
  case Nil
  then show ?case by (simp add: answers_def)
next
  case (Cons f fs)
  have u: "returns (Request_UnmarshalVT ph Request_zero (frame_data f))"
    using Cons.prems by (intro vt_helpers_skip.UnmarshalVT_returns(1) [OF assms(1)]) simp
  have IH: "alone ph sv fs = answers ph sv fs" using Cons by simp
  show ?case
  proof (cases f)
    case (CallFrame d)
    show ?thesis
    proof (cases "Request_UnmarshalVT ph Request_zero d")
      case (Ok m)
      show ?thesis
      proof (cases "sh_handlers sv (rq_Method m)")
        case None
        then have "handlers (value_server sv) (rq_Method m) = None" by (simp add: value_server_def)
        with None CallFrame Ok show ?thesis by (simp add: answers_def reply_def)
      next
        case (Some h)
        obtain g where "handlers (value_server sv) (rq_Method m) = Some g"
          "call_handler g () m = (Ok (fold (value_op m) (h m) (Response_zero\<lparr>rs_RequestId := rq_RequestId m\<rparr>)), ())"
          by (rule call_value_handler [OF Some])
        with Some CallFrame Ok IH show ?thesis by (simp add: answers_def reply_def case_prod_unfold Let_def)
      qed
    qed (use u CallFrame IH in \<open>simp_all add: answers_def\<close>)
  next
    case (EventFrame d)
    with u IH show ?thesis
      by (cases "Request_UnmarshalVT ph Request_zero d") (simp_all add: answers_def value_server_def)
  qed
qed

section \<open>Properties\<close>

text \<open>
  C5. Streams do not interfere, although their goroutines share the pools and the memory of the
  messages. For any schedule of any number of streams, any choices of the pools, any contents of the
  frames and handlers that pass new slices to the response: what a stream has answered is at every
  moment a beginning of what the specification answers to this stream's messages alone; when it is
  finished it has answered all of it; and it is finished as soon as it has had the turns its frames
  need, however the turns of the other streams lie between them.
\<close>

theorem streams_isolated:
  assumes "vt_helpers_skip ph" and "\<forall>f \<in> set (ins ! i). length (frame_data f) < 2 ^ 63" and "copying sv"
    and "i < length ins"
    and "s = fst (run_streams ph grow sv sched (map new_stream ins, new_shared)) ! i"
  shows "(\<exists>rest. answers ph sv (ins ! i) = ss_out s @ rest) \<and>
    (finished s \<longrightarrow> ss_out s = answers ph sv (ins ! i)) \<and>
    (turns ph sv (ins ! i) \<le> count_list (map fst sched) i \<longrightarrow> finished s)"
proof -
  obtain ss sh where r: "run_streams ph grow sv sched (map new_stream ins, new_shared) = (ss, sh)" by fastforce
  then have s: "s = ss ! i" using assms(5) by simp
  have len: "i < length (fst (map new_stream ins, new_shared))" using assms(4) by simp
  note run = run_streams_ok [OF initial_inv assms(3) len, of ph grow sched, unfolded r]
  have "total_out ph sv i (map new_stream ins, new_shared) = answers ph sv (ins ! i)"
    "left_of ph sv i (map new_stream ins, new_shared) = turns ph sv (ins ! i)"
    using alone_answers [OF assms(1,2), of sv] assms(4) by (simp_all add: total_out_def left_of_def new_stream_def)
  with run have t: "total_out ph sv i (ss, sh) = answers ph sv (ins ! i)"
    and l: "left_of ph sv i (ss, sh) \<le> turns ph sv (ins ! i) - count_list (map fst sched) i" by auto
  have "\<exists>rest. answers ph sv (ins ! i) = ss_out (ss ! i) @ rest" using t [symmetric] by (simp add: total_out_def)
  with t l finished_iff [of ph sv i ss sh] finished_out [of ss i ph sv sh] show ?thesis by (auto simp: s)
qed

text \<open>Two streams whose requests are handled at the same time, turn by turn.\<close>

definition reversing_server :: sh_server where
  "reversing_server =
     \<lparr>sh_handlers = [gostr ''ec'' \<mapsto> (\<lambda>m. [NewBody (rev (rq_Body m)), AddHeader (gostr ''k'') (gostr ''v'')])],
      sh_eventHandlers = (\<lambda>_. False)\<rparr>"

definition two_streams :: "inframe list list" where
  "two_streams = [[CallFrame (enc_request sample_request)], [CallFrame (enc_request (sample_request\<lparr>rq_RequestId := 0\<rparr>))]]"

definition alternating :: "turn list" where
  "alternating = concat (replicate 7 [(0, 0, 0), (1, 0, 0)])"

lemma two_streams_fit:
  "request_fits sample_request" "request_fits (sample_request\<lparr>rq_RequestId := 0\<rparr>)"
  "Request_UnmarshalVT ph Request_zero (enc_request sample_request) = Ok sample_request"
proof -
  show f: "request_fits sample_request" "request_fits (sample_request\<lparr>rq_RequestId := 0\<rparr>)"
    by (simp_all add: sample_request_def request_fits_def enc_request_def enc_headers_def enc_opt_bytes_def
        enc_opt_varint_def enc_bytes_def enc_varint_def uvarint_def venc.simps)
  show "Request_UnmarshalVT ph Request_zero (enc_request sample_request) = Ok sample_request"
    using Request_UnmarshalVT_merge [OF f(1), of ph Request_zero] by (simp add: sample_request_def request_merge_zero)
qed

theorem streams_isolated_witness:
  "ss_out (fst (run_streams ref_helpers (\<lambda>n. n) reversing_server alternating (map new_stream two_streams, new_shared)) ! 0) =
    answers ref_helpers reversing_server [CallFrame (enc_request sample_request)]"
proof -
  have h: "sh_handlers reversing_server (rq_Method sample_request) =
      Some (\<lambda>m. [NewBody (rev (rq_Body m)), AddHeader (gostr ''k'') (gostr ''v'')])"
    by (simp add: reversing_server_def sample_request_def gostr_def)
  have "copying reversing_server" by (simp add: copying_def reversing_server_def)
  moreover have "\<forall>f \<in> set (two_streams ! 0). length (frame_data f) < 2 ^ 63"
    using two_streams_fit(1) by (simp add: two_streams_def request_fits_def)
  moreover have "turns ref_helpers reversing_server (two_streams ! 0) \<le> count_list (map fst alternating) 0"
    by (simp add: two_streams_def two_streams_fit(3) h alternating_def numeral_eq_Suc)
  ultimately show ?thesis
    using streams_isolated [OF ref.vt_helpers_skip_axioms, of two_streams 0 reversing_server _ "\<lambda>n. n" alternating]
    by (simp add: two_streams_def)
qed

end
