(* ===== verification/Stream_Slices.thy ===== *)
theory Stream_Slices
  imports Server_Streams
begin

text \<open>
  Concurrent streams whose handlers pass slices of the request to the response. Whatever they do, no
  slice ever leaves its array (\<open>slices_in_bounds\<close>): the sharing is memory-safe. But it is not
  harmless: a handler that answers with the request's own body can send bytes of another stream's
  request (\<open>echo_leaks_other_request\<close>), because \<open>ReleaseRequest\<close> comes before \<open>EncodeResponse\<close>.
\<close>

section \<open>Slices stay in their arrays\<close>

text \<open>Every byte slice that a header array holds lies in its array; so do the slices of a message.\<close>

definition store_ok :: "store \<Rightarrow> bool" where
  "store_ok S \<longleftrightarrow> (\<forall>a. \<forall>c \<in> set (arrays (hmem S) a). slice_ok (bmem S) c)"

definition msg_typed :: "store \<Rightarrow> 'a smsg_scheme \<Rightarrow> bool" where
  "msg_typed S x \<longleftrightarrow>
     slice_ok (bmem S) (sm_Method x) \<and> slice_ok (bmem S) (sm_Body x) \<and> slice_ok (hmem S) (sm_Headers x)"

definition phase_typed :: "store \<Rightarrow> phase \<Rightarrow> bool" where
  "phase_typed S p \<longleftrightarrow> (\<forall>q \<in># in_requests p. msg_typed S q) \<and> (\<forall>r \<in># in_responses p. msg_typed S r)"

definition shared_typed :: "shared \<Rightarrow> bool" where
  "shared_typed sh \<longleftrightarrow> store_ok (sh_store sh) \<and>
     (\<forall>q \<in> set (sh_requests sh). msg_typed (sh_store sh) q) \<and> (\<forall>r \<in> set (sh_responses sh). msg_typed (sh_store sh) r)"

definition streams_typed :: "sstream list \<times> shared \<Rightarrow> bool" where
  "streams_typed st \<longleftrightarrow> shared_typed (snd st) \<and> (\<forall>s \<in> set (fst st). phase_typed (sh_store (snd st)) (ss_phase s))"

text \<open>Memory only grows.\<close>

definition grown :: "store \<Rightarrow> store \<Rightarrow> bool" where
  "grown S S' \<longleftrightarrow> extends UNIV (bmem S) (bmem S') \<and> extends UNIV (hmem S) (hmem S')"

lemma grown_refl [simp]: "grown S S"
  by (simp add: grown_def)

lemma grown_trans: "grown S S' \<Longrightarrow> grown S' S'' \<Longrightarrow> grown S S''"
  using extends_trans [of UNIV "bmem S" "bmem S'" UNIV "bmem S''"] extends_trans [of UNIV "hmem S" "hmem S'" UNIV "hmem S''"]
  by (simp add: grown_def)

lemma msg_typed_grown: "msg_typed S x \<Longrightarrow> grown S S' \<Longrightarrow> msg_typed S' x"
  by (auto simp: msg_typed_def grown_def intro: slice_ok_extends)

lemma phase_typed_grown: "phase_typed S p \<Longrightarrow> grown S S' \<Longrightarrow> phase_typed S' p"
  by (auto simp: phase_typed_def intro: msg_typed_grown)

text \<open>What an append leaves in the arrays.\<close>

lemma contents_subset: "set (contents m s) \<subseteq> set (arrays m (sl_addr s))"
  unfolding contents_def by (meson order_trans set_drop_subset set_take_subset)

lemma new_array_cells:
  assumes "new_array z extra vs m = (s', m')"
  shows "set (arrays m' a) \<subseteq> set (arrays m a) \<union> set vs \<union> {z}"
  using assms by (auto simp: new_array_def split: if_splits)

lemma go_append_cells:
  assumes "go_append z extra s vs m = (s', m')"
  shows "\<exists>b. set (arrays m' a) \<subseteq> set (arrays m a) \<union> set (arrays m b) \<union> set vs \<union> {z}"
proof (cases "sl_len s + length vs \<le> sl_cap s")
  case True
  have "set (overwrite i vs xs) \<subseteq> set xs \<union> set vs" for i xs
    by (auto simp: overwrite_def dest: in_set_takeD in_set_dropD)
  then show ?thesis using assms True by (fastforce simp: go_append_def)
next
  case False
  with assms have "new_array z extra (contents m s @ vs) m = (s', m')" by (simp add: go_append_def)
  from new_array_cells [OF this, of a] contents_subset [of m s] show ?thesis by fastforce
qed

lemma store_ok_hmem:
  assumes "store_ok S" and "\<And>a. \<exists>b. set (arrays hm a) \<subseteq> set (arrays (hmem S) a) \<union> set (arrays (hmem S) b) \<union> set cs \<union> {nil_slice}"
    and "\<forall>c \<in> set cs. slice_ok (bmem S) c"
  shows "store_ok (S\<lparr>hmem := hm\<rparr>)"
  unfolding store_ok_def
proof (intro allI ballI)
  fix a c
  assume "c \<in> set (arrays (hmem (S\<lparr>hmem := hm\<rparr>)) a)"
  with assms(2) [of a] assms(1,3) show "slice_ok (bmem (S\<lparr>hmem := hm\<rparr>)) c" by (auto simp: store_ok_def)
qed

lemma store_ok_bmem: "store_ok S \<Longrightarrow> extends A (bmem S) bm \<Longrightarrow> store_ok (S\<lparr>bmem := bm\<rparr>)"
  by (auto simp: store_ok_def intro: slice_ok_extends)

lemma grown_bmem: "extends A (bmem S) bm \<Longrightarrow> grown S (S\<lparr>bmem := bm\<rparr>)"
  by (auto simp: grown_def intro: extends_mono)

lemma grown_hmem: "extends A (hmem S) hm \<Longrightarrow> grown S (S\<lparr>hmem := hm\<rparr>)"
  by (auto simp: grown_def intro: extends_mono)

text \<open>An append of new byte slices to a header slice.\<close>

lemma append_headers_typed:
  assumes S: "store_ok S" and h: "slice_ok (hmem S) h"
    and bm: "extends A (bmem S) bm" "\<forall>c \<in> set cs. slice_ok bm c"
    and a: "go_append nil_slice n h cs (hmem S) = (s, hm)"
  defines "S' \<equiv> S\<lparr>bmem := bm, hmem := hm\<rparr>"
  shows "store_ok S'" and "grown S S'" and "slice_ok (hmem S') s"
proof -
  let ?S1 = "S\<lparr>bmem := bm\<rparr>"
  note a_ok = go_append_ok [OF h a]
  have "store_ok (?S1\<lparr>hmem := hm\<rparr>)"
    by (rule store_ok_hmem [OF store_ok_bmem [OF S bm(1)], of hm cs]) (use go_append_cells [OF a] bm(2) in simp_all)
  then show "store_ok S'" by (simp add: S'_def)
  have "grown ?S1 (?S1\<lparr>hmem := hm\<rparr>)" by (rule grown_hmem) (use a_ok(3) in simp)
  with grown_bmem [OF bm(1)] grown_trans show "grown S S'" unfolding S'_def by fastforce
  show "slice_ok (hmem S') s" using a_ok(1) by (simp add: S'_def)
qed

lemma unmarshal_field_typed:
  assumes S: "store_ok S" and q: "msg_typed S q" and e: "unmarshal_field grow f (q, S) = (q', S')"
  shows "store_ok S' \<and> grown S S' \<and> msg_typed S' q'"
proof (cases f)
  case (FHeader h)
  obtain c bm where c: "new_array 0 0 h (bmem S) = (c, bm)" by fastforce
  obtain s hm where s: "go_append nil_slice (grow (sl_len (sm_Headers q) + 1)) (sm_Headers q) [c] (hmem S) = (s, hm)" by fastforce
  note c_ok = new_array_ok [OF c]
  have h: "slice_ok (hmem S) (sm_Headers q)" using q by (simp add: msg_typed_def)
  have r: "q' = q\<lparr>sm_Headers := s\<rparr>" "S' = S\<lparr>bmem := bm, hmem := hm\<rparr>" using e c s FHeader by simp_all
  have "\<forall>d \<in> set [c]. slice_ok bm d" using c_ok(1) by simp
  note ap = append_headers_typed [OF S h c_ok(3) this s]
  from ap msg_typed_grown [OF q ap(2)] show ?thesis by (simp add: r msg_typed_def)
next
  case (FMethod v)
  obtain s bm where s: "go_append 0 (grow (length v)) (truncated (sm_Method q)) v (bmem S) = (s, bm)" by fastforce
  have ok: "slice_ok (bmem S) (truncated (sm_Method q))" using q by (simp add: msg_typed_def)
  note s_ok = go_append_ok [OF ok s]
  have r: "q' = q\<lparr>sm_Method := s\<rparr>" "S' = S\<lparr>bmem := bm\<rparr>" using e s FMethod by simp_all
  from store_ok_bmem [OF S s_ok(3)] grown_bmem [OF s_ok(3)] msg_typed_grown [OF q grown_bmem [OF s_ok(3)]] s_ok(1)
  show ?thesis by (simp add: r msg_typed_def)
next
  case (FBody v)
  obtain s bm where s: "go_append 0 (grow (length v)) (truncated (sm_Body q)) v (bmem S) = (s, bm)" by fastforce
  have ok: "slice_ok (bmem S) (truncated (sm_Body q))" using q by (simp add: msg_typed_def)
  note s_ok = go_append_ok [OF ok s]
  have r: "q' = q\<lparr>sm_Body := s\<rparr>" "S' = S\<lparr>bmem := bm\<rparr>" using e s FBody by simp_all
  from store_ok_bmem [OF S s_ok(3)] grown_bmem [OF s_ok(3)] msg_typed_grown [OF q grown_bmem [OF s_ok(3)]] s_ok(1)
  show ?thesis by (simp add: r msg_typed_def)
qed (use assms in \<open>auto simp: msg_typed_def\<close>)

lemma unmarshal_fields_typed:
  assumes "store_ok S" and "msg_typed S q" and "unmarshal_fields grow fs (q, S) = (q', S')"
  shows "store_ok S' \<and> grown S S' \<and> msg_typed S' q'"
  using assms
proof (induction fs arbitrary: q S)
  case Nil
  then show ?case by (simp add: unmarshal_fields_def)
next
  case (Cons f fs)
  obtain q1 S1 where f: "unmarshal_field grow f (q, S) = (q1, S1)" by fastforce
  note ok = unmarshal_field_typed [OF Cons.prems(1,2) f]
  have "unmarshal_fields grow fs (q1, S1) = (q', S')" using Cons.prems(3) f by (simp add: unmarshal_fields_def)
  with Cons.IH [of S1 q1] ok grown_trans show ?case by blast
qed

lemma shared_UnmarshalVT_typed:
  assumes "store_ok S" and "msg_typed S q" and "shared_UnmarshalVT ph grow d (q, S) = ((q', S'), x)"
  shows "store_ok S'" and "grown S S'" and "msg_typed S' q'"
  using assms unmarshal_fields_typed [OF assms(1,2)] by (auto simp: shared_UnmarshalVT_def split: prod.splits)

lemma sh_op_step_typed:
  assumes S: "store_ok S" and q: "msg_typed S q" and r: "msg_typed S r" and e: "sh_op_step grow q op (r, S) = (r', S')"
  shows "store_ok S' \<and> grown S S' \<and> msg_typed S' r'"
proof (cases op)
  case (NewBody b)
  obtain s bm where s: "new_array 0 0 b (bmem S) = (s, bm)" by fastforce
  note s_ok = new_array_ok [OF s]
  have r': "r' = r\<lparr>sm_Body := s\<rparr>" "S' = S\<lparr>bmem := bm\<rparr>" using e s NewBody by simp_all
  from store_ok_bmem [OF S s_ok(3)] grown_bmem [OF s_ok(3)] msg_typed_grown [OF r grown_bmem [OF s_ok(3)]] s_ok(1)
  show ?thesis by (simp add: r' msg_typed_def)
next
  case (NewHeaders hs)
  obtain cs bm where cs: "alloc_all hs (bmem S) = (cs, bm)" by fastforce
  obtain s hm where s: "new_array nil_slice 0 cs (hmem S) = (s, hm)" by fastforce
  note a = alloc_all_ok [OF cs] and s_ok = new_array_ok [OF s]
  have r': "r' = r\<lparr>sm_Headers := s\<rparr>" "S' = S\<lparr>bmem := bm, hmem := hm\<rparr>" using e s cs NewHeaders by simp_all
  have ext: "extends {} (bmem S) bm" and c: "\<forall>c \<in> set cs. slice_ok bm c" using a by blast+
  have "store_ok (S\<lparr>bmem := bm\<rparr>\<lparr>hmem := hm\<rparr>)"
    by (rule store_ok_hmem [OF store_ok_bmem [OF S ext], of hm cs]) (use new_array_cells [OF s] c in fastforce)+
  moreover have "grown S S'" using ext s_ok(3) by (auto simp: r' grown_def intro: extends_mono)
  ultimately show ?thesis using msg_typed_grown [OF r, of S'] s_ok(1) by (simp add: r' msg_typed_def)
next
  case (AddHeader key val)
  let ?hs = "[stringToBytes key, stringToBytes val]"
  obtain cs bm where cs: "alloc_all ?hs (bmem S) = (cs, bm)" by fastforce
  obtain s hm where s: "go_append nil_slice (grow (sl_len (sm_Headers r) + 2)) (sm_Headers r) cs (hmem S) = (s, hm)" by fastforce
  note a = alloc_all_ok [OF cs]
  have h: "slice_ok (hmem S) (sm_Headers r)" using r by (simp add: msg_typed_def)
  have r': "r' = r\<lparr>sm_Headers := s\<rparr>" "S' = S\<lparr>bmem := bm, hmem := hm\<rparr>" using e s cs AddHeader by (simp_all del: alloc_all.simps)
  have ext: "extends {} (bmem S) bm" and c: "\<forall>c \<in> set cs. slice_ok bm c" using a by blast+
  note ap = append_headers_typed [OF S h ext c s]
  from ap msg_typed_grown [OF r ap(2)] show ?thesis by (simp add: r' msg_typed_def)
qed (use assms in \<open>auto simp: msg_typed_def\<close>)

lemma messages_typed [simp]:
  "msg_typed S new_request" "msg_typed S new_response"
  "msg_typed S q \<Longrightarrow> msg_typed S (released_request q)" "msg_typed S r \<Longrightarrow> msg_typed S (released_response r)"
  by (simp_all add: msg_typed_def new_request_def new_response_def released_request_def released_response_def)

lemma release_typed:
  "shared_typed sh \<Longrightarrow> msg_typed (sh_store sh) q \<Longrightarrow> shared_typed (sh_ReleaseRequest q sh)"
  "shared_typed sh \<Longrightarrow> msg_typed (sh_store sh) r \<Longrightarrow> shared_typed (sh_ReleaseResponse r sh)"
  by (simp_all add: shared_typed_def sh_ReleaseRequest_def sh_ReleaseResponse_def pool_put_def)

lemma shared_typed_grown: "shared_typed sh \<Longrightarrow> store_ok S' \<Longrightarrow> grown (sh_store sh) S' \<Longrightarrow> shared_typed (sh\<lparr>sh_store := S'\<rparr>)"
  by (auto simp: shared_typed_def intro: msg_typed_grown)

lemma take_frame_typed:
  assumes "shared_typed sh" and "phase_typed (sh_store sh) (ss_phase s)" and "take_frame k s sh = (s', sh')"
  shows "shared_typed sh' \<and> phase_typed (sh_store sh') (ss_phase s') \<and> sh_store sh' = sh_store sh"
proof -
  have c: "\<forall>q \<in> set (sh_requests sh). msg_typed (sh_store sh) q" "\<forall>r \<in> set (sh_responses sh). msg_typed (sh_store sh) r"
    using assms(1) by (simp_all add: shared_typed_def)
  obtain q reqs where q: "pool_get (fst k) new_request (sh_requests sh) = (q, reqs)" by fastforce
  obtain r resps where r: "pool_get (snd k) new_response (sh_responses sh) = (r, resps)" by fastforce
  note cq = take_clean [OF c(1) q messages_typed(1)] and cr = take_clean [OF c(2) r messages_typed(2)]
  show ?thesis
    using assms q r cq cr
    by (auto simp: take_frame_def shared_typed_def phase_typed_def split: list.splits inframe.splits)
qed

lemma stream_step_typed:
  assumes sh: "shared_typed sh" and p: "phase_typed (sh_store sh) (ss_phase s)"
    and e: "stream_step ph grow sv k (s, sh) = (s', sh')"
  shows "shared_typed sh' \<and> phase_typed (sh_store sh') (ss_phase s') \<and> grown (sh_store sh) (sh_store sh')"
proof (cases "ss_phase s")
  case Idle
  with take_frame_typed [OF sh p, of k s' sh'] e show ?thesis by (auto simp: stream_step_def)
next
  case (Reading q r d)
  obtain q' S' x where u: "shared_UnmarshalVT ph grow d (q, sh_store sh) = ((q', S'), x)" by (metis prod.collapse)
  have t: "store_ok (sh_store sh)" "msg_typed (sh_store sh) q" "msg_typed (sh_store sh) r"
    using sh p Reading by (simp_all add: shared_typed_def phase_typed_def)
  note ok = shared_UnmarshalVT_typed [OF t(1,2) u] 
  note sh' = shared_typed_grown [OF sh ok(1,2)] and r = msg_typed_grown [OF t(3) ok(2)]
  from e Reading u sh' r ok show ?thesis
    by (cases x) (auto simp: stream_step_def read_call_def phase_typed_def Let_def intro!: release_typed)
next
  case (Decoded q r)
  then have "msg_typed (sh_store sh) q" "msg_typed (sh_store sh) r" using p by (simp_all add: phase_typed_def)
  moreover from this(2) have "msg_typed (sh_store sh) (r\<lparr>sm_RequestId := n\<rparr>)" for n by (simp add: msg_typed_def)
  ultimately show ?thesis using e Decoded sh
    by (auto simp: stream_step_def start_handler_def phase_typed_def Let_def intro!: release_typed split: option.splits)
next
  case (Handling q r ops)
  then have t: "store_ok (sh_store sh)" "msg_typed (sh_store sh) q" "msg_typed (sh_store sh) r"
    using sh p by (simp_all add: shared_typed_def phase_typed_def)
  show ?thesis
  proof (cases ops)
    case Nil
    with e Handling sh t show ?thesis by (auto simp: stream_step_def phase_typed_def intro!: release_typed)
  next
    case (Cons op ops')
    obtain r' S' where o: "sh_op_step grow q op (r, sh_store sh) = (r', S')" by fastforce
    note ok = sh_op_step_typed [OF t o]
    from e Handling Cons o ok shared_typed_grown [OF sh, of S'] msg_typed_grown [OF t(2), of S'] show ?thesis
      by (auto simp: stream_step_def phase_typed_def)
  qed
next
  case (Encoding r)
  with e sh p show ?thesis by (auto simp: stream_step_def encode_step_def phase_typed_def intro!: release_typed)
next
  case (ReadingEvent q d)
  obtain q' S' x where u: "shared_UnmarshalVT ph grow d (q, sh_store sh) = ((q', S'), x)" by (metis prod.collapse)
  have t: "store_ok (sh_store sh)" "msg_typed (sh_store sh) q"
    using sh p ReadingEvent by (simp_all add: shared_typed_def phase_typed_def)
  note ok = shared_UnmarshalVT_typed [OF t u] 
  from e ReadingEvent u shared_typed_grown [OF sh ok(1,2)] ok show ?thesis
    by (cases x) (auto simp: stream_step_def read_event_def phase_typed_def Let_def intro!: release_typed split: if_splits)
next
  case (Notified q)
  with e sh p show ?thesis by (auto simp: stream_step_def phase_typed_def intro!: release_typed)
next
  case Stopped
  with e sh p show ?thesis by (simp add: stream_step_def)
qed

lemma turn_step_typed:
  assumes "streams_typed st"
  shows "streams_typed (turn_step ph grow sv t st)"
proof -
  obtain i k where t: "t = (i, k)" by (rule prod.exhaust)
  obtain ss sh where st: "st = (ss, sh)" by fastforce
  show ?thesis
  proof (cases "i < length ss")
    case True
    obtain s' sh' where step: "stream_step ph grow sv k (ss ! i, sh) = (s', sh')" by fastforce
    have "shared_typed sh" "phase_typed (sh_store sh) (ss_phase (ss ! i))"
      using assms True by (simp_all add: st streams_typed_def)
    note ok = stream_step_typed [OF this step]
    have "turn_step ph grow sv t st = (ss[i := s'], sh')" using True step by (simp add: t st turn_step_def)
    with ok assms phase_typed_grown show ?thesis
      by (auto simp: st streams_typed_def dest!: set_update_subset_insert [THEN subsetD])
  qed (use assms in \<open>simp add: t st turn_step_def\<close>)
qed

section \<open>The wire format of a request, field by field\<close>

lemma next_item_Method:
  assumes "length (pre @ enc_bytes 0x12 v @ post) < 2 ^ 63"
  shows "next_item ph (pre @ enc_bytes 0x12 v @ post) (length pre) = Ok (length pre + length (enc_bytes 0x12 v), FMethod v)"
  using assms read_bytes_tagged [of pre "0x12" v post]
    read_tag_byte [of "0x12" "''Request''" pre "venc (length v) @ v @ post"]
  by (simp add: next_item_def Request_item_def enc_bytes_def)

lemma next_item_Body:
  assumes "length (pre @ enc_bytes 0x22 v @ post) < 2 ^ 63"
  shows "next_item ph (pre @ enc_bytes 0x22 v @ post) (length pre) = Ok (length pre + length (enc_bytes 0x22 v), FBody v)"
  using assms read_bytes_tagged [of pre "0x22" v post]
    read_tag_byte [of "0x22" "''Request''" pre "venc (length v) @ v @ post"]
  by (simp add: next_item_def Request_item_def enc_bytes_def)

lemma next_item_RequestId:
  "next_item ph (pre @ enc_varint 0x18 v @ post) (length pre) = Ok (length pre + length (enc_varint 0x18 v), FRequestId v)"
  using varint_loop_tagged [of pre "0x18" v post]
    read_tag_byte [of "0x18" "''Request''" pre "uvarint v @ post"]
  by (simp add: next_item_def Request_item_def enc_varint_def)

lemma parse_items_step:
  assumes "next_item ph d i = Ok (j, f)" and "i < j" and "i < length d" and "parse_items ph d j = (fs, r)"
  shows "parse_items ph d i = (f # fs, r)"
  using assms by (simp add: parse_items.simps [of ph d i])

lemma parse_request:
  assumes "request_fits m" and "rq_Headers m = []" and "rq_Method m \<noteq> []" and "rq_RequestId m \<noteq> 0" and "rq_Body m \<noteq> []"
    and "rq_unknownFields m = []"
  shows "parse_items ph (enc_request m) 0 = ([FMethod (rq_Method m), FRequestId (rq_RequestId m), FBody (rq_Body m)], Ok ())"
proof -
  define a b c where abc: "a = enc_bytes 0x12 (rq_Method m)" "b = enc_varint 0x18 (rq_RequestId m)" "c = enc_bytes 0x22 (rq_Body m)"
  have e: "enc_request m = a @ b @ c"
    using assms(2-6) by (simp add: enc_request_def enc_headers_def enc_opt_bytes_def enc_opt_varint_def abc)
  have len: "length (a @ b @ c) < 2 ^ 63" using assms(1) by (simp add: request_fits_def e)
  have ne: "0 < length a" "0 < length b" "0 < length c" by (simp_all add: abc)
  have "parse_items ph (a @ b @ c) (length (a @ b @ c)) = ([], Ok ())" by (simp add: parse_items.simps)
  then have 3: "parse_items ph (a @ b @ c) (length (a @ b)) = ([FBody (rq_Body m)], Ok ())"
    using next_item_Body [of "a @ b" "rq_Body m" "[]" ph] len ne by (intro parse_items_step) (simp_all add: abc)
  have 2: "parse_items ph (a @ b @ c) (length a) = ([FRequestId (rq_RequestId m), FBody (rq_Body m)], Ok ())"
    using next_item_RequestId [of ph a "rq_RequestId m" c] ne
    by (intro parse_items_step [OF _ _ _ 3]) (simp_all add: abc)
  have "parse_items ph (a @ b @ c) 0 = ([FMethod (rq_Method m), FRequestId (rq_RequestId m), FBody (rq_Body m)], Ok ())"
    using next_item_Method [of "[]" "rq_Method m" "b @ c" ph] len ne
    by (intro parse_items_step [OF _ _ _ 2]) (simp_all add: abc)
  then show ?thesis by (simp add: e)
qed

section \<open>Properties\<close>


text \<open>A server whose handler answers with the body of its request: \<open>ctx.SetBody(ctx.Body())\<close>.\<close>

definition echo_server :: sh_server where
  "echo_server = \<lparr>sh_handlers = [gostr ''echo'' \<mapsto> (\<lambda>m. [RequestBody])], sh_eventHandlers = (\<lambda>_. False)\<rparr>"

definition echo_request :: "u64 \<Rightarrow> bytes \<Rightarrow> request" where
  "echo_request n body = Request_zero\<lparr>rq_RequestId := n, rq_Method := gostr ''echo'', rq_Body := body\<rparr>"

definition leak_schedule :: "turn list" where
  "leak_schedule = replicate 5 (0, 0, 0) @ replicate 2 (1, 0, 0) @ [(0, 0, 0)]"

lemma echo_handlers: "sh_handlers echo_server [101, 99, 104, 111] = Some (\<lambda>m. [RequestBody])"
  by (simp add: echo_server_def gostr_def)

lemma echo_interleaved:
  assumes "parse_items ph d0 0 = ([FMethod [101, 99, 104, 111], FRequestId i, FBody a], Ok ())"
    and "parse_items ph d1 0 = ([FMethod [101, 99, 104, 111], FRequestId j, FBody b], Ok ())"
    and "a \<noteq> []" and "length b \<le> length a"
  shows "ss_out (fst (run_streams ph (\<lambda>_. 0) echo_server leak_schedule
      (map new_stream [[CallFrame d0], [CallFrame d1]], new_shared)) ! 0) =
    [Response_zero\<lparr>rs_RequestId := i, rs_Body := b @ drop (length b) a\<rparr>]"
  using assms
  by (simp add: run_streams_def leak_schedule_def numeral_eq_Suc turn_step_def stream_step_def new_stream_def new_shared_def
      take_frame_def pool_get_def new_request_def new_response_def read_call_def shared_UnmarshalVT_def unmarshal_fields_def
      go_append_def truncated_def nil_slice_def new_array_def contents_def empty_memory_def start_handler_def
      read_request_def read_headers_def echo_handlers sh_ReleaseRequest_def sh_ReleaseResponse_def pool_put_def
      released_request_def released_response_def overwrite_def encode_step_def read_response_def Response_zero_def)

text \<open>
  C11. An echoing handler leaks the bytes of one client to another. The request of stream 0 is
  released before its response is encoded; stream 1 takes the message out of the pool and
  unmarshals its own request into it; then stream 0 encodes its response, whose body is still the
  array of that message. It sends the body \<open>b\<close> of the other request, followed by the rest of its own,
  where the specification answers its own body \<open>a\<close>. This happens for all bodies with
  \<open>length b \<le> length a\<close>.
\<close>

theorem echo_leaks_other_request:
  assumes "request_fits (echo_request i a)" and "request_fits (echo_request j b)" and "i \<noteq> 0" and "j \<noteq> 0"
    and "b \<noteq> []" and "length b \<le> length a"
  shows "ss_out (fst (run_streams ph (\<lambda>_. 0) echo_server leak_schedule
      (map new_stream [[CallFrame (enc_request (echo_request i a))], [CallFrame (enc_request (echo_request j b))]], new_shared)) ! 0) =
      [Response_zero\<lparr>rs_RequestId := i, rs_Body := b @ drop (length b) a\<rparr>] \<and>
    answers ph echo_server [CallFrame (enc_request (echo_request i a))] = [Response_zero\<lparr>rs_RequestId := i, rs_Body := a\<rparr>]"
proof
  have a: "a \<noteq> []" using assms(5,6) by auto
  have "parse_items ph (enc_request (echo_request i a)) 0 = ([FMethod [101, 99, 104, 111], FRequestId i, FBody a], Ok ())"
    "parse_items ph (enc_request (echo_request j b)) 0 = ([FMethod [101, 99, 104, 111], FRequestId j, FBody b], Ok ())"
    using parse_request [OF assms(1), of ph] parse_request [OF assms(2), of ph] assms(3-6) a
    by (simp_all add: echo_request_def gostr_def)
  from echo_interleaved [OF this a assms(6)]
  show "ss_out (fst (run_streams ph (\<lambda>_. 0) echo_server leak_schedule
      (map new_stream [[CallFrame (enc_request (echo_request i a))], [CallFrame (enc_request (echo_request j b))]], new_shared)) ! 0) =
      [Response_zero\<lparr>rs_RequestId := i, rs_Body := b @ drop (length b) a\<rparr>]" .
  have m: "rq_Method (echo_request i a) = [101, 99, 104, 111]" by (simp add: echo_request_def gostr_def)
  obtain g where "handlers (value_server echo_server) [101, 99, 104, 111] = Some g"
    "call_handler g () (echo_request i a) = (Ok (fold (value_op (echo_request i a)) [RequestBody]
        (Response_zero\<lparr>rs_RequestId := rq_RequestId (echo_request i a)\<rparr>)), ())"
    by (rule call_value_handler [OF echo_handlers])
  moreover have "Request_UnmarshalVT ph Request_zero (enc_request (echo_request i a)) = Ok (echo_request i a)"
    using Request_UnmarshalVT_merge [OF assms(1), of ph Request_zero] by (simp add: request_merge_zero echo_request_def)
  ultimately show "answers ph echo_server [CallFrame (enc_request (echo_request i a))] = [Response_zero\<lparr>rs_RequestId := i, rs_Body := a\<rparr>]"
    by (simp add: answers_def m) (simp add: echo_request_def)
qed

theorem echo_leaks_other_request_witness:
  "ss_out (fst (run_streams ref_helpers (\<lambda>_. 0) echo_server leak_schedule
      (map new_stream [[CallFrame (enc_request (echo_request 1 [1, 2, 3]))], [CallFrame (enc_request (echo_request 2 [8, 9]))]], new_shared)) ! 0) =
      [Response_zero\<lparr>rs_RequestId := 1, rs_Body := [8, 9, 3]\<rparr>] \<and>
    answers ref_helpers echo_server [CallFrame (enc_request (echo_request 1 [1, 2, 3]))] =
      [Response_zero\<lparr>rs_RequestId := 1, rs_Body := [1, 2, 3]\<rparr>]"
proof -
  have "request_fits (echo_request 1 [1, 2, 3])" "request_fits (echo_request 2 [8, 9])"
    by (simp_all add: request_fits_def echo_request_def gostr_def enc_request_def enc_headers_def enc_opt_bytes_def
        enc_bytes_def enc_opt_varint_def enc_varint_def uvarint_def venc.simps)
  from echo_leaks_other_request [OF this, of ref_helpers] show ?thesis by simp
qed

end
