(* ===== verification/Stream_Pool.thy ===== *)
theory Stream_Pool
  imports Go_Base
begin

text \<open>
  The stream pool of \<open>stress_tester/internal/loader/loader.go\<close>: a slice of flags, one per stream,
  guarded by a mutex, with a count of those in use. \<open>Acquire\<close> takes the first free stream, or polls
  until its deadline. Since each pass of the polling loop and each \<open>Release\<close> holds the mutex, they
  are the steps of a transition system whose states also have the set of streams that are held.
\<close>

section \<open>Data and operations\<close>

record stream_pool =
  sp_streams :: "int list"
  sp_acquired :: int

definition NewStreamPool :: "int \<Rightarrow> stream_pool outcome" where
  "NewStreamPool count =
     (if count < 0 then Panic MakeSliceLen
      else Ok \<lparr>sp_streams = replicate (nat count) 0, sp_acquired = 0\<rparr>)"

text \<open>The inner loop: the first index whose flag is zero.\<close>

fun first_free :: "nat \<Rightarrow> int list \<Rightarrow> nat option" where
  "first_free i [] = None"
| "first_free i (v # vs) = (if v = 0 then Some i else first_free (Suc i) vs)"

text \<open>One pass of \<open>Acquire\<close> under the mutex.\<close>

definition acquire_pass :: "stream_pool \<Rightarrow> (nat \<times> stream_pool) option" where
  "acquire_pass sp =
     (case first_free 0 (sp_streams sp) of
        None \<Rightarrow> None
      | Some i \<Rightarrow> Some (i, sp\<lparr>sp_streams := (sp_streams sp)[i := 1], sp_acquired := sp_acquired sp + 1\<rparr>))"

text \<open>
  \<open>Acquire\<close>, over the passes of its loop: before each the other goroutines have done something to the
  pool, and after an unsuccessful one the deadline may have passed. The result is the index (or
  \<open>-1\<close> with the timeout error), or \<open>None\<close> if the loop is still polling after these passes.
\<close>

fun Acquire ::
    "((stream_pool \<Rightarrow> stream_pool) \<times> bool) list \<Rightarrow> stream_pool \<Rightarrow> ((go_error option \<times> int) option \<times> stream_pool)" where
  "Acquire [] sp = (None, sp)"
| "Acquire ((others, expired) # passes) sp =
     (case acquire_pass (others sp) of
        Some (i, sp') \<Rightarrow> (Some (None, int i), sp')
      | None \<Rightarrow>
          if expired then (Some (Some (OtherError ''stream acquire timeout''), -1), others sp)
          else Acquire passes (others sp))"

definition Release :: "int \<Rightarrow> stream_pool \<Rightarrow> stream_pool outcome" where
  "Release idx sp =
     (if idx < 0 \<or> idx \<ge> int (length (sp_streams sp)) then Panic IndexOutOfRange
      else Ok (sp\<lparr>sp_streams := (sp_streams sp)[nat idx := 0], sp_acquired := sp_acquired sp - 1\<rparr>))"

section \<open>The transition system\<close>

datatype pool_event = Acquired nat | TimedOut | Released nat

text \<open>A stream is released by who holds it.\<close>

inductive pool_step :: "stream_pool \<times> nat set \<Rightarrow> pool_event \<Rightarrow> stream_pool \<times> nat set \<Rightarrow> bool" where
  step_acquire: "acquire_pass sp = Some (i, sp') \<Longrightarrow> pool_step (sp, H) (Acquired i) (sp', insert i H)"
| step_timeout: "acquire_pass sp = None \<Longrightarrow> pool_step (sp, H) TimedOut (sp, H)"
| step_release: "i \<in> H \<Longrightarrow> Release (int i) sp = Ok sp' \<Longrightarrow> pool_step (sp, H) (Released i) (sp', H - {i})"

inductive_cases pool_stepE: "pool_step s ev s'"

inductive pool_reach :: "int \<Rightarrow> stream_pool \<times> nat set \<Rightarrow> bool" for count where
  reach_new: "NewStreamPool count = Ok sp \<Longrightarrow> pool_reach count (sp, {})"
| reach_step: "pool_reach count s \<Longrightarrow> pool_step s ev s' \<Longrightarrow> pool_reach count s'"

section \<open>Invariant\<close>

text \<open>The flags mark exactly the held streams, and the counter counts them.\<close>

definition pool_inv :: "int \<Rightarrow> stream_pool \<times> nat set \<Rightarrow> bool" where
  "pool_inv count = (\<lambda>(sp, H).
     int (length (sp_streams sp)) = count \<and> H \<subseteq> {..< length (sp_streams sp)} \<and>
     (\<forall>i < length (sp_streams sp). sp_streams sp ! i = (if i \<in> H then 1 else 0)) \<and>
     sp_acquired sp = int (card H))"

lemma first_free_Some:
  "first_free n vs = Some i \<Longrightarrow> n \<le> i \<and> i < n + length vs \<and> vs ! (i - n) = 0 \<and> (\<forall>j < i - n. vs ! j \<noteq> 0)"
proof (induction n vs rule: first_free.induct)
  case (2 n v vs)
  show ?case
  proof (cases "v = 0")
    case True
    with 2 show ?thesis by auto
  next
    case False
    with 2 have IH: "Suc n \<le> i" "i < Suc n + length vs" "vs ! (i - Suc n) = 0" "\<forall>j < i - Suc n. vs ! j \<noteq> 0" by auto
    have "i - n = Suc (i - Suc n)" using IH(1) by simp
    with IH False show ?thesis by (auto simp: less_Suc_eq_0_disj)
  qed
qed simp

lemma first_free_None: "first_free n vs = None \<longleftrightarrow> 0 \<notin> set vs"
  by (induction n vs rule: first_free.induct) auto

lemma acquire_pass_Some:
  assumes "acquire_pass sp = Some (i, sp')"
  shows "i < length (sp_streams sp)" and "sp_streams sp ! i = 0" and "\<forall>j < i. sp_streams sp ! j \<noteq> 0"
    and "sp' = sp\<lparr>sp_streams := (sp_streams sp)[i := 1], sp_acquired := sp_acquired sp + 1\<rparr>"
  using assms first_free_Some [of 0 "sp_streams sp" i]
  by (auto simp: acquire_pass_def split: option.splits)

lemma acquire_pass_None: "acquire_pass sp = None \<longleftrightarrow> (\<forall>i < length (sp_streams sp). sp_streams sp ! i \<noteq> 0)"
proof -
  have "acquire_pass sp = None \<longleftrightarrow> first_free 0 (sp_streams sp) = None"
    by (simp add: acquire_pass_def split: option.splits)
  then show ?thesis by (auto simp: first_free_None in_set_conv_nth)
qed

lemma pool_inv_new: "NewStreamPool count = Ok sp \<Longrightarrow> pool_inv count (sp, {})"
  by (auto simp: NewStreamPool_def pool_inv_def split: if_splits)

lemma pool_inv_finite: "pool_inv count (sp, H) \<Longrightarrow> finite H"
  by (auto simp: pool_inv_def intro: finite_subset)

lemma pool_inv_step:
  assumes "pool_step s ev s'" and "pool_inv count s"
  shows "pool_inv count s'"
  using assms
proof (induction rule: pool_step.induct)
  case (step_acquire sp i sp' H)
  note a = acquire_pass_Some [OF step_acquire(1)]
  have "i \<notin> H" using step_acquire(2) a(1,2) by (auto simp: pool_inv_def split: if_splits)
  with step_acquire(2) a pool_inv_finite [OF step_acquire(2)] show ?case
    by (auto simp: pool_inv_def nth_list_update)
next
  case (step_timeout sp H)
  then show ?case by simp
next
  case (step_release i H sp sp')
  have "sp' = sp\<lparr>sp_streams := (sp_streams sp)[i := 0], sp_acquired := sp_acquired sp - 1\<rparr>"
    using step_release(2) by (auto simp: Release_def split: if_splits)
  moreover have "card H = Suc (card (H - {i}))"
    using step_release(1) pool_inv_finite [OF step_release(3)] by (metis card_Suc_Diff1)
  ultimately show ?case using step_release(1,3) by (auto simp: pool_inv_def nth_list_update)
qed

lemma pool_inv_reach: "pool_reach count s \<Longrightarrow> pool_inv count s"
  by (induction rule: pool_reach.induct) (auto intro: pool_inv_new pool_inv_step)

text \<open>
  \<open>Acquire\<close> ends with one of the steps of the system, and it ends at the latest with the pass after
  which its deadline has passed.
\<close>

lemma Acquire_step:
  assumes "Acquire passes sp = (Some r, sp')"
  shows "(\<exists>i sp0. r = (None, int i) \<and> pool_step (sp0, H) (Acquired i) (sp', insert i H)) \<or>
    r = (Some (OtherError ''stream acquire timeout''), -1) \<and> pool_step (sp', H) TimedOut (sp', H)"
  using assms
  by (induction passes sp rule: Acquire.induct)
    (auto intro: pool_step.intros split: option.splits if_splits)

lemma Acquire_returns: "(\<exists>others. (others, True) \<in> set passes) \<Longrightarrow> \<exists>r. fst (Acquire passes sp) = Some r"
  by (induction passes sp rule: Acquire.induct) (auto split: option.splits)

section \<open>Properties\<close>

text \<open>
  The pool's invariant, in every state that any interleaving of acquisitions, timeouts and
  releases reaches: the flags mark exactly the streams that are held and \<open>acquired\<close> is their
  number, never more than the size of the pool. So the stream that \<open>Acquire\<close> returns is one that
  nobody holds, and the first such; it gives up only while every stream is held; and releasing a
  held stream never panics.
\<close>

theorem stream_pool_exclusive:
  assumes "pool_reach count (sp, H)"
  shows "pool_inv count (sp, H) \<and> sp_acquired sp = int (card H) \<and> int (card H) \<le> count \<and>
    (\<forall>i s'. pool_step (sp, H) (Acquired i) s' \<longrightarrow> i \<notin> H \<and> {..<i} \<subseteq> H) \<and>
    (\<forall>s'. pool_step (sp, H) TimedOut s' \<longrightarrow> int ` H = {0..<count}) \<and>
    (\<forall>i \<in> H. \<exists>sp'. Release (int i) sp = Ok sp')"
proof -
  have inv: "pool_inv count (sp, H)" by (rule pool_inv_reach [OF assms])
  then have n: "int (length (sp_streams sp)) = count" "H \<subseteq> {..< length (sp_streams sp)}"
    and flags: "\<And>i. i < length (sp_streams sp) \<Longrightarrow> sp_streams sp ! i = (if i \<in> H then 1 else 0)"
    and acq: "sp_acquired sp = int (card H)"
    by (auto simp: pool_inv_def)
  have "card H \<le> length (sp_streams sp)" using card_mono [OF _ n(2)] by simp
  moreover have "i \<notin> H \<and> {..<i} \<subseteq> H" if "pool_step (sp, H) (Acquired i) s'" for i s'
  proof -
    from that obtain sp' where "acquire_pass sp = Some (i, sp')" by (auto elim: pool_stepE)
    note a = acquire_pass_Some [OF this]
    have "j \<in> H" if "j < i" for j
      using a(1,3) flags [of j] that by (auto split: if_splits)
    with a(1,2) flags [of i] show ?thesis by (auto split: if_splits)
  qed
  moreover have "int ` H = {0..<count}" if "pool_step (sp, H) TimedOut s'" for s'
  proof -
    from that have "acquire_pass sp = None" by (auto elim: pool_stepE)
    then have "H = {..< length (sp_streams sp)}"
      using flags n(2) by (auto simp: acquire_pass_None split: if_splits)
    with n(1) show ?thesis by (auto simp: lessThan_atLeast0 image_int_atLeastLessThan)
  qed
  moreover have "\<exists>sp'. Release (int i) sp = Ok sp'" if "i \<in> H" for i
    using n(2) that by (auto simp: Release_def)
  ultimately show ?thesis using inv acq n(1) by auto
qed

theorem stream_pool_exclusive_witness:
  "\<exists>sp. pool_reach 2 (sp, {0}) \<and> sp_acquired sp = 1 \<and>
    (\<forall>i s'. pool_step (sp, {0}) (Acquired i) s' \<longrightarrow> i \<notin> {0})"
proof -
  let ?sp0 = "\<lparr>sp_streams = [0, 0], sp_acquired = 0\<rparr>" and ?sp1 = "\<lparr>sp_streams = [1, 0], sp_acquired = 1\<rparr>"
  have "pool_reach 2 (?sp0, {})" by (rule reach_new) (simp add: NewStreamPool_def numeral_2_eq_2)
  then have "pool_reach 2 (?sp1, {0})"
    by (rule reach_step [OF _ step_acquire]) (simp add: acquire_pass_def)
  with stream_pool_exclusive [OF this] show ?thesis by (intro exI [of _ ?sp1]) simp
qed

end
