(* ===== verification/Stress_Config.thy ===== *)
theory Stress_Config
  imports Go_Format
begin

text \<open>
  The configuration of the stress tester, \<open>stress_tester/internal/config/config.go\<close>: load
  configurations, network profiles and the default tables. Fractions are \<open>float64\<close> values (the
  literal \<open>0.1\<close> is the binary fraction next to it).
  Durations are nanoseconds. Reading profiles from a JSON file is not modelled; the merge of what
  was read with the defaults is.
\<close>

type_synonym duration = int

definition Second :: duration where
  "Second = 10 ^ 9"

definition Millisecond :: duration where
  "Millisecond = 10 ^ 6"

section \<open>Data\<close>

definition WorkloadFixed :: string where "WorkloadFixed = ''fixed''"
definition WorkloadRandom :: string where "WorkloadRandom = ''random''"
definition WorkloadMixed :: string where "WorkloadMixed = ''mixed''"

record load_config =
  lc_Workers :: int
  lc_Pipelining :: int
  lc_Streams :: int
  lc_Connections :: int
  lc_Workload :: string
  lc_PayloadSize :: int
  lc_MinPayload :: int
  lc_MaxPayload :: int
  lc_Duration :: duration
  lc_Warmup :: duration
  lc_Method :: string
  lc_System :: string
  lc_RetryAttempts :: int
  lc_RetryDelay :: duration

definition load_config_zero :: load_config where
  "load_config_zero = \<lparr>lc_Workers = 0, lc_Pipelining = 0, lc_Streams = 0, lc_Connections = 0,
     lc_Workload = [], lc_PayloadSize = 0, lc_MinPayload = 0, lc_MaxPayload = 0, lc_Duration = 0,
     lc_Warmup = 0, lc_Method = [], lc_System = [], lc_RetryAttempts = 0, lc_RetryDelay = 0\<rparr>"

record network_profile =
  np_Name :: string
  np_Description :: string
  np_Delay :: string
  np_Jitter :: string
  np_Loss :: float64
  np_Rate :: string
  np_Correlation :: float64

section \<open>The default tables\<close>

definition DefaultProfiles :: "(string \<times> network_profile) list" where
  "DefaultProfiles =
    [(''clean'', \<lparr>np_Name = ''clean'',
        np_Description = ''Clean network with minimal latency, zero loss'',
        np_Delay = ''1ms'', np_Jitter = ''0ms'', np_Loss = 0, np_Rate = ''1000mbit'', np_Correlation = 0\<rparr>),
     (''wifi'', \<lparr>np_Name = ''wifi'',
        np_Description = ''Typical WiFi: low latency, near-zero loss'',
        np_Delay = ''5ms'', np_Jitter = ''2ms'', np_Loss = 3602879701896397 / 36028797018963968,
        np_Rate = ''100mbit'', np_Correlation = 0\<rparr>),
     (''lte'', \<lparr>np_Name = ''lte'',
        np_Description = ''4G LTE: moderate latency, low loss'',
        np_Delay = ''30ms'', np_Jitter = ''10ms'', np_Loss = 1, np_Rate = ''50mbit'', np_Correlation = 0\<rparr>),
     (''bad_lte'', \<lparr>np_Name = ''bad_lte'',
        np_Description = ''Bad 4G LTE: high latency, moderate loss'',
        np_Delay = ''60ms'', np_Jitter = ''20ms'', np_Loss = 5, np_Rate = ''10mbit'', np_Correlation = 0\<rparr>),
     (''extreme'', \<lparr>np_Name = ''extreme'',
        np_Description = ''Extreme: very high latency, heavy loss'',
        np_Delay = ''150ms'', np_Jitter = ''50ms'', np_Loss = 10, np_Rate = ''5mbit'', np_Correlation = 0\<rparr>),
     (''super_extreme'', \<lparr>np_Name = ''super_extreme'',
        np_Description = ''Super Extreme: Super very high latency, heavy loss'',
        np_Delay = ''200ms'', np_Jitter = ''75ms'', np_Loss = 15, np_Rate = ''3mbit'', np_Correlation = 0\<rparr>),
     (''hell_network'', \<lparr>np_Name = ''hell_network'',
        np_Description = ''Hell network: Extremly high latency, ultra heavy loss'',
        np_Delay = ''300ms'', np_Jitter = ''100ms'', np_Loss = 30, np_Rate = ''2mbit'', np_Correlation = 0\<rparr>),
     (''no_network'', \<lparr>np_Name = ''no_network'',
        np_Description = ''No network: Ultra Extremly high latency, ultra extremly heavy loss'',
        np_Delay = ''500ms'', np_Jitter = ''200ms'', np_Loss = 50, np_Rate = ''1mbit'', np_Correlation = 0\<rparr>),
     (''high_loss'', \<lparr>np_Name = ''high_loss'',
        np_Description = ''High loss: Moderate latency, 70% loss'',
        np_Delay = ''20ms'', np_Jitter = ''2ms'', np_Loss = 70, np_Rate = ''5mbit'', np_Correlation = 0\<rparr>),
     (''heavy_high_loss'', \<lparr>np_Name = ''heavy_high_loss'',
        np_Description = ''Heavy high loss: Moderate latency, 85% loss'',
        np_Delay = ''20ms'', np_Jitter = ''2ms'', np_Loss = 85, np_Rate = ''5mbit'', np_Correlation = 0\<rparr>)]"

record scenario =
  sc_Description :: string
  sc_LoadConfig :: load_config
  sc_Profiles :: "string list"

definition DefaultScenarios :: "(string \<times> scenario) list" where
  "DefaultScenarios =
    [(''baseline_latency'',
      \<lparr>sc_Description = ''Single worker, single stream, fixed 1KB payload '' @ em_dash @ '' measures pure RPC latency'',
       sc_LoadConfig = load_config_zero\<lparr>lc_Workers := 1, lc_Pipelining := 1, lc_Streams := 1, lc_Connections := 1,
         lc_Workload := WorkloadFixed, lc_PayloadSize := 1024,
         lc_Duration := 10 * Second, lc_Warmup := 2 * Second, lc_Method := ''echo''\<rparr>,
       sc_Profiles = [''clean'', ''wifi'', ''lte'']\<rparr>),
     (''concurrency_stress'',
      \<lparr>sc_Description = ''50-200 workers, limited streams, variable payload '' @ em_dash @ '' concurrency behavior'',
       sc_LoadConfig = load_config_zero\<lparr>lc_Workers := 100, lc_Pipelining := 1, lc_Streams := 32, lc_Connections := 1,
         lc_Workload := WorkloadRandom, lc_MinPayload := 1024, lc_MaxPayload := 32 * 1024,
         lc_Duration := 30 * Second, lc_Warmup := 3 * Second, lc_Method := ''echo''\<rparr>,
       sc_Profiles = [''clean'', ''wifi'', ''lte'', ''bad_lte'']\<rparr>),
     (''multiplex_stress'',
      \<lparr>sc_Description = ''Large upload + small RPCs concurrently '' @ em_dash @ '' checks HOL blocking'',
       sc_LoadConfig = load_config_zero\<lparr>lc_Workers := 50, lc_Pipelining := 1, lc_Streams := 64, lc_Connections := 1,
         lc_Workload := WorkloadMixed, lc_MinPayload := 1024, lc_MaxPayload := 1024,
         lc_Duration := 30 * Second, lc_Warmup := 3 * Second, lc_Method := ''echo''\<rparr>,
       sc_Profiles = [''clean'', ''lte'', ''bad_lte'']\<rparr>),
     (''loss_sensitivity'',
      \<lparr>sc_Description = ''Concurrency stress repeated at different packet loss levels (0%-10%)'',
       sc_LoadConfig = load_config_zero\<lparr>lc_Workers := 100, lc_Pipelining := 1, lc_Streams := 32, lc_Connections := 1,
         lc_Workload := WorkloadRandom, lc_MinPayload := 1024, lc_MaxPayload := 16 * 1024,
         lc_Duration := 20 * Second, lc_Warmup := 3 * Second, lc_Method := ''echo''\<rparr>,
       sc_Profiles = [''clean'', ''wifi'', ''lte'', ''bad_lte'', ''extreme'']\<rparr>),
     (''rtt_scaling'',
      \<lparr>sc_Description = ''Fixed load at increasing RTT (10ms-200ms) to measure latency degradation slope'',
       sc_LoadConfig = load_config_zero\<lparr>lc_Workers := 50, lc_Pipelining := 1, lc_Streams := 16, lc_Connections := 1,
         lc_Workload := WorkloadFixed, lc_PayloadSize := 1024,
         lc_Duration := 15 * Second, lc_Warmup := 2 * Second, lc_Method := ''echo''\<rparr>,
       sc_Profiles = [''clean'', ''wifi'', ''lte'', ''bad_lte'', ''extreme'']\<rparr>)]"

section \<open>Loading profiles\<close>

text \<open>
  \<open>LoadProfiles\<close> on the result of reading the file (an error, which may say that there is no such
  file, or its bytes) and of decoding it (an error, or the map, which is nil for the JSON value
  \<open>null\<close>): the defaults fill the gaps, and assigning to a nil map panics.
\<close>

definition LoadProfiles ::
    "(go_error \<Rightarrow> bool) \<Rightarrow> (bytes \<Rightarrow> go_error + (string \<rightharpoonup> network_profile) option) \<Rightarrow> go_error + bytes \<Rightarrow>
     (string \<rightharpoonup> network_profile) outcome" where
  "LoadProfiles IsNotExist Unmarshal file =
     (case file of
        Inl err \<Rightarrow> if IsNotExist err then Ok (map_of DefaultProfiles) else Err err
      | Inr data \<Rightarrow>
          (case Unmarshal data of
             Inl err \<Rightarrow> Err err
           | Inr None \<Rightarrow> Panic NilDereference
           | Inr (Some profiles) \<Rightarrow>
               Ok (\<lambda>k. case profiles k of Some v \<Rightarrow> Some v | None \<Rightarrow> map_of DefaultProfiles k)))"

text \<open>
  \<open>ProfileNames\<close>, on the entries in the order in which the runtime hands them out.
\<close>

fun ProfileNames :: "(string \<times> network_profile) list \<Rightarrow> string list \<Rightarrow> string list" where
  "ProfileNames [] names = names"
| "ProfileNames ((name, _) # profiles) names = ProfileNames profiles (names @ [name])"

text \<open>The configuration of one benchmark; the two last fields are pointers.\<close>

record bench_config =
  bc_ServerAddr :: string
  bc_System :: string
  bc_Profile :: string
  bc_Scenario :: string
  bc_Interface :: string
  bc_OutputDir :: string
  bc_SaveRaw :: bool
  bc_LoadConfig :: "load_config option"
  bc_ProfileConf :: "network_profile option"

section \<open>Lemmas\<close>

lemma ProfileNames_append: "ProfileNames profiles names = names @ map fst profiles"
  by (induction profiles names rule: ProfileNames.induct) auto

text \<open>Whatever the order, each profile is named once.\<close>

lemma ProfileNames_lookup:
  assumes "distinct (map fst profiles)" and "map_of profiles = m"
  shows "set (ProfileNames profiles []) = dom m" and "distinct (ProfileNames profiles [])"
    and "length (ProfileNames profiles []) = card (dom m)"
  using assms distinct_card [of "map fst profiles"] by (force simp: ProfileNames_append dom_map_of_conv_image_fst)+

text \<open>A profile of the file is kept, and a default profile that the file lacks is added.\<close>

lemma LoadProfiles_lookup:
  assumes "LoadProfiles IsNotExist Unmarshal (Inr data) = Ok m" and "Unmarshal data = Inr (Some profiles)"
  shows "m = map_of DefaultProfiles ++ profiles"
  using assms by (auto simp: LoadProfiles_def map_add_def)

lemma lookup_scenario_profiles:
  assumes "map_of DefaultScenarios n = Some sc" and "p \<in> set (sc_Profiles sc)"
  shows "\<exists>np. map_of DefaultProfiles p = Some np"
  using assms unfolding DefaultScenarios_def DefaultProfiles_def
  by (auto split: if_splits)

end
