(* ===== verification/Metrics_Collector.thy ===== *)
theory Metrics_Collector
  imports Stress_Config "HOL-Library.Signed_Division"
begin

text \<open>
  The collector of the stress tester, \<open>stress_tester/internal/metrics/collector.go\<close>: recording
  samples and summing them up. Durations are 64-bit integers, and their sum wraps; latencies,
  percentiles and rates are \<open>float64\<close> values with the rounding of \<open>Go_Float\<close>. The time stamp of a
  report and the files written are not modelled, but their names are.
\<close>

section \<open>Data\<close>

record sample =
  sa_Start :: int
  sa_Duration :: duration
  sa_QueueTime :: duration
  sa_NetworkTime :: duration
  sa_Success :: bool
  sa_Error :: string
  sa_PayloadSize :: int
  sa_WorkerID :: int

record report =
  rp_Scenario :: string
  rp_Profile :: string
  rp_System :: string
  rp_LoadConfig :: load_config
  rp_TotalRequests :: int
  rp_SuccessCount :: int
  rp_ErrorCount :: int
  rp_SuccessRate :: float64
  rp_RPS :: float64
  rp_AvgLatency :: duration
  rp_MinLatency :: duration
  rp_MaxLatency :: duration
  rp_P50 :: duration
  rp_P90 :: duration
  rp_P95 :: duration
  rp_P99 :: duration
  rp_P999 :: duration
  rp_LatencyDist :: "string \<rightharpoonup> int"
  rp_Elapsed :: duration
  rp_RawSamples :: "sample list"

record collector =
  co_samples :: "sample list"
  co_started :: int
  co_elapsed :: duration

section \<open>Operations\<close>

definition NewCollector :: collector where
  "NewCollector = \<lparr>co_samples = [], co_started = 0, co_elapsed = 0\<rparr>"

definition Record :: "sample \<Rightarrow> collector \<Rightarrow> collector" where
  "Record s c = c\<lparr>co_samples := co_samples c @ [s]\<rparr>"

definition StartTimer :: "int \<Rightarrow> collector \<Rightarrow> collector" where
  "StartTimer now c = c\<lparr>co_started := now\<rparr>"

definition StopTimer :: "int \<Rightarrow> collector \<Rightarrow> collector" where
  "StopTimer now c = c\<lparr>co_elapsed := now - co_started c\<rparr>"

definition Elapsed :: "collector \<Rightarrow> duration" where
  "Elapsed c = co_elapsed c"

text \<open>An \<open>int64\<close> that wraps.\<close>

definition wrap64 :: "int \<Rightarrow> int" where
  "wrap64 x = (x + 2 ^ 63) mod 2 ^ 64 - 2 ^ 63"

text \<open>The loop over the samples.\<close>

record totals =
  successCount :: int
  errorCount :: int
  totalLatency :: duration
  minLatency :: duration
  maxLatency :: duration
  latencies :: "float64 list"

definition totals_start :: totals where
  "totals_start = \<lparr>successCount = 0, errorCount = 0, totalLatency = 0, minLatency = 2 ^ 63 - 1,
     maxLatency = 0, latencies = []\<rparr>"

definition totals_step :: "sample \<Rightarrow> totals \<Rightarrow> totals" where
  "totals_step s t =
     (if sa_Success s then
        t\<lparr>successCount := successCount t + 1,
          totalLatency := wrap64 (totalLatency t + sa_Duration s),
          minLatency := (if sa_Duration s < minLatency t then sa_Duration s else minLatency t),
          maxLatency := (if sa_Duration s > maxLatency t then sa_Duration s else maxLatency t),
          latencies := latencies t @ [fl (of_int (sa_Duration s))]\<rparr>
      else t\<lparr>errorCount := errorCount t + 1\<rparr>)"

text \<open>
  \<open>percentile\<close> of a sorted slice; the index is in range, as \<open>percentile_index\<close> shows for every slice
  with at most \<open>2 ^ 53\<close> elements, which fills the address space.
\<close>

definition percentile_idx :: "nat \<Rightarrow> float64 \<Rightarrow> float64" where
  "percentile_idx n p = fl (fl (p / 100) * fl (of_int (int n - 1)))"

definition percentile :: "float64 list \<Rightarrow> float64 \<Rightarrow> float64" where
  "percentile xs p =
     (if length xs = 0 then 0
      else if p \<le> 0 then xs ! 0
      else if p \<ge> 100 then xs ! (length xs - 1)
      else
        let idx = percentile_idx (length xs) p;
            i = int_of_float idx;
            frac = fl (idx - fl (of_int i))
        in if i + 1 < int (length xs)
           then fl (xs ! nat i + fl (frac * fl (xs ! nat (i + 1) - xs ! nat i)))
           else xs ! nat i)"

text \<open>The buckets with their limits.\<close>

definition MaxFloat64 :: float64 where
  "MaxFloat64 = (2 ^ 53 - 1) * 2 ^ 971"

definition buckets :: "(string \<times> float64) list" where
  "buckets =
    [(''<1ms'', of_int Millisecond), (''1-5ms'', of_int (5 * Millisecond)),
     (''5-10ms'', of_int (10 * Millisecond)), (''10-25ms'', of_int (25 * Millisecond)),
     (''25-50ms'', of_int (50 * Millisecond)), (''50-100ms'', of_int (100 * Millisecond)),
     (''100-250ms'', of_int (250 * Millisecond)), (''250-500ms'', of_int (500 * Millisecond)),
     (''500ms-1s'', of_int Second), (''1-2s'', of_int (2 * Second)), (''2-5s'', of_int (5 * Second)),
     (''>5s'', MaxFloat64)]"

fun find_bucket :: "(string \<times> float64) list \<Rightarrow> float64 \<Rightarrow> string option" where
  "find_bucket [] l = None"
| "find_bucket ((name, limit) # bs) l = (if l < limit then Some name else find_bucket bs l)"

definition dist_add :: "float64 \<Rightarrow> (string \<rightharpoonup> int) \<Rightarrow> string \<rightharpoonup> int" where
  "dist_add l counts =
     (case find_bucket buckets l of
        None \<Rightarrow> counts
      | Some name \<Rightarrow> counts(name \<mapsto> (case counts name of None \<Rightarrow> 0 | Some n \<Rightarrow> n) + 1))"

definition buildDistribution :: "float64 list \<Rightarrow> string \<rightharpoonup> int" where
  "buildDistribution lats = fold dist_add lats Map.empty"

text \<open>\<open>Duration.Seconds\<close>: the whole seconds, and the rest divided by \<open>1e9\<close>.\<close>

definition Seconds :: "duration \<Rightarrow> float64" where
  "Seconds d = fl (fl (of_int (d sdiv Second)) + fl (fl (of_int (d smod Second)) / 10 ^ 9))"

definition Report ::
    "string \<Rightarrow> string \<Rightarrow> string \<Rightarrow> load_config \<Rightarrow> bool \<Rightarrow> collector \<Rightarrow> report" where
  "Report scen prof system lc saveRaw c =
     (let samples = co_samples c; elapsed = co_elapsed c;
          r = \<lparr>rp_Scenario = scen, rp_Profile = prof, rp_System = system, rp_LoadConfig = load_config_zero,
               rp_TotalRequests = 0, rp_SuccessCount = 0, rp_ErrorCount = 0, rp_SuccessRate = 0, rp_RPS = 0,
               rp_AvgLatency = 0, rp_MinLatency = 0, rp_MaxLatency = 0,
               rp_P50 = 0, rp_P90 = 0, rp_P95 = 0, rp_P99 = 0, rp_P999 = 0,
               rp_LatencyDist = Map.empty, rp_Elapsed = elapsed, rp_RawSamples = []\<rparr>
      in if length samples = 0 then r
         else
           let t = fold totals_step samples totals_start;
               lats = sort (latencies t);
               r = r\<lparr>rp_LoadConfig := lc, rp_TotalRequests := int (length samples),
                     rp_SuccessCount := successCount t, rp_ErrorCount := errorCount t\<rparr>;
               r = (if length samples > 0
                    then r\<lparr>rp_SuccessRate :=
                             fl (fl (fl (of_int (successCount t)) / fl (of_int (int (length samples)))) * 100)\<rparr>
                    else r);
               r = (if elapsed > 0
                    then r\<lparr>rp_RPS := fl (fl (of_int (successCount t)) / Seconds elapsed)\<rparr>
                    else r);
               r = (if length lats > 0
                    then r\<lparr>rp_AvgLatency := totalLatency t sdiv int (length lats),
                           rp_MinLatency := minLatency t, rp_MaxLatency := maxLatency t,
                           rp_P50 := int_of_float (percentile lats 50),
                           rp_P90 := int_of_float (percentile lats 90),
                           rp_P95 := int_of_float (percentile lats 95),
                           rp_P99 := int_of_float (percentile lats 99),
                           rp_P999 := int_of_float (percentile lats (fl (999 / 10)))\<rparr>
                    else r);
               r = r\<lparr>rp_LatencyDist := buildDistribution lats\<rparr>
           in if saveRaw then r\<lparr>rp_RawSamples := samples\<rparr> else r)"

text \<open>
  The names, in the output directory, of the files that \<open>SaveJSON\<close> and \<open>SaveCSV\<close> write; only the
  first leaves out the system when it is empty.
\<close>

definition json_filename :: "string \<Rightarrow> report \<Rightarrow> string" where
  "json_filename prefix r =
     (let sys = (if rp_System r \<noteq> [] then ''_'' @ rp_System r else rp_System r)
      in prefix @ ''_'' @ rp_Scenario r @ ''_'' @ rp_Profile r @ sys @
         ''_conn'' @ Itoa (lc_Connections (rp_LoadConfig r)) @
         ''_pay'' @ Itoa (lc_PayloadSize (rp_LoadConfig r)) @ ''.json'')"

definition csv_filename :: "string \<Rightarrow> report \<Rightarrow> string" where
  "csv_filename prefix r =
     prefix @ ''_'' @ rp_Scenario r @ ''_'' @ rp_Profile r @ ''_'' @ rp_System r @
     ''_conn'' @ Itoa (lc_Connections (rp_LoadConfig r)) @
     ''_pay'' @ Itoa (lc_PayloadSize (rp_LoadConfig r)) @ ''.csv''"

section \<open>Lemmas\<close>

abbreviation durations :: "sample list \<Rightarrow> duration list" where
  "durations ss \<equiv> map sa_Duration (filter sa_Success ss)"

lemma wrap64_id: "- (2 ^ 63) \<le> x \<Longrightarrow> x < 2 ^ 63 \<Longrightarrow> wrap64 x = x"
  by (simp add: wrap64_def)

lemma totals_counts:
  "successCount (fold totals_step ss t) = successCount t + int (length (filter sa_Success ss)) \<and>
   errorCount (fold totals_step ss t) = errorCount t + int (length (filter (\<lambda>s. \<not> sa_Success s) ss)) \<and>
   latencies (fold totals_step ss t) = latencies t @ map (\<lambda>d. fl (of_int d)) (durations ss)"
  by (induction ss arbitrary: t) (simp_all add: totals_step_def)

lemma totals_min_max:
  "minLatency (fold totals_step ss t) = fold min (durations ss) (minLatency t) \<and>
   maxLatency (fold totals_step ss t) = fold max (durations ss) (maxLatency t)"
  by (induction ss arbitrary: t) (auto simp: totals_step_def min.commute max.commute min_def max_def)

lemma totals_sum:
  assumes "0 \<le> totalLatency t" and "\<forall>d \<in> set (durations ss). 0 \<le> d"
    and "totalLatency t + sum_list (durations ss) < 2 ^ 63"
  shows "totalLatency (fold totals_step ss t) = totalLatency t + sum_list (durations ss)"
  using assms
proof (induction ss arbitrary: t)
  case (Cons s ss)
  show ?case
  proof (cases "sa_Success s")
    case True
    have "0 \<le> sum_list (durations ss)" using Cons.prems(2) by (intro sum_list_nonneg) auto
    then have "wrap64 (totalLatency t + sa_Duration s) = totalLatency t + sa_Duration s"
      using Cons.prems True by (intro wrap64_id) auto
    with Cons.IH [of "totals_step s t"] Cons.prems True show ?thesis by (simp add: totals_step_def)
  next
    case False
    with Cons.IH [of "totals_step s t"] Cons.prems show ?thesis by (simp add: totals_step_def)
  qed
qed simp

text \<open>The number of latencies in a bucket, a missing entry being zero as in Go.\<close>

definition bucket_count :: "(string \<rightharpoonup> int) \<Rightarrow> string \<Rightarrow> int" where
  "bucket_count m name = (case m name of None \<Rightarrow> 0 | Some n \<Rightarrow> n)"

lemma bucket_count_fold:
  "bucket_count (fold dist_add ls m) name =
     bucket_count m name + int (length (filter (\<lambda>l. find_bucket buckets l = Some name) ls))"
proof (induction ls arbitrary: m)
  case (Cons l ls)
  have "bucket_count (dist_add l m) name =
      bucket_count m name + (if find_bucket buckets l = Some name then 1 else 0)"
    by (auto simp: dist_add_def bucket_count_def split: option.splits)
  with Cons.IH show ?case by simp
qed simp

lemma bucket_count_buildDistribution:
  "bucket_count (buildDistribution (sort ls)) name =
     int (length (filter (\<lambda>l. find_bucket buckets l = Some name) ls))"
proof -
  have "length (filter P (sort ls)) = length (filter P ls)" for P
    by (metis filter_sort length_sort)
  then show ?thesis
    using bucket_count_fold [of "sort ls" Map.empty name]
    by (simp add: buildDistribution_def bucket_count_def)
qed

text \<open>The ranges of the latencies that the names of the buckets promise.\<close>

definition bucket_ranges :: "(string \<times> duration \<times> duration) list" where
  "bucket_ranges =
    [(''<1ms'', 0, Millisecond), (''1-5ms'', Millisecond, 5 * Millisecond),
     (''5-10ms'', 5 * Millisecond, 10 * Millisecond), (''10-25ms'', 10 * Millisecond, 25 * Millisecond),
     (''25-50ms'', 25 * Millisecond, 50 * Millisecond), (''50-100ms'', 50 * Millisecond, 100 * Millisecond),
     (''100-250ms'', 100 * Millisecond, 250 * Millisecond), (''250-500ms'', 250 * Millisecond, 500 * Millisecond),
     (''500ms-1s'', 500 * Millisecond, Second), (''1-2s'', Second, 2 * Second), (''2-5s'', 2 * Second, 5 * Second),
     (''>5s'', 5 * Second, 2 ^ 63)]"

lemma below_MaxFloat64:
  assumes "0 \<le> d" and "d < 2 ^ 63"
  shows "fl (of_int d) < MaxFloat64"
proof -
  have "fl (of_int d) \<le> fl (2 powi 63)"
    using assms by (intro fl_mono) (simp_all add: of_int_less_numeral_power_cancel_iff less_imp_le)
  also have "fl (2 powi 63) = 2 powi 63" by code_simp
  also have "\<dots> < MaxFloat64" by (simp add: MaxFloat64_def)
  finally show ?thesis .
qed

text \<open>Ranges that follow one another from \<open>lo\<close> on.\<close>

fun chained :: "duration \<Rightarrow> (string \<times> duration \<times> duration) list \<Rightarrow> bool" where
  "chained lo [] \<longleftrightarrow> True"
| "chained lo ((n, l, h) # rs) \<longleftrightarrow> l = lo \<and> l \<le> h \<and> n \<notin> fst ` set rs \<and> chained h rs"

lemma chained_bounds: "chained lo rs \<Longrightarrow> (n, l, h) \<in> set rs \<Longrightarrow> lo \<le> l"
  by (induction lo rs rule: chained.induct) fastforce+

lemma find_bucket_name: "find_bucket bs x = Some n \<Longrightarrow> n \<in> fst ` set bs"
  by (induction bs x rule: find_bucket.induct) (auto split: if_splits)

lemma find_bucket_chained:
  assumes "chained lo rs" and "lo \<le> d" and "\<forall>b \<in> set rs. x < bound (snd (snd b)) \<longleftrightarrow> d < snd (snd b)"
    and "(name, l, h) \<in> set rs"
  shows "find_bucket (map (\<lambda>b. (fst b, bound (snd (snd b)))) rs) x = Some name \<longleftrightarrow> l \<le> d \<and> d < h"
  using assms
proof (induction lo rs rule: chained.induct)
  case (2 lo n l0 h0 rs)
  let ?bs = "map (\<lambda>b. (fst b, bound (snd (snd b)))) rs"
  have names: "fst ` set ?bs = fst ` set rs" by force
  show ?case
  proof (cases "d < h0")
    case True
    with 2 chained_bounds [of h0 rs name l h] show ?thesis by force
  next
    case False
    show ?thesis
    proof (cases "(name, l, h) \<in> set rs")
      case True
      with 2 False show ?thesis by simp
    next
      case 3: False
      with 2 False have "name = n" "h = h0" by auto
      with 2 False find_bucket_name [of ?bs x name] names show ?thesis by auto
    qed
  qed
qed simp

definition bucket_limit :: "duration \<Rightarrow> float64" where
  "bucket_limit h = (if h = 2 ^ 63 then MaxFloat64 else of_int h)"

lemma buckets_ranges: "buckets = map (\<lambda>b. (fst b, bucket_limit (snd (snd b)))) bucket_ranges"
  by (simp add: buckets_def bucket_ranges_def bucket_limit_def Millisecond_def Second_def)

lemma find_bucket_range:
  assumes "0 \<le> d" and "d < 2 ^ 63" and "(name, lo, hi) \<in> set bucket_ranges"
  shows "find_bucket buckets (fl (of_int d)) = Some name \<longleftrightarrow> lo \<le> d \<and> d < hi"
  unfolding buckets_ranges
proof (rule find_bucket_chained [OF _ assms(1) _ assms(3)])
  show "chained 0 bucket_ranges"
    by (simp add: bucket_ranges_def Millisecond_def Second_def)
  have limits: "\<forall>b \<in> set bucket_ranges. snd (snd b) = 2 ^ 63 \<or> 0 \<le> snd (snd b) \<and> snd (snd b) \<le> 2 ^ 53"
    by (simp add: bucket_ranges_def Millisecond_def Second_def)
  have "fl (of_int d) < bucket_limit h \<longleftrightarrow> d < h" if "h = 2 ^ 63 \<or> 0 \<le> h \<and> h \<le> 2 ^ 53" for h
    using that ieee.less_iff [OF assms(1), of h] below_MaxFloat64 [OF assms(1,2)] assms(2)
    by (auto simp: bucket_limit_def)
  with limits show "\<forall>b \<in> set bucket_ranges. fl (of_int d) < bucket_limit (snd (snd b)) \<longleftrightarrow> d < snd (snd b)" by blast
qed

lemma find_bucket_total:
  assumes "0 \<le> d" and "d < 2 ^ 63"
  shows "\<exists>name \<in> fst ` set bucket_ranges. find_bucket buckets (fl (of_int d)) = Some name"
proof -
  have "\<exists>name. find_bucket bs x = Some name" if "(n, m) \<in> set bs" "x < m" for bs n m x
    using that by (induction bs x rule: find_bucket.induct) auto
  moreover have "(''>5s'', MaxFloat64) \<in> set buckets" by (simp add: buckets_def)
  ultimately obtain name where "find_bucket buckets (fl (of_int d)) = Some name"
    using below_MaxFloat64 [OF assms] by blast
  then show ?thesis using find_bucket_name unfolding buckets_ranges by force
qed

lemma partition_lengths:
  assumes "finite A" and "\<And>x. x \<in> set xs \<Longrightarrow> \<exists>a \<in> A. f x = Some a"
  shows "(\<Sum>a \<in> A. int (length (filter (\<lambda>x. f x = Some a) xs))) = int (length xs)"
  using assms(2)
proof (induction xs)
  case (Cons x xs)
  obtain b where b: "b \<in> A" "f x = Some b" using Cons.prems by auto
  have "int (length (filter (\<lambda>y. f y = Some a) (x # xs))) =
      (if b = a then 1 else 0) + int (length (filter (\<lambda>y. f y = Some a) xs))" for a
    using b by simp
  then show ?case using Cons.IH Cons.prems b(1) assms(1) by (simp add: sum.distrib)
qed simp

lemma fold_min_Min: "fold min ds (m :: int) = Min (insert m (set ds))"
  by (metis Min.set_eq_fold list.simps(15))

lemma fold_max_Max: "fold max ds (m :: int) = Max (insert m (set ds))"
  by (metis Max.set_eq_fold list.simps(15))

lemma average_bounds:
  assumes "xs \<noteq> []" and "\<forall>x \<in> set xs. (0 :: int) \<le> x"
  shows "Min (set xs) \<le> sum_list xs div int (length xs)" and "sum_list xs div int (length xs) \<le> Max (set xs)"
proof -
  have n: "0 < int (length xs)" using assms(1) by simp
  have "Min (set xs) * int (length xs) \<le> sum_list xs"
    using sum_list_mono [of xs "\<lambda>_. Min (set xs)" id] by (simp add: sum_list_triv mult.commute)
  with n show "Min (set xs) \<le> sum_list xs div int (length xs)"
    by (metis nonzero_mult_div_cancel_right order_less_irrefl zdiv_mono1)
  have "sum_list xs \<le> Max (set xs) * int (length xs)"
    using sum_list_mono [of xs id "\<lambda>_. Max (set xs)"] by (simp add: sum_list_triv mult.commute)
  with n show "sum_list xs div int (length xs) \<le> Max (set xs)"
    by (metis nonzero_mult_div_cancel_right order_less_irrefl zdiv_mono1)
qed

lemma extremes:
  assumes "ds \<noteq> []" and "\<forall>d \<in> set ds. 0 \<le> d \<and> d < 2 ^ 63"
  shows "fold min ds (2 ^ 63 - 1) = Min (set ds)" and "fold max ds (0 :: int) = Max (set ds)"
proof -
  have "Min (set ds) \<in> set ds" "Max (set ds) \<in> set ds" using assms(1) by simp_all
  with assms(2) have "Min (set ds) < 2 ^ 63" "0 \<le> Max (set ds)" by blast+
  then show "fold min ds (2 ^ 63 - 1) = Min (set ds)" "fold max ds (0 :: int) = Max (set ds)"
    using assms(1) by (simp_all add: fold_min_Min fold_max_Max min_absorb2 max_absorb2)
qed

lemma Report_fields:
  "rp_SuccessCount (Report scen prof system lc raw c) = int (length (filter sa_Success (co_samples c)))"
  "rp_Scenario (Report scen prof system lc raw c) = scen" "rp_Profile (Report scen prof system lc raw c) = prof"
  using totals_counts [of "co_samples c" totals_start]
  by (simp_all add: Report_def Let_def totals_start_def)

text \<open>The index of a percentile, its bounds and its growth with the percentage.\<close>

lemma percentile_idx_bounds:
  assumes "0 \<le> p" and "p \<le> 100" and "0 < n" and "int n \<le> 2 ^ 53"
  shows "0 \<le> percentile_idx n p" and "percentile_idx n p \<le> of_int (int n - 1)"
proof -
  have n: "fl (of_int (int n - 1)) = of_int (int n - 1)" "0 \<le> int n - 1"
    using assms by (simp_all only: fl_of_int)
  have q: "0 \<le> fl (p / 100)" "fl (p / 100) \<le> 1"
    using assms by (simp_all add: fl_nonneg ieee.le_one)
  then have pos: "0 \<le> fl (p / 100) * of_int (int n - 1)" using n(2) by (intro mult_nonneg_nonneg) simp_all
  then show "0 \<le> percentile_idx n p" unfolding percentile_idx_def n(1) by (rule fl_nonneg)
  have "fl (p / 100) * of_int (int n - 1) \<le> of_int (int n - 1)"
    using q n(2) by (intro mult_left_le_one_le) simp_all
  then show "percentile_idx n p \<le> of_int (int n - 1)"
    unfolding percentile_idx_def n(1) using pos assms(4) by (intro ieee.le_int) simp_all
qed

lemma percentile_idx_mono:
  assumes "0 \<le> p" and "p \<le> q" and "0 < n" and "int n \<le> 2 ^ 53"
  shows "percentile_idx n p \<le> percentile_idx n q"
  unfolding percentile_idx_def using assms
  by (intro fl_mono mult_right_mono mult_nonneg_nonneg fl_nonneg divide_right_mono) simp_all

lemma int_of_float_nonneg: "0 \<le> x \<Longrightarrow> int_of_float x = \<lfloor>x\<rfloor>"
  by (simp add: int_of_float_def)

lemma percentile_index:
  assumes "0 \<le> p" and "p \<le> 100" and "0 < n" and "int n \<le> 2 ^ 53"
  defines "i \<equiv> int_of_float (percentile_idx n p)"
  shows "0 \<le> i" and "i < int n" and "0 \<le> percentile_idx n p - of_int i" and "percentile_idx n p - of_int i < 1"
    and "fl (of_int i) = of_int i"
proof -
  note b = percentile_idx_bounds [OF assms(1-4)]
  have i: "i = \<lfloor>percentile_idx n p\<rfloor>" using b(1) by (simp add: i_def int_of_float_nonneg)
  show i0: "0 \<le> i" using b(1) by (simp add: i)
  have "i \<le> int n - 1" using floor_mono [OF b(2)] unfolding i by (simp only: floor_of_int)
  then show "i < int n" by simp
  with i0 assms(4) show "fl (of_int i) = of_int i" by (intro fl_of_int) simp
  show "0 \<le> percentile_idx n p - of_int i" "percentile_idx n p - of_int i < 1"
    unfolding i by linarith+
qed

text \<open>On integers the percentile interpolates between two neighbours.\<close>

abbreviation rats :: "int list \<Rightarrow> float64 list" where
  "rats ds \<equiv> map of_int ds"

definition latencies_ok :: "duration list \<Rightarrow> bool" where
  "latencies_ok ds \<longleftrightarrow> ds \<noteq> [] \<and> int (length ds) \<le> 2 ^ 53 \<and> (\<forall>d \<in> set ds. 0 \<le> d \<and> d \<le> 2 ^ 53)"

lemma percentile_lerp:
  assumes "latencies_ok ds" and "0 < p" and "p < 100"
  defines "x \<equiv> percentile_idx (length ds) p"
  shows "percentile (rats ds) p =
    (if nat \<lfloor>x\<rfloor> + 1 < length ds
     then ieee.lerp (fl (x - of_int \<lfloor>x\<rfloor>)) (ds ! nat \<lfloor>x\<rfloor>) (ds ! (nat \<lfloor>x\<rfloor> + 1))
     else of_int (ds ! nat \<lfloor>x\<rfloor>))"
proof -
  have n: "0 < length ds" "int (length ds) \<le> 2 ^ 53" using assms(1) by (simp_all add: latencies_ok_def)
  note i = percentile_index [of p "length ds", OF _ _ n, folded x_def]
  have f: "int_of_float x = \<lfloor>x\<rfloor>"
    using percentile_idx_bounds(1) [of p "length ds"] n assms(2,3) by (simp add: x_def int_of_float_nonneg)
  have "0 \<le> \<lfloor>x\<rfloor>" "\<lfloor>x\<rfloor> < int (length ds)" "fl (of_int \<lfloor>x\<rfloor>) = of_int \<lfloor>x\<rfloor>"
    using i assms(2,3) by (simp_all add: f)
  moreover from this have "nat (\<lfloor>x\<rfloor> + 1) = nat \<lfloor>x\<rfloor> + 1" "nat \<lfloor>x\<rfloor> < length ds" by (simp_all add: nat_add_distrib nat_less_iff)
  ultimately show ?thesis
    using assms(2,3) n
    by (simp add: percentile_def Let_def f ieee.lerp_def less_diff_conv2 flip: x_def) auto
qed

lemma percentile_bounds:
  assumes "latencies_ok ds" and "sorted ds" and "0 < p" and "p < 100"
  defines "i \<equiv> nat \<lfloor>percentile_idx (length ds) p\<rfloor>"
  shows "i < length ds" and "of_int (ds ! i) \<le> percentile (rats ds) p"
    and "percentile (rats ds) p \<le> of_int (ds ! min (i + 1) (length ds - 1))"
proof -
  have n: "0 < length ds" "int (length ds) \<le> 2 ^ 53" using assms(1) by (simp_all add: latencies_ok_def)
  let ?x = "percentile_idx (length ds) p"
  have f: "int_of_float ?x = \<lfloor>?x\<rfloor>"
    using percentile_idx_bounds(1) [of p "length ds"] n assms(3,4) by (simp add: int_of_float_nonneg)
  have frac: "0 \<le> fl (?x - of_int \<lfloor>?x\<rfloor>)" "fl (?x - of_int \<lfloor>?x\<rfloor>) \<le> 1"
    using floor_correct [of ?x] by (simp_all add: fl_nonneg ieee.le_one)
  show i: "i < length ds"
    using percentile_index(1,2) [of p "length ds"] n assms(3,4) by (simp add: i_def f nat_less_iff)
  have lerp: "of_int (ds ! i) \<le> ieee.lerp (fl (?x - of_int \<lfloor>?x\<rfloor>)) (ds ! i) (ds ! (i + 1)) \<and>
      ieee.lerp (fl (?x - of_int \<lfloor>?x\<rfloor>)) (ds ! i) (ds ! (i + 1)) \<le> of_int (ds ! (i + 1))" if "i + 1 < length ds"
    using ieee.lerp_bounds [OF frac, of "ds ! i" "ds ! (i + 1)"] that assms(1,2)
    by (simp add: latencies_ok_def sorted_nth_mono)
  show "of_int (ds ! i) \<le> percentile (rats ds) p"
    using lerp percentile_lerp [OF assms(1,3,4)] by (simp flip: i_def)
  have "\<not> i + 1 < length ds \<Longrightarrow> min (i + 1) (length ds - 1) = i" "i + 1 < length ds \<Longrightarrow> min (i + 1) (length ds - 1) = i + 1"
    using i by simp_all
  with lerp percentile_lerp [OF assms(1,3,4)] show "percentile (rats ds) p \<le> of_int (ds ! min (i + 1) (length ds - 1))"
    by (cases "i + 1 < length ds") (simp_all flip: i_def)
qed

lemma percentile_mono:
  assumes "latencies_ok ds" and "sorted ds" and "0 < p" and "p \<le> q" and "q < 100"
  shows "percentile (rats ds) p \<le> percentile (rats ds) q"
proof -
  let ?x = "percentile_idx (length ds) p" and ?y = "percentile_idx (length ds) q"
  have p100: "p < 100" and q0: "0 < q" using assms by simp_all
  have n: "0 < length ds" "int (length ds) \<le> 2 ^ 53" using assms(1) by (simp_all add: latencies_ok_def)
  have xy: "?x \<le> ?y" using percentile_idx_mono [OF _ assms(4) n] assms(3) by simp
  note bp = percentile_bounds [OF assms(1,2,3) p100] and bq = percentile_bounds [OF assms(1,2) q0 assms(5)]
  show ?thesis
  proof (cases "\<lfloor>?x\<rfloor> = \<lfloor>?y\<rfloor>")
    case True
    let ?i = "nat \<lfloor>?y\<rfloor>"
    have "fl (?x - of_int \<lfloor>?x\<rfloor>) \<le> fl (?y - of_int \<lfloor>?y\<rfloor>)" "0 \<le> fl (?x - of_int \<lfloor>?x\<rfloor>)"
      using True xy floor_correct [of ?x] by (auto intro!: fl_mono fl_nonneg)
    then have "ieee.lerp (fl (?x - of_int \<lfloor>?x\<rfloor>)) (ds ! ?i) (ds ! (?i + 1)) \<le>
        ieee.lerp (fl (?y - of_int \<lfloor>?y\<rfloor>)) (ds ! ?i) (ds ! (?i + 1))" if "?i + 1 < length ds"
      using that assms(1,2) by (intro ieee.lerp_mono) (simp_all add: latencies_ok_def sorted_nth_mono)
    then show ?thesis
      using True unfolding percentile_lerp [OF assms(1,3) p100] percentile_lerp [OF assms(1) q0 assms(5)] by simp
  next
    case False
    then have "0 \<le> \<lfloor>?x\<rfloor>" "\<lfloor>?x\<rfloor> < \<lfloor>?y\<rfloor>"
      using floor_mono [OF xy] percentile_idx_bounds(1) [OF _ _ n, of p] assms(3) p100 by simp_all
    then have "nat \<lfloor>?x\<rfloor> + 1 \<le> nat \<lfloor>?y\<rfloor>" by (simp only: Suc_le_eq nat_less_eq_zless Suc_eq_plus1 [symmetric])
    then have "ds ! min (nat \<lfloor>?x\<rfloor> + 1) (length ds - 1) \<le> ds ! nat \<lfloor>?y\<rfloor>"
      using bq(1) assms(2) by (intro sorted_nth_mono) auto
    then have "(of_int (ds ! min (nat \<lfloor>?x\<rfloor> + 1) (length ds - 1)) :: rat) \<le> of_int (ds ! nat \<lfloor>?y\<rfloor>)" by (simp only: of_int_le_iff)
    with bp(3) bq(2) show ?thesis by linarith
  qed
qed

lemma percentile_range:
  assumes "latencies_ok ds" and "sorted ds" and "0 < p" and "p < 100"
  shows "of_int (Min (set ds)) \<le> percentile (rats ds) p" and "percentile (rats ds) p \<le> of_int (Max (set ds))"
proof -
  note b = percentile_bounds [OF assms]
  let ?i = "nat \<lfloor>percentile_idx (length ds) p\<rfloor>"
  have "Min (set ds) \<le> ds ! ?i" "ds ! min (?i + 1) (length ds - 1) \<le> Max (set ds)"
    using b(1) by simp_all
  then have "(of_int (Min (set ds)) :: rat) \<le> of_int (ds ! ?i)"
      "(of_int (ds ! min (?i + 1) (length ds - 1)) :: rat) \<le> of_int (Max (set ds))"
    by (simp_all only: of_int_le_iff)
  with b(2,3) show "of_int (Min (set ds)) \<le> percentile (rats ds) p" "percentile (rats ds) p \<le> of_int (Max (set ds))"
    by linarith+
qed

lemma sort_rats: "sort (rats ds) = rats (sort ds)"
proof (induction ds)
  case (Cons d ds)
  have "insort (of_int d :: rat) (rats xs) = rats (insort d xs)" for xs by (induction xs) simp_all
  with Cons show ?case by simp
qed simp

lemma latencies_rats:
  assumes "latencies_ok ds"
  shows "sort (map (\<lambda>d. fl (of_int d)) ds) = rats (sort ds)"
proof -
  have "map (\<lambda>d. fl (of_int d)) ds = rats ds" using assms by (simp add: latencies_ok_def fl_of_int)
  then show ?thesis by (simp only: sort_rats)
qed

lemma int_of_float_mono: "0 \<le> x \<Longrightarrow> x \<le> y \<Longrightarrow> int_of_float x \<le> int_of_float y"
  by (simp add: int_of_float_nonneg floor_mono)

lemma percentiles_ordered:
  assumes "latencies_ok ds"
  defines "lats \<equiv> sort (map (\<lambda>d. fl (of_int d)) ds)"
  shows "0 < p \<Longrightarrow> p < 100 \<Longrightarrow> Min (set ds) \<le> int_of_float (percentile lats p)"
    and "0 < p \<Longrightarrow> p < 100 \<Longrightarrow> int_of_float (percentile lats p) \<le> Max (set ds)"
    and "0 < p \<Longrightarrow> p \<le> q \<Longrightarrow> q < 100 \<Longrightarrow> int_of_float (percentile lats p) \<le> int_of_float (percentile lats q)"
proof -
  have "sort ds \<noteq> []" using assms(1) by (metis latencies_ok_def set_empty set_sort)
  then have ok: "latencies_ok (sort ds)" using assms(1) by (simp add: latencies_ok_def)
  have lats: "lats = rats (sort ds)" using latencies_rats [OF assms(1)] by (simp add: lats_def)
  have "Min (set ds) \<in> set ds" using assms(1) by (simp add: latencies_ok_def)
  then have min: "0 \<le> Min (set ds)" using assms(1) by (auto simp: latencies_ok_def)
  have range: "of_int (Min (set ds)) \<le> percentile lats p" "percentile lats p \<le> of_int (Max (set ds))"
      "0 \<le> percentile lats p" if "0 < p" "p < 100" for p
  proof -
    show *: "of_int (Min (set ds)) \<le> percentile lats p" and "percentile lats p \<le> of_int (Max (set ds))"
      using percentile_range [OF ok sorted_sort that] by (simp_all add: lats)
    have "(0 :: rat) \<le> of_int (Min (set ds))" using min by (simp only: of_int_0_le_iff)
    with * show "0 \<le> percentile lats p" by (rule order_trans [rotated])
  qed
  show "Min (set ds) \<le> int_of_float (percentile lats p)" "int_of_float (percentile lats p) \<le> Max (set ds)"
    if "0 < p" "p < 100"
    using range [OF that] floor_mono [of "percentile lats p" "of_int (Max (set ds))"]
    by (simp_all add: int_of_float_nonneg le_floor_iff)
  show "int_of_float (percentile lats p) \<le> int_of_float (percentile lats q)" if "0 < p" "p \<le> q" "q < 100"
    using percentile_mono [OF ok sorted_sort that] range(3) [of p] that by (simp add: lats int_of_float_mono)
qed

lemma success_rate_bounds:
  assumes "0 \<le> k" and "k \<le> n" and "n \<le> 2 ^ 53" and "0 < n"
  defines "rate \<equiv> fl (fl (fl (of_int k) / fl (of_int n)) * 100)"
  shows "0 \<le> rate" and "rate \<le> 100" and "k = n \<Longrightarrow> rate = 100"
proof -
  have kn: "fl (of_int k) = of_int k" "fl (of_int n) = of_int n"
    using assms by (simp_all add: fl_of_int)
  have q: "0 \<le> (of_int k / of_int n :: rat)" "of_int k / of_int n \<le> (1 :: rat)"
    using assms by simp_all
  then have "0 \<le> fl (of_int k / of_int n) * 100" "fl (of_int k / of_int n) * 100 \<le> of_int 100"
    using fl_nonneg [OF q(1)] ieee.le_one [OF q] by simp_all
  then show "0 \<le> rate" "rate \<le> 100"
    using ieee.le_int [of "fl (of_int k / of_int n) * 100" 100] unfolding rate_def kn by (simp_all add: fl_nonneg)
  show "rate = 100" if "k = n"
    using that assms(4) fl_of_int [of 1] fl_of_int [of 100] unfolding rate_def kn by simp
qed

lemma Seconds_whole:
  assumes "0 < k" and "k \<le> 2 ^ 53"
  shows "Seconds (k * Second) = of_int k" and "0 < k * Second"
proof -
  show "0 < k * Second" using assms(1) by (simp add: Second_def)
  have "k * Second sdiv Second = k" "k * Second smod Second = 0"
    using assms(1) by (simp_all add: Second_def signed_divide_int_def signed_modulo_int_def sgn_if)
  then show "Seconds (k * Second) = of_int k" using assms fl_of_int [of k] by (simp add: Seconds_def)
qed

text \<open>The parts of a report over the latencies of the successful calls.\<close>

lemma Report_parts:
  fixes scen prof system :: string and lc :: load_config and raw :: bool and c :: collector
  assumes "co_samples c \<noteq> []"
  defines "r \<equiv> Report scen prof system lc raw c" and "ds \<equiv> durations (co_samples c)"
  defines "lats \<equiv> sort (map (\<lambda>d. fl (of_int d)) ds)" and "n \<equiv> int (length (co_samples c))"
  shows "rp_TotalRequests r = n" "rp_SuccessCount r = int (length ds)"
    "rp_ErrorCount r = n - int (length ds)"
    "rp_SuccessRate r = fl (fl (fl (of_int (int (length ds))) / fl (of_int n)) * 100)"
    "rp_RPS r = (if co_elapsed c > 0 then fl (fl (of_int (int (length ds))) / Seconds (co_elapsed c)) else 0)"
    "rp_LatencyDist r = buildDistribution lats"
    "ds \<noteq> [] \<Longrightarrow> rp_AvgLatency r = totalLatency (fold totals_step (co_samples c) totals_start) sdiv int (length ds)"
    "ds \<noteq> [] \<Longrightarrow> rp_MinLatency r = fold min ds (2 ^ 63 - 1)" "ds \<noteq> [] \<Longrightarrow> rp_MaxLatency r = fold max ds 0"
    "ds \<noteq> [] \<Longrightarrow> rp_P50 r = int_of_float (percentile lats 50)"
    "ds \<noteq> [] \<Longrightarrow> rp_P90 r = int_of_float (percentile lats 90)"
    "ds \<noteq> [] \<Longrightarrow> rp_P95 r = int_of_float (percentile lats 95)"
    "ds \<noteq> [] \<Longrightarrow> rp_P99 r = int_of_float (percentile lats 99)"
    "ds \<noteq> [] \<Longrightarrow> rp_P999 r = int_of_float (percentile lats (fl (999 / 10)))"
proof -
  let ?t = "fold totals_step (co_samples c) totals_start"
  have t: "successCount ?t = int (length ds)" "latencies ?t = map (\<lambda>d. fl (of_int d)) ds"
      "errorCount ?t = int (length (filter (\<lambda>s. \<not> sa_Success s) (co_samples c)))"
    using totals_counts [of "co_samples c" totals_start] by (simp_all add: totals_start_def ds_def)
  have e: "errorCount ?t = n - int (length ds)"
    using t(3) sum_length_filter_compl [of sa_Success "co_samples c"] by (simp add: ds_def n_def)
  have mm: "minLatency ?t = fold min ds (2 ^ 63 - 1)" "maxLatency ?t = fold max ds 0"
    using totals_min_max [of "co_samples c" totals_start] by (simp_all add: totals_start_def ds_def)
  have r: "r = Report scen prof system lc raw c" by (simp add: r_def)
  show "rp_TotalRequests r = n" "rp_SuccessCount r = int (length ds)" "rp_ErrorCount r = n - int (length ds)"
    "rp_LatencyDist r = buildDistribution lats"
    "rp_SuccessRate r = fl (fl (fl (of_int (int (length ds))) / fl (of_int n)) * 100)"
    "rp_RPS r = (if co_elapsed c > 0 then fl (fl (of_int (int (length ds))) / Seconds (co_elapsed c)) else 0)"
    using assms(1) unfolding r Report_def Let_def by (simp_all add: t(1,2) e n_def lats_def)
  have sorted: "length lats = length ds" by (simp add: lats_def)
  show "rp_AvgLatency r = totalLatency ?t sdiv int (length ds)"
      "rp_MinLatency r = fold min ds (2 ^ 63 - 1)" "rp_MaxLatency r = fold max ds 0"
      "rp_P50 r = int_of_float (percentile lats 50)" "rp_P90 r = int_of_float (percentile lats 90)"
      "rp_P95 r = int_of_float (percentile lats 95)" "rp_P99 r = int_of_float (percentile lats 99)"
      "rp_P999 r = int_of_float (percentile lats (fl (999 / 10)))" if "ds \<noteq> []"
    using assms(1) that unfolding r Report_def Let_def
    by (simp_all add: t(1,2) mm sorted flip: lats_def)
qed

lemma fl_999: "0 < fl (999 / 10)" "99 \<le> fl (999 / 10)" "fl (999 / 10) < 100"
  by code_simp+

section \<open>Properties\<close>

text \<open>
  C37. The report is exact, for latencies that are \<open>int64\<close> values and not negative: it counts every
  recorded sample once, as a success or an error; its distribution has in each bucket the number of
  successful calls whose latency lies in the range that the name of the bucket promises, and the
  buckets together hold all of them; and, as long as the sum of the latencies stays below \<open>2 ^ 63\<close>
  nanoseconds, the least and greatest latency are those of the successful calls and the average is
  their sum divided by their number, which lies between the two.
\<close>

theorem report_exact:
  assumes "co_samples c \<noteq> []" and r_def: "r = Report scen prof system lc raw c"
    and ds_def: "ds = durations (co_samples c)" and int64: "\<forall>d \<in> set ds. 0 \<le> d \<and> d < 2 ^ 63"
  shows "rp_TotalRequests r = int (length (co_samples c)) \<and> rp_SuccessCount r = int (length ds) \<and>
    rp_SuccessCount r + rp_ErrorCount r = rp_TotalRequests r \<and>
    (\<forall>(name, lo, hi) \<in> set bucket_ranges.
       bucket_count (rp_LatencyDist r) name = int (length (filter (\<lambda>d. lo \<le> d \<and> d < hi) ds))) \<and>
    (\<Sum>name \<in> fst ` set bucket_ranges. bucket_count (rp_LatencyDist r) name) = rp_SuccessCount r \<and>
    (ds \<noteq> [] \<longrightarrow> rp_MinLatency r = Min (set ds) \<and> rp_MaxLatency r = Max (set ds)) \<and>
    (ds \<noteq> [] \<and> sum_list ds < 2 ^ 63 \<longrightarrow>
       rp_AvgLatency r = sum_list ds div int (length ds) \<and>
       rp_MinLatency r \<le> rp_AvgLatency r \<and> rp_AvgLatency r \<le> rp_MaxLatency r)"
proof -
  note parts = Report_parts [OF assms(1), of scen prof system lc raw, folded r_def ds_def]
  have nonneg: "\<forall>d \<in> set ds. 0 \<le> d" using int64 by simp
  have count: "bucket_count (rp_LatencyDist r) name =
      int (length (filter (\<lambda>d. find_bucket buckets (fl (of_int d)) = Some name) ds))" for name
    by (simp add: parts(6) bucket_count_buildDistribution filter_map o_def)
  have dist: "bucket_count (rp_LatencyDist r) name = int (length (filter (\<lambda>d. lo \<le> d \<and> d < hi) ds))"
    if "(name, lo, hi) \<in> set bucket_ranges" for name lo hi
    unfolding count using find_bucket_range [OF _ _ that] int64 by (simp cong: filter_cong)
  have total: "(\<Sum>name \<in> fst ` set bucket_ranges. bucket_count (rp_LatencyDist r) name) = int (length ds)"
    unfolding count using int64 by (intro partition_lengths find_bucket_total) auto
  have ext: "rp_MinLatency r = Min (set ds) \<and> rp_MaxLatency r = Max (set ds)" if "ds \<noteq> []"
    using parts(8,9) extremes [OF that int64] that by simp
  have avg: "rp_AvgLatency r = sum_list ds div int (length ds)" if "ds \<noteq> []" "sum_list ds < 2 ^ 63"
  proof -
    have "totalLatency (fold totals_step (co_samples c) totals_start) = sum_list ds"
      using totals_sum [of totals_start "co_samples c"] nonneg that(2) by (simp add: totals_start_def ds_def)
    moreover have "0 \<le> sum_list ds" using nonneg by (intro sum_list_nonneg) auto
    ultimately show ?thesis using parts(7) that(1) by (simp add: signed_divide_int_def sgn_if)
  qed
  show ?thesis using parts(1-3) dist total ext avg average_bounds [of ds] nonneg by auto
qed

text \<open>Three calls, the second of which failed.\<close>

definition demo_sample :: "bool \<Rightarrow> duration \<Rightarrow> sample" where
  "demo_sample ok d = \<lparr>sa_Start = 0, sa_Duration = d, sa_QueueTime = 0, sa_NetworkTime = 0, sa_Success = ok,
     sa_Error = [], sa_PayloadSize = 64, sa_WorkerID = 0\<rparr>"

definition demo_collector :: collector where
  "demo_collector = fold Record [demo_sample True 700, demo_sample False 5, demo_sample True 3000000] NewCollector"

lemma demo_samples: "co_samples demo_collector = [demo_sample True 700, demo_sample False 5, demo_sample True 3000000]"
  by (simp add: demo_collector_def Record_def NewCollector_def)

theorem report_exact_witness:
  "rp_SuccessCount (Report ''s'' ''clean'' ''qrpc'' load_config_zero False demo_collector) = 2 \<and>
   rp_MinLatency (Report ''s'' ''clean'' ''qrpc'' load_config_zero False demo_collector) = 700 \<and>
   rp_AvgLatency (Report ''s'' ''clean'' ''qrpc'' load_config_zero False demo_collector) = 1500350 \<and>
   bucket_count (rp_LatencyDist (Report ''s'' ''clean'' ''qrpc'' load_config_zero False demo_collector)) ''1-5ms'' = 1"
  using report_exact [OF _ refl refl, of demo_collector "''s''" "''clean''" "''qrpc''" load_config_zero False]
  by (simp add: demo_samples demo_sample_def bucket_ranges_def Millisecond_def Second_def)

text \<open>
  C38. The figures that rest on floating-point arithmetic are sound, for up to \<open>2 ^ 53\<close> samples with
  latencies up to \<open>2 ^ 53\<close> nanoseconds (104 days): despite the rounding of the index, of the
  interpolation and of the conversion back to nanoseconds, the percentiles are in order and lie
  between the least and the greatest latency; the success rate lies between 0 and 100, and is 100 if
  no call failed; and the rate per second of a run that took \<open>k\<close> whole seconds is the number of
  successes divided by \<open>k\<close>, rounded once.
\<close>

theorem report_figures_sound:
  assumes "latencies_ok (durations (co_samples c))" and "int (length (co_samples c)) \<le> 2 ^ 53"
    and r_def: "r = Report scen prof system lc raw c"
  shows "rp_MinLatency r \<le> rp_P50 r \<and> rp_P50 r \<le> rp_P90 r \<and> rp_P90 r \<le> rp_P95 r \<and> rp_P95 r \<le> rp_P99 r \<and>
    rp_P99 r \<le> rp_P999 r \<and> rp_P999 r \<le> rp_MaxLatency r \<and>
    0 \<le> rp_SuccessRate r \<and> rp_SuccessRate r \<le> 100 \<and> (rp_ErrorCount r = 0 \<longrightarrow> rp_SuccessRate r = 100) \<and>
    (\<forall>k. 0 < k \<and> k \<le> 2 ^ 53 \<and> co_elapsed c = k * Second \<longrightarrow>
       rp_RPS r = fl (of_int (rp_SuccessCount r) / of_int k))"
proof -
  define ds where "ds = durations (co_samples c)"
  have ok: "latencies_ok ds" using assms(1) by (simp add: ds_def)
  have ne: "co_samples c \<noteq> []" "ds \<noteq> []" using assms(1) by (auto simp: latencies_ok_def ds_def)
  note parts = Report_parts [OF ne(1), of scen prof system lc raw, folded r_def ds_def]
  have "0 \<le> d \<and> d < 2 ^ 63" if "d \<in> set ds" for d
    using ok that by (fastforce simp: latencies_ok_def)
  with extremes [OF ne(2)] parts(8,9) ne(2)
  have ext: "rp_MinLatency r = Min (set ds)" "rp_MaxLatency r = Max (set ds)" by simp_all
  note perc = percentiles_ordered [OF ok]
  have order: "rp_MinLatency r \<le> rp_P50 r" "rp_P50 r \<le> rp_P90 r" "rp_P90 r \<le> rp_P95 r" "rp_P95 r \<le> rp_P99 r"
    "rp_P99 r \<le> rp_P999 r" "rp_P999 r \<le> rp_MaxLatency r"
    using fl_999 unfolding ext parts(10-14) [OF ne(2)] by (simp_all add: perc)
  have len: "length ds \<le> length (co_samples c)" by (simp add: ds_def)
  note rate = success_rate_bounds [OF _ _ assms(2), of "int (length ds)"]
  have "0 < int (length (co_samples c))" using ne(1) by simp
  then have "0 \<le> rp_SuccessRate r \<and> rp_SuccessRate r \<le> 100 \<and> (rp_ErrorCount r = 0 \<longrightarrow> rp_SuccessRate r = 100)"
    unfolding parts(3,4) using rate len by fastforce
  moreover have "rp_RPS r = fl (of_int (rp_SuccessCount r) / of_int k)"
    if "0 < k" "k \<le> 2 ^ 53" "co_elapsed c = k * Second" for k
    unfolding parts(2,5) using that fl_of_int [of "int (length ds)"] assms(2) len
    by (simp add: Seconds_whole)
  ultimately show ?thesis using order by blast
qed

theorem report_figures_sound_witness:
  "rp_P50 (Report ''s'' ''clean'' ''qrpc'' load_config_zero False demo_collector) \<le>
   rp_P999 (Report ''s'' ''clean'' ''qrpc'' load_config_zero False demo_collector)"
  using report_figures_sound [OF _ _ refl, of demo_collector "''s''" "''clean''" "''qrpc''" load_config_zero False]
  by (simp add: demo_samples demo_sample_def latencies_ok_def)

end
