(* ===== verification/Load_Generator.thy ===== *)
theory Load_Generator
  imports Metrics_Collector Rpc_Client
begin

text \<open>
  The load generator of the stress tester, \<open>stress_tester/internal/loader/loader.go\<close>: the
  payloads, the retries of its initialisation, and the loop of a worker, which sends requests one
  after another and records a sample for each that ends while the generator collects. The random
  generator, the clock, the creation of a client and the results of its calls are arguments. The
  goroutines and the creation of the client are in \<open>Load_Session\<close>, the knee points and the formatting
  of figures in \<open>Load_Figures\<close>.
\<close>

section \<open>Payloads\<close>

text \<open>
  \<open>makePayload\<close>: short payloads count up, longer ones are random (\<open>rd\<close>: what \<open>rand.Read\<close> puts
  into the buffer, or its failure).
\<close>

definition counting :: "nat \<Rightarrow> bytes" where
  "counting n = map (\<lambda>i. word_of_nat (i mod 256)) [0..<n]"

definition makePayload :: "(nat \<Rightarrow> go_error + bytes) \<Rightarrow> int \<Rightarrow> bytes outcome" where
  "makePayload rd size' =
     (if size' < 0 then Panic MakeSliceLen
      else if size' \<le> 1024 then Ok (counting (nat size'))
      else (case rd (nat size') of
              Inl err \<Rightarrow> Ok (counting (nat size'))
            | Inr buf \<Rightarrow> Ok buf))"

text \<open>
  The generator \<open>rng\<close> of one payload: whether \<open>rng.Float64() < 0.8\<close>, and \<open>rng.Intn\<close>, which panics
  unless its argument is positive.
\<close>

record rng =
  rng_small :: bool
  rng_Intn :: "int \<Rightarrow> int"

definition Intn :: "rng \<Rightarrow> int \<Rightarrow> int outcome" where
  "Intn g n = (if n \<le> 0 then Panic InvalidArgument else Ok (rng_Intn g n))"

definition nextPayload :: "load_config \<Rightarrow> (nat \<Rightarrow> go_error + bytes) \<Rightarrow> rng \<Rightarrow> bytes outcome" where
  "nextPayload cfg rd g =
     (if lc_Workload cfg = WorkloadFixed then makePayload rd (lc_PayloadSize cfg)
      else if lc_Workload cfg = WorkloadRandom then
        obind (Intn g (lc_MaxPayload cfg - lc_MinPayload cfg + 1))
          (\<lambda>n. makePayload rd (lc_MinPayload cfg + n))
      else if lc_Workload cfg = WorkloadMixed then
        if rng_small g then obind (Intn g (1024 - 64)) (\<lambda>n. makePayload rd (64 + n))
        else obind (Intn g 10) (\<lambda>n. makePayload rd ((1 + n) * 1024 * 1024))
      else makePayload rd 1024)"

section \<open>The client\<close>

datatype init_error = CtxErr go_error | ErrClientInitFailed "go_error option"

text \<open>
  \<open>initClient\<close>: \<open>tryInit\<close> is the result of each attempt, \<open>ctxDone\<close> whether the context is done
  during the pause before it.
\<close>

fun init_loop ::
    "(nat \<Rightarrow> go_error + 'c) \<Rightarrow> (nat \<Rightarrow> go_error option) \<Rightarrow> nat \<Rightarrow> nat \<Rightarrow> go_error option \<Rightarrow> init_error + 'c" where
  "init_loop tryInit ctxDone attempt 0 lastErr = Inl (ErrClientInitFailed lastErr)"
| "init_loop tryInit ctxDone attempt (Suc left) lastErr =
     (case (if attempt > 0 then ctxDone attempt else None) of
        Some err \<Rightarrow> Inl (CtxErr err)
      | None \<Rightarrow>
          (case tryInit attempt of
             Inr client \<Rightarrow> Inr client
           | Inl err \<Rightarrow> init_loop tryInit ctxDone (Suc attempt) left (Some err)))"

definition initClient ::
    "load_config \<Rightarrow> (nat \<Rightarrow> go_error + 'c) \<Rightarrow> (nat \<Rightarrow> go_error option) \<Rightarrow> init_error + 'c" where
  "initClient cfg tryInit ctxDone =
     (let attempts = (if lc_RetryAttempts cfg < 1 then 1 else lc_RetryAttempts cfg)
      in init_loop tryInit ctxDone 0 (nat attempts) None)"

text \<open>
  \<open>qrpcClientWrapper.SendRequest\<close>, up to the wait of the call: a request is taken from the client,
  filled in and sent.
\<close>

definition wrapper_SendRequest_begin ::
    "'st menv \<Rightarrow> bytes \<Rightarrow> bytes \<Rightarrow> bytes list \<Rightarrow> ('a, 'st) client \<Rightarrow>
     (nat \<times> u64) outcome \<times> ('a, 'st) client" where
  "wrapper_SendRequest_begin E meth body headers cl =
     (let (req, cl) = Client_NewRequest E cl
      in on_call (obind (Request_SetMethod meth req) (\<lambda>req. obind (Request_SetBody body req) (Request_SetHeaders headers)))
           cl (\<lambda>err. (Err err, cl)) (\<lambda>req. SendRequest_begin E req cl))"

section \<open>The worker\<close>

text \<open>
  One round of \<open>workerLoop\<close>: the clock around the call, what the call returns (the text of an
  error, or the response, whose code is all that is looked at, or nil), and whether the generator
  was collecting when it returned.
\<close>

record round =
  rd_rng :: rng
  rd_rand :: "nat \<Rightarrow> go_error + bytes"
  rd_start :: int
  rd_end :: int
  rd_result :: "string + u32 option"
  rd_collecting :: bool

definition round_sample :: "int \<Rightarrow> bytes \<Rightarrow> round \<Rightarrow> sample" where
  "round_sample ident payload r =
     (let s = \<lparr>sa_Start = rd_start r, sa_Duration = rd_end r - rd_start r, sa_QueueTime = 0,
               sa_NetworkTime = 0, sa_Success = False, sa_Error = [],
               sa_PayloadSize = int (length payload), sa_WorkerID = ident\<rparr>
      in case rd_result r of
           Inl err \<Rightarrow> s\<lparr>sa_Error := err\<rparr>
         | Inr None \<Rightarrow> s\<lparr>sa_Error := ''nil response without error''\<rparr>
         | Inr (Some code) \<Rightarrow>
             if code \<noteq> 200 then s\<lparr>sa_Error := ''unexpected code '' @ decimal (unat code)\<rparr>
             else s\<lparr>sa_Success := True\<rparr>)"

text \<open>The loop, over the rounds until the context is done.\<close>

fun workerLoop :: "load_config \<Rightarrow> int \<Rightarrow> round list \<Rightarrow> collector \<Rightarrow> collector outcome" where
  "workerLoop cfg ident [] c = Ok c"
| "workerLoop cfg ident (r # rs) c =
     obind (nextPayload cfg (rd_rand r) (rd_rng r))
       (\<lambda>payload. workerLoop cfg ident rs (if rd_collecting r then Record (round_sample ident payload r) c else c))"

text \<open>
  A run of the generator, \<open>Start\<close>, \<open>Warmup\<close> and \<open>Run\<close>: the client is created, the timer started,
  the rounds of the worker goroutines go on, in the order in which their calls return (the
  collector is all they share, and recording a sample is atomic), and the timer is stopped.
\<close>

fun run_workers :: "load_config \<Rightarrow> (int \<times> round) list \<Rightarrow> collector \<Rightarrow> collector outcome" where
  "run_workers cfg [] c = Ok c"
| "run_workers cfg ((ident, r) # rs) c = obind (workerLoop cfg ident [r] c) (run_workers cfg rs)"

record 'c load_run =
  lr_try :: "nat \<Rightarrow> go_error + 'c"
  lr_ctxDone :: "nat \<Rightarrow> go_error option"
  lr_started :: int
  lr_rounds :: "(int \<times> round) list"
  lr_stopped :: int

definition run_load :: "load_config \<Rightarrow> 'c load_run \<Rightarrow> collector \<Rightarrow> (init_error + collector) outcome" where
  "run_load cfg lr c =
     (case initClient cfg (lr_try lr) (lr_ctxDone lr) of
        Inl err \<Rightarrow> Ok (Inl err)
      | Inr client \<Rightarrow>
          obind (run_workers cfg (lr_rounds lr) (StartTimer (lr_started lr) c))
            (\<lambda>c. Ok (Inr (StopTimer (lr_stopped lr) c))))"

section \<open>Lemmas\<close>

text \<open>What the documentation says of the random sources.\<close>

definition fills :: "(nat \<Rightarrow> go_error + bytes) \<Rightarrow> bool" where
  "fills rd \<longleftrightarrow> (\<forall>n b. rd n = Inr b \<longrightarrow> length b = n)"

definition in_range :: "rng \<Rightarrow> bool" where
  "in_range g \<longleftrightarrow> (\<forall>n > 0. 0 \<le> rng_Intn g n \<and> rng_Intn g n < n)"

lemma makePayload_length:
  assumes "fills rd" and "0 \<le> n"
  shows "\<exists>p. makePayload rd n = Ok p \<and> int (length p) = n \<and> (n \<le> 1024 \<longrightarrow> p = counting (nat n))"
  using assms by (auto simp: makePayload_def counting_def fills_def split: sum.splits)

lemma Intn_range:
  assumes "in_range g" and "0 < n"
  shows "\<exists>k. Intn g n = Ok k \<and> 0 \<le> k \<and> k < n"
  using assms by (simp add: Intn_def in_range_def)

lemma nextPayload_fixed:
  assumes "lc_Workload cfg = WorkloadFixed" and "fills rd" and "0 \<le> lc_PayloadSize cfg"
  shows "\<exists>p. nextPayload cfg rd g = Ok p \<and> int (length p) = lc_PayloadSize cfg"
  using makePayload_length [OF assms(2,3)] assms(1) by (auto simp: nextPayload_def)

lemma nextPayload_random:
  assumes "lc_Workload cfg = WorkloadRandom" and "fills rd" and "in_range g"
    and "0 \<le> lc_MinPayload cfg" and "lc_MinPayload cfg \<le> lc_MaxPayload cfg"
  shows "\<exists>p. nextPayload cfg rd g = Ok p \<and> lc_MinPayload cfg \<le> int (length p) \<and> int (length p) \<le> lc_MaxPayload cfg"
proof -
  obtain k where k: "Intn g (lc_MaxPayload cfg - lc_MinPayload cfg + 1) = Ok k" "0 \<le> k"
    "k < lc_MaxPayload cfg - lc_MinPayload cfg + 1"
    using Intn_range [OF assms(3), of "lc_MaxPayload cfg - lc_MinPayload cfg + 1"] assms(5) by auto
  with makePayload_length [OF assms(2), of "lc_MinPayload cfg + k"] assms(1,4) show ?thesis
    by (auto simp: nextPayload_def WorkloadFixed_def WorkloadRandom_def)
qed

lemma nextPayload_mixed:
  assumes "lc_Workload cfg = WorkloadMixed" and "fills rd" and "in_range g"
  shows "\<exists>p. nextPayload cfg rd g = Ok p \<and>
    (64 \<le> length p \<and> length p < 1024 \<or> (\<exists>k \<in> {1..10}. length p = k * 1024 * 1024))"
proof (cases "rng_small g")
  case True
  obtain k where k: "Intn g 960 = Ok k" "0 \<le> k" "k < 960" using Intn_range [OF assms(3), of 960] by auto
  with makePayload_length [OF assms(2), of "64 + k"] assms(1) True show ?thesis
    by (auto simp: nextPayload_def WorkloadFixed_def WorkloadRandom_def WorkloadMixed_def)
next
  case False
  obtain k where k: "Intn g 10 = Ok k" "0 \<le> k" "k < 10" using Intn_range [OF assms(3), of 10] by auto
  obtain p where p: "makePayload rd ((1 + k) * 1024 * 1024) = Ok p" "int (length p) = (1 + k) * 1024 * 1024"
    using makePayload_length [OF assms(2), of "(1 + k) * 1024 * 1024"] k(2) by auto
  have "length p = nat (1 + k) * 1024 * 1024" "nat (1 + k) \<in> {1..10}" using p(2) k(2,3) by auto
  with p(1) k(1) assms(1) False show ?thesis
    by (auto simp: nextPayload_def WorkloadFixed_def WorkloadRandom_def WorkloadMixed_def)
qed

text \<open>The default scenarios are well configured.\<close>

lemma scenario_payload:
  assumes "map_of DefaultScenarios n = Some sc" and "fills rd" and "in_range g"
  shows "\<exists>p. nextPayload (sc_LoadConfig sc) rd g = Ok p \<and> length p \<le> 10 * 1024 * 1024"
proof -
  let ?cfg = "sc_LoadConfig sc"
  have "lc_Workload ?cfg = WorkloadFixed \<and> lc_PayloadSize ?cfg = 1024 \<or>
      lc_Workload ?cfg = WorkloadRandom \<and> lc_MinPayload ?cfg = 1024 \<and>
        (lc_MaxPayload ?cfg = 32 * 1024 \<or> lc_MaxPayload ?cfg = 16 * 1024) \<or>
      lc_Workload ?cfg = WorkloadMixed"
    using assms(1) by (auto simp: DefaultScenarios_def split: if_splits)
  then show ?thesis
    using nextPayload_fixed [OF _ assms(2), of ?cfg g] nextPayload_random [OF _ assms(2,3), of ?cfg]
      nextPayload_mixed [OF _ assms(2,3), of ?cfg]
    by fastforce
qed

text \<open>A request without headers.\<close>

definition plain_request :: "bytes \<Rightarrow> u64 \<Rightarrow> bytes \<Rightarrow> request" where
  "plain_request meth ident body = Request_zero\<lparr>rq_Method := meth, rq_RequestId := ident, rq_Body := body\<rparr>"

lemma plain_request_length:
  assumes "length m < 2 ^ 32" and "length b < 2 ^ 32"
  shows "length (enc_request (plain_request m i b)) \<le> length m + length b + 23"
proof -
  have v: "length (venc (length x)) \<le> 5" if "length x < 2 ^ 32" for x :: bytes
    by (rule length_venc_le) (use that in simp_all)
  have ob: "length (enc_opt_bytes tag x) \<le> length x + 6" if "length x < 2 ^ 32" for x tag
    using v [OF that] by (simp add: enc_opt_bytes_def length_enc_bytes)
  show ?thesis
    using ob [of m "0x12"] ob [of b "0x22"] assms length_uvarint_le [of i]
    by (simp add: enc_request_def enc_headers_def enc_opt_varint_def enc_varint_def plain_request_def Request_zero_def)
qed

lemma scenario_request_ok:
  assumes "map_of DefaultScenarios n = Some sc" and "length p \<le> 10 * 1024 * 1024"
  shows "request_ok (plain_request (gostr (lc_Method (sc_LoadConfig sc))) ident p)"
proof -
  have "length (gostr (lc_Method (sc_LoadConfig sc))) = 4"
    using assms(1) by (auto simp: DefaultScenarios_def gostr_def split: if_splits)
  then show ?thesis
    using plain_request_length [of "gostr (lc_Method (sc_LoadConfig sc))" p ident] assms(2)
    by (simp add: request_ok_def) (simp add: plain_request_def Request_zero_def)
qed

text \<open>The wrapper sends the request it was asked for, whatever the pools held.\<close>

lemma wrapper_sends:
  assumes "cl_ok cl"
  obtains cl0 l where "wrapper_SendRequest_begin E meth body headers cl =
      SendRequest_begin E \<lparr>ri_req = Some (Request_zero\<lparr>rq_Method := meth, rq_Body := body, rq_Headers := headers\<rparr>),
        ri_locals = Some l\<rparr> cl0"
    and "cl_ok cl0" and "silent cl cl0" and "cl_muxes cl0 = cl_muxes cl" and "cl_counter cl0 = cl_counter cl"
proof -
  let ?g = "c_GetRequest E (cl_cst cl)"
  let ?n = "NewRequest (m_pick E (c_tick (snd ?g))) (Some (fst ?g)) (cl_reqs cl)"
  let ?cl = "cl\<lparr>cl_reqs := snd ?n, cl_cst := (snd ?g)\<lparr>c_tick := c_tick (snd ?g) + 1\<rparr>\<rparr>"
  have ok: "c_ok (cl_cst cl)" "ri_pool.pool_ok (cl_reqs cl)" using assms by (simp_all add: cl_ok_def)
  note g = c_GetRequest_ok [OF ok(1), of E] and n = NewRequest_ok [OF ok(2)]
  have nr: "Client_NewRequest E cl = (\<lparr>ri_req = Some Request_zero, ri_locals = Some NewLocals\<rparr>, ?cl)"
    using n(1) [of "m_pick E (c_tick (snd ?g))" "Some (fst ?g)"] g(1)
    by (simp add: Client_NewRequest_def case_prod_unfold Let_def)
  show thesis
  proof (rule that)
    show "wrapper_SendRequest_begin E meth body headers cl =
      SendRequest_begin E \<lparr>ri_req = Some (Request_zero\<lparr>rq_Method := meth, rq_Body := body, rq_Headers := headers\<rparr>),
        ri_locals = Some NewLocals\<rparr> ?cl"
      by (simp add: wrapper_SendRequest_begin_def nr Request_SetMethod_def Request_SetBody_def
          Request_SetHeaders_def deref_def)
    show "cl_ok ?cl" using assms g(2) n(2) by (simp add: cl_ok_def)
    show "silent cl ?cl" by (simp add: silent_def waiting_def c_GetRequest_def case_prod_unfold Let_def)
  qed simp_all
qed

lemma init_loop_first:
  assumes "\<forall>i < k. \<exists>e. tryInit (a + i) = Inl e" and "\<forall>i. ctxDone i = None" and "k < n" and "tryInit (a + k) = Inr c"
  shows "init_loop tryInit ctxDone a n l = Inr c"
  using assms
proof (induction k arbitrary: a n l)
  case 0
  then show ?case by (cases n) simp_all
next
  case (Suc k)
  then obtain n' where n: "n = Suc n'" by (cases n) auto
  obtain e where e: "tryInit a = Inl e" using Suc.prems(1) by force
  have "\<forall>i < k. \<exists>e. tryInit (Suc a + i) = Inl e" using Suc.prems(1) by (metis Suc_less_eq add_Suc_shift)
  from Suc.IH [OF this Suc.prems(2), of n'] Suc.prems(3,4) show ?case by (simp add: n e Suc.prems(2))
qed

lemma init_loop_fails:
  assumes "\<forall>i < n. \<exists>e. tryInit (a + i) = Inl e" and "\<forall>i. ctxDone i = None" and "tryInit (a + n - 1) = Inl e" and "0 < n"
  shows "init_loop tryInit ctxDone a n l = Inl (ErrClientInitFailed (Some e))"
  using assms
proof (induction n arbitrary: a l)
  case (Suc n)
  obtain e0 where e0: "tryInit a = Inl e0" using Suc.prems(1) by force
  show ?case
  proof (cases "n = 0")
    case True
    with Suc.prems show ?thesis by simp
  next
    case False
    have "\<forall>i < n. \<exists>e. tryInit (Suc a + i) = Inl e" using Suc.prems(1) by (metis Suc_less_eq add_Suc_shift)
    from Suc.IH [OF this Suc.prems(2)] Suc.prems(3) False show ?thesis by (simp add: e0 Suc.prems(2))
  qed
qed simp

lemma initClient_eq:
  assumes "\<forall>i. ctxDone i = None" and "n = nat (max 1 (lc_RetryAttempts cfg))"
  shows "initClient cfg tryInit ctxDone =
    (case find (\<lambda>k. \<not> isl (tryInit k)) [0..<n] of
       Some k \<Rightarrow> Inr (projr (tryInit k))
     | None \<Rightarrow> Inl (ErrClientInitFailed (Some (projl (tryInit (n - 1))))))"
proof -
  have n: "initClient cfg tryInit ctxDone = init_loop tryInit ctxDone 0 n None" "0 < n"
    using assms(2) by (auto simp: initClient_def max_def)
  show ?thesis
  proof (cases "find (\<lambda>k. \<not> isl (tryInit k)) [0..<n]")
    case None
    then have bad: "\<forall>i < n. \<exists>e. tryInit i = Inl e" by (auto simp: find_None_iff isl_def)
    then obtain e where "tryInit (n - 1) = Inl e" using n(2) by (meson diff_less zero_less_one)
    with init_loop_fails [of n tryInit 0 ctxDone e None] bad assms(1) n None show ?thesis by simp
  next
    case (Some k)
    then have k: "k < n" "\<not> isl (tryInit k)" "\<forall>i < k. isl (tryInit i)"
      by (auto simp: find_Some_iff)
    then obtain c where c: "tryInit k = Inr c" by (cases "tryInit k") auto
    have "\<forall>i < k. \<exists>e. tryInit i = Inl e" using k(3) by (auto simp: isl_def)
    with init_loop_first [of k tryInit 0 ctxDone n c None] k c assms(1) n Some show ?thesis by simp
  qed
qed

text \<open>The samples of a run say of each collected round whether its call was answered with 200.\<close>

lemma run_workers_samples:
  assumes "run_workers cfg rs c = Ok c'"
  shows "map sa_Success (co_samples c') =
    map sa_Success (co_samples c) @ map (\<lambda>(i, r). rd_result r = Inr (Some 200)) (filter (rd_collecting \<circ> snd) rs)"
  using assms
proof (induction rs arbitrary: c)
  case (Cons ir rs)
  obtain i r where ir: "ir = (i, r)" by (cases ir)
  obtain p where p: "nextPayload cfg (rd_rand r) (rd_rng r) = Ok p"
    and run: "run_workers cfg rs (if rd_collecting r then Record (round_sample i p r) c else c) = Ok c'"
    using Cons.prems by (auto simp: ir obind_eq_Ok)
  have "sa_Success (round_sample i p r) = (rd_result r = Inr (Some 200))"
    by (auto simp: round_sample_def Let_def split: sum.splits option.splits)
  with Cons.IH [OF run] show ?case by (simp add: ir Record_def)
qed simp

lemma run_workers_total:
  assumes "\<forall>(i, r) \<in> set rs. \<exists>p. nextPayload cfg (rd_rand r) (rd_rng r) = Ok p"
  shows "\<exists>c'. run_workers cfg rs c = Ok c'"
  using assms by (induction rs arbitrary: c) fastforce+

section \<open>Properties\<close>

text \<open>
  In every default scenario a worker always gets a payload, of at most 10 MiB, and the request
  that it sends with it goes out: one frame, with the scenario's method, that payload, no headers
  and an id, to the stream whose turn it is. Whatever the random sources return, the sizes that the
  scenario configures never make the generator panic, and the request always fits a frame.
\<close>

theorem load_request_sent:
  assumes "vt_helpers (m_ph E)" and "zstd_lib (m_zstd E)"
    and "map_of DefaultScenarios n = Some sc" and "fills rd" and "in_range g"
    and "cl_ok cl" and "\<not> cl_closed cl" and "next_route cl i s" and "\<forall>t. m_deadline E s t = None"
    and "\<forall>out b. m_write E s out b = None" and "\<forall>t. m_rand E t \<noteq> 0"
  shows "\<exists>p ident ch cl'. nextPayload (sc_LoadConfig sc) rd g = Ok p \<and> length p \<le> 10 * 1024 * 1024 \<and>
    wrapper_SendRequest_begin E (gostr (lc_Method (sc_LoadConfig sc))) p [] cl = (Ok (ch, ident), cl') \<and>
    c_out (cl_cst cl') = (c_out (cl_cst cl))(s := c_out (cl_cst cl) s @
      [request_wire (m_zstd E) (plain_request (gostr (lc_Method (sc_LoadConfig sc))) ident p)]) \<and>
    waiting cl' = (waiting cl)(ident \<mapsto> RespChan ch) \<and> ident \<noteq> 0"
proof -
  let ?m = "gostr (lc_Method (sc_LoadConfig sc))"
  have E: "client_stack E" by (rule client_stackI [OF assms(1,2)])
  obtain p where p: "nextPayload (sc_LoadConfig sc) rd g = Ok p" "length p \<le> 10 * 1024 * 1024"
    using scenario_payload [OF assms(3,4,5)] by blast
  note fits = scenario_request_ok [OF assms(3) p(2)]
  obtain cl0 l where cl0: "wrapper_SendRequest_begin E ?m p [] cl =
      SendRequest_begin E \<lparr>ri_req = Some (Request_zero\<lparr>rq_Method := ?m, rq_Body := p, rq_Headers := []\<rparr>), ri_locals = Some l\<rparr> cl0"
    "cl_ok cl0" "silent cl cl0" "cl_muxes cl0 = cl_muxes cl" "cl_counter cl0 = cl_counter cl"
    by (rule wrapper_sends [OF assms(6)])
  have sil: "\<not> cl_closed cl0" "waiting cl0 = waiting cl" "c_out (cl_cst cl0) = c_out (cl_cst cl)"
    using cl0(3) assms(7) by (simp_all add: silent_def)
  have route: "next_route cl0 i s" using assms(8) next_route_cong [OF cl0(4,5)] by simp
  let ?x = "m_rand E (c_tick (cl_cst cl0))"
  have id: "plain_request ?m ?x p =
      fst (assign_id E (Request_zero\<lparr>rq_Method := ?m, rq_Body := p, rq_Headers := []\<rparr>) cl0)"
    by (simp add: assign_id_def cl_rand_def plain_request_def Request_zero_def)
  have x: "rq_RequestId (plain_request ?m ?x p) = ?x" by (simp add: plain_request_def)
  let ?q = "Request_zero\<lparr>rq_Method := ?m, rq_Body := p, rq_Headers := []\<rparr>"
  have impl: "ri_req \<lparr>ri_req = Some ?q, ri_locals = Some l\<rparr> = Some ?q" "ri_locals \<lparr>ri_req = Some ?q, ri_locals = Some l\<rparr> = Some l"
    by simp_all
  obtain ch cl' where "wrapper_SendRequest_begin E ?m p [] cl = (Ok (ch, ?x), cl')"
    "waiting cl' = (waiting cl)(?x \<mapsto> RespChan ch)"
    "c_out (cl_cst cl') = (c_out (cl_cst cl))(s := c_out (cl_cst cl) s @ [request_wire (m_zstd E) (plain_request ?m ?x p)])"
    using client_stack.SendRequest_begin_ok [OF E cl0(2) sil(1) impl id _ fits route] assms(9-11) x sil(2,3) cl0(1)
    by auto
  with p assms(11) show ?thesis by blast
qed

definition demo_rng :: rng where
  "demo_rng = \<lparr>rng_small = False, rng_Intn = (\<lambda>n. n - 1)\<rparr>"

definition demo_rand :: "nat \<Rightarrow> go_error + bytes" where
  "demo_rand n = Inr (replicate n 7)"

lemma demo_random: "fills demo_rand" "in_range demo_rng"
  by (simp_all add: fills_def in_range_def demo_rand_def demo_rng_def)

definition demo_load_menv :: "nat menv" where
  "demo_load_menv = demo_menv\<lparr>m_rand := (\<lambda>n. 1000)\<rparr>"

theorem load_request_sent_witness:
  "\<exists>p ident ch cl'. nextPayload (sc_LoadConfig (snd (DefaultScenarios ! 2))) demo_rand demo_rng = Ok p \<and>
    length p \<le> 10 * 1024 * 1024 \<and>
    wrapper_SendRequest_begin demo_load_menv (gostr ''echo'') p [] demo_client = (Ok (ch, ident), cl') \<and>
    c_out (cl_cst cl') = (c_out (cl_cst demo_client))(7 := c_out (cl_cst demo_client) 7 @
      [request_wire ref_zstd (plain_request (gostr ''echo'') ident p)]) \<and>
    waiting cl' = (waiting demo_client)(ident \<mapsto> RespChan ch) \<and> ident \<noteq> 0"
  using load_request_sent [of demo_load_menv "''multiplex_stress''" "snd (DefaultScenarios ! 2)" demo_rand demo_rng
      demo_client 0 7] demo_random demo_client_ok
  by (simp add: demo_load_menv_def ref.vt_helpers_axioms ref_z.zstd_lib_axioms) (simp add: DefaultScenarios_def)

text \<open>
  \<open>initClient\<close> returns the client of the first attempt that succeeds, if there is one among the
  configured number of attempts (at least one); otherwise it fails after exactly that many, with
  the error of the last. This is as long as the context is not done.
\<close>

theorem init_client_first_success:
  assumes "\<forall>i. ctxDone i = None" and "n = nat (max 1 (lc_RetryAttempts cfg))"
  shows "initClient cfg tryInit ctxDone =
    (case find (\<lambda>k. \<not> isl (tryInit k)) [0..<n] of
       Some k \<Rightarrow> Inr (projr (tryInit k))
     | None \<Rightarrow> Inl (ErrClientInitFailed (Some (projl (tryInit (n - 1))))))"
  by (rule initClient_eq [OF assms])

theorem init_client_first_success_witness:
  "initClient (load_config_zero\<lparr>lc_RetryAttempts := 3\<rparr>)
     (\<lambda>k. if k < 2 then Inl (OtherError ''refused'') else Inr k) (\<lambda>k. None) = Inr 2"
  by (subst init_client_first_success [OF _ refl]) (simp_all add: upt_rec numeral_2_eq_2 numeral_3_eq_3)

end
