(* ===== verification/Bench_Server.thy ===== *)
theory Bench_Server
  imports Rpc_Server Load_Generator
begin

text \<open>
  The two systems that the stress tester measures: the qrpc server of
  \<open>stress_tester/internal/server/benchserver.go\<close>, which is the server of \<open>Rpc_Server\<close> with three
  handlers, and the gRPC client and server of \<open>stress_tester/internal/grpc\<close>, with the gRPC library
  (dialling, closing, the transport of a call) as parameters. \<open>simulateCPU\<close> only burns time: it has
  no effect on any value.
\<close>

section \<open>The qrpc server\<close>

definition bench_ops :: "'a ctx_op list" where
  "bench_ops = [CSetCode 200, CSetBody [], CSetHeaders []]"

definition bench_handler :: "('a, 'w) handler" where
  "bench_handler w c = (Inr bench_ops, w)"

text \<open>\<open>Start\<close>, on what \<open>GetQuicTLSConfig\<close> and \<open>NewServer\<close> return.\<close>

definition BenchServer_Start ::
    "go_error option \<Rightarrow> go_error + ('a, 'w) server \<Rightarrow> (string \<times> go_error) + ('a, 'w) server" where
  "BenchServer_Start tlsErr server =
     (case tlsErr of
        Some err \<Rightarrow> Inl (''tls config'', err)
      | None \<Rightarrow>
          (case server of
             Inl err \<Rightarrow> Inl (''new server'', err)
           | Inr s \<Rightarrow>
               Inr (AddHandler (gostr ''ping'') bench_handler
                 (AddHandler (gostr ''upload'') bench_handler
                   (AddHandler (gostr ''echo'') bench_handler s)))))"

section \<open>The gRPC system\<close>

record 'p grpc_client =
  gc_pairs :: "'p list"
  gc_cursor :: u64

text \<open>
  \<open>NewClient\<close>, on the result of each call of \<open>DialContext\<close>: when one fails, the connections made
  before it are closed, in order (the second component).
\<close>

fun grpc_dial :: "(nat \<Rightarrow> go_error + 'p) \<Rightarrow> nat \<Rightarrow> nat \<Rightarrow> 'p list \<Rightarrow> (go_error + 'p list) \<times> 'p list" where
  "grpc_dial dial i 0 pairs = (Inr pairs, [])"
| "grpc_dial dial i (Suc left) pairs =
     (case dial i of
        Inl err \<Rightarrow> (Inl err, pairs)
      | Inr conn \<Rightarrow> grpc_dial dial (Suc i) left (pairs @ [conn]))"

definition grpc_NewClient ::
    "go_error option \<Rightarrow> (nat \<Rightarrow> go_error + 'p) \<Rightarrow> int \<Rightarrow> (go_error + 'p grpc_client) \<times> 'p list" where
  "grpc_NewClient tlsErr dial connsCount =
     (let connsCount = (if connsCount < 1 then 1 else connsCount)
      in case tlsErr of
           Some err \<Rightarrow> (Inl err, [])
         | None \<Rightarrow>
             (case grpc_dial dial 0 (nat connsCount) [] of
                (Inl err, shut) \<Rightarrow> (Inl err, shut)
              | (Inr pairs, shut) \<Rightarrow> (Inr \<lparr>gc_pairs = pairs, gc_cursor = 0\<rparr>, shut)))"

text \<open>
  \<open>SendRequest\<close>: the pair whose turn it is, the call (\<open>invoke\<close>, the transport), and the wrapped
  response. \<open>cursor.Add(1) - 1\<close> is the value before.
\<close>

definition grpc_SendRequest ::
    "('p \<Rightarrow> request \<Rightarrow> go_error + response) \<Rightarrow> bytes \<Rightarrow> bytes \<Rightarrow> bytes list \<Rightarrow> 'p grpc_client \<Rightarrow>
     response outcome \<times> 'p grpc_client" where
  "grpc_SendRequest invoke meth body headers c =
     (let idx = gc_cursor c;
          n = word_of_nat (length (gc_pairs c)) :: u64;
          c = c\<lparr>gc_cursor := gc_cursor c + 1\<rparr>
      in if n = 0 then (Panic DivideByZero, c)
         else
           let p = gc_pairs c ! unat (idx mod n);
               req = Request_zero\<lparr>rq_Method := meth, rq_Body := body, rq_Headers := headers\<rparr>
           in (of_result (invoke p req), c))"

text \<open>\<open>Close\<close>: every connection is closed; the first error is returned.\<close>

fun grpc_Close :: "('p \<Rightarrow> go_error option) \<Rightarrow> 'p list \<Rightarrow> go_error option \<Rightarrow> go_error option" where
  "grpc_Close close [] firstErr = firstErr"
| "grpc_Close close (p # ps) firstErr =
     grpc_Close close ps (case close p of Some err \<Rightarrow> if firstErr = None then Some err else firstErr | None \<Rightarrow> firstErr)"

text \<open>The server's \<open>Call\<close>.\<close>

definition grpc_Call :: "request \<Rightarrow> go_error + response" where
  "grpc_Call req = Inr (Response_zero\<lparr>rs_Code := 200, rs_RequestId := rq_RequestId req, rs_Method := rq_Method req\<rparr>)"

section \<open>Lemmas\<close>

text \<open>The response of the qrpc server to a benchmark request.\<close>

definition bench_response :: "u64 \<Rightarrow> response" where
  "bench_response ident = Response_zero\<lparr>rs_RequestId := ident, rs_Code := 200\<rparr>"

lemma bench_response_ok: "response_ok (bench_response i)"
proof -
  have "length (enc_opt_varint tag x) \<le> 11" for tag x
    using length_uvarint_le [of x] by (simp add: enc_opt_varint_def enc_varint_def)
  from this [of "0x18" i] this [of "0x28" "ucast (200 :: u32)"] show ?thesis
    by (simp add: response_ok_def bench_response_def enc_response_def enc_headers_def enc_opt_bytes_def Response_zero_def)
qed

lemma call_bench_handler: "call_handler bench_handler w m = (Ok (bench_response (rq_RequestId m)), w)"
  by (simp add: call_handler_def bench_handler_def bench_ops_def fresh_ctx_def Ctx_SetCode_def Ctx_SetBody_def
      Ctx_SetHeaders_def deref_def bench_response_def Response_zero_def)

lemma BenchServer_handlers:
  assumes "BenchServer_Start tlsErr srv = Inr s" and "m \<in> {''echo'', ''upload'', ''ping''}"
  shows "handlers s (gostr m) = Some bench_handler"
  using assms
  by (auto simp: BenchServer_Start_def AddHandler_def gostr_def split: option.splits sum.splits)

lemma bench_serves:
  assumes "BenchServer_Start tlsErr srv = Inr s" and "rq_Method m = gostr n" and "n \<in> {''echo'', ''upload'', ''ping''}"
  shows "serve_spec s [Call m] w = ([bench_response (rq_RequestId m)], w, None)"
  using BenchServer_handlers [OF assms(1,3)] assms(2) by (simp add: call_bench_handler)

text \<open>The gRPC client dials exactly the connections asked for, at least one, or closes them all.\<close>

lemma grpc_dial_result:
  "grpc_dial dial i n ps = (case find (\<lambda>k. isl (dial k)) [i..<i + n] of
     None \<Rightarrow> (Inr (ps @ map (projr \<circ> dial) [i..<i + n]), [])
   | Some k \<Rightarrow> (Inl (projl (dial k)), ps @ map (projr \<circ> dial) [i..<k]))"
proof (induction n arbitrary: i ps)
  case (Suc n)
  have upt: "[i..<i + Suc n] = i # [Suc i..<Suc i + n]" by (simp add: upt_conv_Cons)
  show ?case
  proof (cases "dial i")
    case (Inl e)
    then show ?thesis unfolding upt by simp
  next
    case (Inr c)
    have "[i..<k] = i # [Suc i..<k]" if "find (\<lambda>k. isl (dial k)) [Suc i..<Suc i + n] = Some k" for k
    proof -
      from that have "k \<in> set [Suc i..<Suc i + n]" by (metis find_Some_iff nth_mem)
      then have "i < k" by auto
      then show ?thesis by (rule upt_conv_Cons)
    qed
    with Suc.IH [of "Suc i" "ps @ [c]"] Inr show ?thesis unfolding upt by (auto split: option.splits)
  qed
qed simp

lemma grpc_Close_first: "grpc_Close close ps None = (case find (\<lambda>p. close p \<noteq> None) ps of None \<Rightarrow> None | Some p \<Rightarrow> close p)"
proof -
  have "grpc_Close close ps (Some e) = Some e" for ps e by (induction ps) (auto split: option.splits)
  then show ?thesis by (induction ps) (auto split: option.splits)
qed

section \<open>Properties\<close>

text \<open>
  A benchmark call succeeds: in every default scenario, whatever the random sources return, the
  worker gets a payload of at most 10 MiB and its request goes out as one frame, some bytes \<open>qb\<close>, to
  the stream whose turn it is. A benchmark server that reads \<open>qb\<close> from a stream, whatever follows on
  it, answers with one frame, the response with the id of the request, code 200 and no body, and
  goes on. A round in which the worker receives that response while it collects is recorded as a
  success.
\<close>

theorem bench_call_counts:
  assumes "vt_helpers (m_ph E)" and "zstd_lib (m_zstd E)" and "vt_helpers (e_ph S)" and "e_zstd S = m_zstd E"
    and "\<forall>out b. e_write S out b = None" and "BenchServer_Start tlsErr new = Inr srv" and "pools_ok st"
    and "map_of DefaultScenarios n = Some sc" and "fills rd" and "in_range g"
    and "cl_ok cl" and "\<not> cl_closed cl" and "next_route cl i s" and "\<forall>t. m_deadline E s t = None"
    and "\<forall>out b. m_write E s out b = None" and "\<forall>t. m_rand E t \<noteq> 0"
  shows "\<exists>p ident ch cl' qb. nextPayload (sc_LoadConfig sc) rd g = Ok p \<and> length p \<le> 10 * 1024 * 1024 \<and>
    wrapper_SendRequest_begin E (gostr (lc_Method (sc_LoadConfig sc))) p [] cl = (Ok (ch, ident), cl') \<and>
    c_out (cl_cst cl') = (c_out (cl_cst cl))(s := c_out (cl_cst cl) s @ [qb]) \<and>
    (\<forall>rest e. \<exists>st'. sv_out st' = sv_out st @ [response_wire (m_zstd E) (bench_response ident)] \<and> pools_ok st' \<and>
       streamReadCycle S srv (Some \<lparr>in_bytes = qb @ rest, in_err = e\<rparr>) st =
       streamReadCycle S srv (Some \<lparr>in_bytes = rest, in_err = e\<rparr>) st') \<and>
    (\<forall>w r. rd_result r = Inr (Some (rs_Code (bench_response ident))) \<longrightarrow> sa_Success (round_sample w p r))"
proof -
  let ?m = "lc_Method (sc_LoadConfig sc)"
  obtain p ident ch cl' where c: "nextPayload (sc_LoadConfig sc) rd g = Ok p" "length p \<le> 10 * 1024 * 1024"
    "wrapper_SendRequest_begin E (gostr ?m) p [] cl = (Ok (ch, ident), cl')"
    "c_out (cl_cst cl') = (c_out (cl_cst cl))(s := c_out (cl_cst cl) s @
      [request_wire (m_zstd E) (plain_request (gostr ?m) ident p)])"
    using load_request_sent [OF assms(1,2,8-16)] by blast
  let ?q = "plain_request (gostr ?m) ident p"
  have S: "server_stack S" using assms(2,3,4) by (simp add: server_stack.intro wire_stack.intro)
  have m: "?m = ''echo''" using assms(8) by (auto simp: DefaultScenarios_def split: if_splits)
  have q: "request_ok ?q" "rq_RequestId ?q = ident" "rq_Method ?q = gostr ?m"
    using scenario_request_ok [OF assms(8) c(2)] by (simp_all add: plain_request_def)
  have sp: "serve_spec srv [Call ?q] (sv_world st) = ([bench_response ident], sv_world st, None)"
    using bench_serves [OF assms(6) q(3)] m q(2) by simp
  have "\<exists>st'. sv_out st' = sv_out st @ [response_wire (m_zstd E) (bench_response ident)] \<and> pools_ok st' \<and>
       streamReadCycle S srv (Some \<lparr>in_bytes = request_wire (m_zstd E) ?q @ rest, in_err = e\<rparr>) st =
       streamReadCycle S srv (Some \<lparr>in_bytes = rest, in_err = e\<rparr>) st'" for rest e
    using server_stack.cycle_serves [OF S assms(7) _ sp, of rest e] q(1) bench_response_ok assms(4,5) by auto
  moreover have "sa_Success (round_sample w p r)" if "rd_result r = Inr (Some (rs_Code (bench_response ident)))" for w r
    using that by (simp add: round_sample_def bench_response_def Let_def)
  ultimately show ?thesis using c by blast
qed

definition demo_bench :: "(unit, nat) server" where
  "demo_bench = AddHandler (gostr ''ping'') bench_handler (AddHandler (gostr ''upload'') bench_handler
     (AddHandler (gostr ''echo'') bench_handler newServer))"

theorem bench_call_counts_witness:
  "\<exists>p ident ch cl' qb. nextPayload (sc_LoadConfig (snd (DefaultScenarios ! 2))) demo_rand demo_rng = Ok p \<and>
    length p \<le> 10 * 1024 * 1024 \<and>
    wrapper_SendRequest_begin demo_load_menv (gostr ''echo'') p [] demo_client = (Ok (ch, ident), cl') \<and>
    c_out (cl_cst cl') = (c_out (cl_cst demo_client))(7 := c_out (cl_cst demo_client) 7 @ [qb]) \<and>
    (\<forall>rest e. \<exists>st'. sv_out st' = [response_wire ref_zstd (bench_response ident)] \<and> pools_ok st' \<and>
       streamReadCycle demo_env demo_bench (Some \<lparr>in_bytes = qb @ rest, in_err = e\<rparr>) (initial_srv 5) =
       streamReadCycle demo_env demo_bench (Some \<lparr>in_bytes = rest, in_err = e\<rparr>) st')"
proof -
  let ?sc = "snd (DefaultScenarios ! 2)"
  have sc: "map_of DefaultScenarios ''multiplex_stress'' = Some ?sc" "lc_Method (sc_LoadConfig ?sc) = ''echo''"
    by (simp_all add: DefaultScenarios_def)
  have b: "BenchServer_Start None (Inr newServer) = Inr demo_bench"
    by (simp add: BenchServer_Start_def demo_bench_def)
  have E: "vt_helpers (m_ph demo_load_menv)" "zstd_lib (m_zstd demo_load_menv)" "vt_helpers (e_ph demo_env)"
    "e_zstd demo_env = m_zstd demo_load_menv" "\<forall>out b. e_write demo_env out b = None"
    "\<forall>t. m_deadline demo_load_menv 7 t = None" "\<forall>out b. m_write demo_load_menv 7 out b = None"
    "\<forall>t. m_rand demo_load_menv t \<noteq> 0" "m_zstd demo_load_menv = ref_zstd"
    by (simp_all add: demo_load_menv_def ref.vt_helpers_axioms ref_z.zstd_lib_axioms)
  from bench_call_counts [OF E(1-5) b pools_ok_initial sc(1) demo_random demo_client_ok E(6-8), of 5]
  show ?thesis unfolding sc(2) E(9) by fastforce
qed

end
