(* ===== verification/Grpc_Service.thy ===== *)
theory Grpc_Service
  imports Bench_Server
begin

text \<open>
  The gRPC service of the stress tester, \<open>stress_tester/internal/grpc/service.go\<close> and \<open>server.go\<close>,
  and the certificates of \<open>stress_tester/internal/tls/tls.go\<close> that both servers use. The cryptographic
  libraries, the listener and the transport of gRPC are parameters; what the program relies on is in
  the locales \<open>crypto_lib\<close> (a certificate that was created for a key makes a pair with it) and
  \<open>grpc_transport\<close> (a call is handed to the handler that is registered under its full method).
\<close>

section \<open>Certificates\<close>

datatype ext_key_usage = ExtKeyUsageServerAuth | ExtKeyUsageClientAuth

record cert_template =
  ct_SerialNumber :: int
  ct_Organization :: "string list"
  ct_CommonName :: string
  ct_NotBefore :: int
  ct_NotAfter :: int
  ct_KeyUsage :: u32
  ct_ExtKeyUsage :: "ext_key_usage list"
  ct_BasicConstraintsValid :: bool
  ct_DNSNames :: "string list"

text \<open>The libraries \<open>crypto/rsa\<close>, \<open>crypto/x509\<close>, \<open>encoding/pem\<close> and \<open>crypto/tls\<close>.\<close>

record ('key, 'cert) crypto =
  cr_GenerateKey :: "nat \<Rightarrow> go_error + 'key"
  cr_CreateCertificate :: "cert_template \<Rightarrow> 'key \<Rightarrow> go_error + bytes"
  cr_MarshalPKCS8 :: "'key \<Rightarrow> go_error + bytes"
  cr_EncodePEM :: "string \<Rightarrow> bytes \<Rightarrow> bytes"
  cr_X509KeyPair :: "bytes \<Rightarrow> bytes \<Rightarrow> go_error + 'cert"

definition Hour :: int where
  "Hour = 3600 * Second"

text \<open>\<open>KeyUsageKeyEncipherment | KeyUsageDigitalSignature\<close>; the two calls of \<open>time.Now\<close> give \<open>t\<close> and \<open>t'\<close>.\<close>

definition cert_template_of :: "int \<Rightarrow> int \<Rightarrow> cert_template" where
  "cert_template_of t t' =
     \<lparr>ct_SerialNumber = 1, ct_Organization = [''QRPC Test''], ct_CommonName = ''localhost'',
      ct_NotBefore = t, ct_NotAfter = t' + 24 * Hour, ct_KeyUsage = 4 OR 1,
      ct_ExtKeyUsage = [ExtKeyUsageServerAuth, ExtKeyUsageClientAuth],
      ct_BasicConstraintsValid = True, ct_DNSNames = [''localhost'']\<rparr>"

definition getCert :: "('key, 'cert) crypto \<Rightarrow> int \<Rightarrow> int \<Rightarrow> go_error + 'cert" where
  "getCert cr t t' =
     (case cr_GenerateKey cr 2048 of
        Inl err \<Rightarrow> Inl err
      | Inr priv \<Rightarrow>
          (case cr_CreateCertificate cr (cert_template_of t t') priv of
             Inl err \<Rightarrow> Inl err
           | Inr derBytes \<Rightarrow>
               let certPEM = cr_EncodePEM cr ''CERTIFICATE'' derBytes
               in case cr_MarshalPKCS8 cr priv of
                    Inl err \<Rightarrow> Inl err
                  | Inr privBytes \<Rightarrow> cr_X509KeyPair cr certPEM (cr_EncodePEM cr ''PRIVATE KEY'' privBytes)))"

record 'cert tls_config =
  tc_Certificates :: "'cert list"
  tc_InsecureSkipVerify :: bool
  tc_NextProtos :: "string list"
  tc_MinVersion :: u16

definition GetQuicTLSConfig :: "('key, 'cert) crypto \<Rightarrow> int \<Rightarrow> int \<Rightarrow> go_error + 'cert tls_config" where
  "GetQuicTLSConfig cr t t' =
     (case getCert cr t t' of
        Inl err \<Rightarrow> Inl err
      | Inr cert \<Rightarrow>
          Inr \<lparr>tc_Certificates = [cert], tc_InsecureSkipVerify = True, tc_NextProtos = [''qrpc''],
               tc_MinVersion = 0x0304\<rparr>)"

definition GetGRPCTLSConfig :: "('key, 'cert) crypto \<Rightarrow> int \<Rightarrow> int \<Rightarrow> go_error + 'cert tls_config" where
  "GetGRPCTLSConfig cr t t' =
     (case getCert cr t t' of
        Inl err \<Rightarrow> Inl err
      | Inr cert \<Rightarrow>
          Inr \<lparr>tc_Certificates = [cert], tc_InsecureSkipVerify = True, tc_NextProtos = [], tc_MinVersion = 0\<rparr>)"

section \<open>The service\<close>

text \<open>A value that implements \<open>BenchServiceServer\<close>, and the server that implements nothing.\<close>

type_synonym bench_service = "request \<Rightarrow> go_error + response"

definition Unimplemented_Call :: bench_service where
  "Unimplemented_Call req = Inl (OtherError ''method Call not implemented'')"

record unary_info =
  ui_FullMethod :: string

type_synonym interceptor = "request \<Rightarrow> unary_info \<Rightarrow> bench_service \<Rightarrow> go_error + response"

definition BenchService_Call_Handler ::
    "bench_service \<Rightarrow> go_error + request \<Rightarrow> interceptor option \<Rightarrow> go_error + response" where
  "BenchService_Call_Handler srv dec interc =
     (case dec of
        Inl err \<Rightarrow> Inl err
      | Inr inp \<Rightarrow>
          (case interc of
             None \<Rightarrow> srv inp
           | Some ic \<Rightarrow> ic inp \<lparr>ui_FullMethod = ''/bench.BenchService/Call''\<rparr> srv))"

definition ServiceName :: string where
  "ServiceName = ''bench.BenchService''"

record service_desc =
  sd_ServiceName :: string
  sd_Methods :: "(string \<times> (bench_service \<Rightarrow> go_error + request \<Rightarrow> interceptor option \<Rightarrow> go_error + response)) list"

definition benchServiceDesc :: service_desc where
  "benchServiceDesc = \<lparr>sd_ServiceName = ServiceName, sd_Methods = [(''Call'', BenchService_Call_Handler)]\<rparr>"

text \<open>\<open>s.RegisterService(benchServiceDesc, srv)\<close>: the services of a server, by name.\<close>

type_synonym registrar = "(service_desc \<times> bench_service) list"

definition RegisterBenchServiceServer :: "registrar \<Rightarrow> bench_service \<Rightarrow> registrar" where
  "RegisterBenchServiceServer s srv = s @ [(benchServiceDesc, srv)]"

text \<open>\<open>benchServiceClientImpl.Call\<close>, on what \<open>Invoke\<close> of its connection returns.\<close>

definition BenchServiceClient_Call :: "(string \<Rightarrow> request \<Rightarrow> go_error + response) \<Rightarrow> request \<Rightarrow> go_error + response" where
  "BenchServiceClient_Call invoke inp =
     (case invoke ''/bench.BenchService/Call'' inp of Inl err \<Rightarrow> Inl err | Inr out \<Rightarrow> Inr out)"

section \<open>The servers\<close>

text \<open>
  \<open>Start\<close> of the gRPC server, on the results of \<open>net.Listen\<close> and \<open>GetGRPCTLSConfig\<close>: an error with
  its prefix, or the registered services with what \<open>Serve\<close> returns.
\<close>

definition grpc_Start ::
    "go_error option \<Rightarrow> go_error + 'cert tls_config \<Rightarrow> (registrar \<Rightarrow> go_error option outcome) \<Rightarrow>
     (string \<times> go_error) option outcome \<times> registrar option" where
  "grpc_Start lisErr tlsCfg serve =
     (case lisErr of
        Some err \<Rightarrow> (Ok (Some (''grpc listen'', err)), None)
      | None \<Rightarrow>
          (case tlsCfg of
             Inl err \<Rightarrow> (Ok (Some (''tls config'', err)), None)
           | Inr cfg \<Rightarrow>
               let srv = RegisterBenchServiceServer [] grpc_Call
               in (obind (serve srv) (\<lambda>r. Ok (map_option (Pair []) r)), Some srv)))"

text \<open>\<open>Stop\<close>: whether \<open>GracefulStop\<close> is called.\<close>

definition grpc_Stop :: "registrar option \<Rightarrow> bool" where
  "grpc_Stop srv = (srv \<noteq> None)"

definition grpc_RunServer ::
    "go_error option \<Rightarrow> go_error + 'cert tls_config \<Rightarrow> (registrar \<Rightarrow> go_error option outcome) \<Rightarrow>
     (string \<times> string \<times> go_error) option outcome" where
  "grpc_RunServer lisErr tlsCfg serve =
     obind (fst (grpc_Start lisErr tlsCfg serve)) (\<lambda>r. Ok (map_option (Pair ''grpc server'') r))"

text \<open>
  \<open>RunServer\<close> of the qrpc server: \<open>Start\<close> with a new certificate and the listening server that
  \<open>NewServer\<close> makes of it, then \<open>\<leftarrow>context.Background().Done()\<close>, which is a receive from a nil channel.
\<close>

definition bench_RunServer ::
    "go_error + 'cert tls_config \<Rightarrow> ('cert tls_config \<Rightarrow> go_error + ('a, 'w) server) \<Rightarrow>
     (string \<times> string \<times> go_error) option outcome" where
  "bench_RunServer tlsCfg new =
     (case BenchServer_Start (case tlsCfg of Inl err \<Rightarrow> Some err | Inr _ \<Rightarrow> None)
             (case tlsCfg of Inl err \<Rightarrow> Inl err | Inr cfg \<Rightarrow> new cfg) of
        Inl err \<Rightarrow> Ok (Some (''start server'', err))
      | Inr s \<Rightarrow> Diverge)"

text \<open>\<open>simulateCPU\<close>: the sum it computes and drops.\<close>

fun simulate_loop :: "nat \<Rightarrow> nat \<Rightarrow> float64 \<Rightarrow> float64" where
  "simulate_loop i 0 acc = acc"
| "simulate_loop i (Suc left) acc = simulate_loop (Suc i) left (fl (acc + fl (fl (of_nat i) * fl (1 / 1000000))))"

definition simulateCPU :: "int \<Rightarrow> unit" where
  "simulateCPU n = (let acc = simulate_loop 0 (nat (n * 100000)) 0 in ())"

section \<open>Interfaces\<close>

locale crypto_lib =
  fixes cr :: "('key, 'cert) crypto"
  assumes key_pair: "cr_CreateCertificate cr tmpl k = Inr d \<Longrightarrow> cr_MarshalPKCS8 cr k = Inr p \<Longrightarrow>
    \<exists>c. cr_X509KeyPair cr (cr_EncodePEM cr ''CERTIFICATE'' d) (cr_EncodePEM cr ''PRIVATE KEY'' p) = Inr c"
begin

text \<open>A certificate is made unless a library call fails, and both configurations carry one.\<close>

lemma getCert_result:
  "getCert cr t t' = Inl err \<Longrightarrow>
   cr_GenerateKey cr 2048 = Inl err \<or>
   (\<exists>k. cr_GenerateKey cr 2048 = Inr k \<and>
      (cr_CreateCertificate cr (cert_template_of t t') k = Inl err \<or> cr_MarshalPKCS8 cr k = Inl err))"
  using key_pair by (fastforce simp: getCert_def Let_def split: sum.splits)

lemma configs_agree:
  assumes "GetQuicTLSConfig cr t t' = Inr server" and "GetQuicTLSConfig cr u u' = Inr client"
  shows "tc_NextProtos server = tc_NextProtos client \<and> tc_NextProtos server \<noteq> [] \<and> tc_Certificates server \<noteq> [] \<and>
    tc_MinVersion server = tc_MinVersion client"
  using assms by (auto simp: GetQuicTLSConfig_def split: sum.splits)

end

text \<open>A certificate is valid for a day from the moment it is made.\<close>

lemma cert_valid_day:
  assumes "t \<le> t'" and "t \<le> now" and "now \<le> t + 24 * Hour"
  shows "ct_NotBefore (cert_template_of t t') \<le> now \<and> now \<le> ct_NotAfter (cert_template_of t t')"
  using assms by (simp add: cert_template_of_def)

text \<open>A concrete library: keys are numbers, and a pair is right when both halves come from one key.\<close>

definition ref_crypto :: "(nat, nat) crypto" where
  "ref_crypto = \<lparr>cr_GenerateKey = Inr, cr_CreateCertificate = (\<lambda>tmpl k. Inr [word_of_nat (k mod 256)]),
     cr_MarshalPKCS8 = (\<lambda>k. Inr [word_of_nat (k mod 256)]), cr_EncodePEM = (\<lambda>typ b. b),
     cr_X509KeyPair = (\<lambda>c k. if c = k then Inr (length c) else Inl (OtherError ''private key does not match public key''))\<rparr>"

interpretation ref_crypto: crypto_lib ref_crypto
  by unfold_locales (auto simp: ref_crypto_def)

text \<open>The transport: a call on a connection to a server with these services.\<close>

definition full_method :: "service_desc \<Rightarrow> string \<Rightarrow> string" where
  "full_method d m = ''/'' @ sd_ServiceName d @ ''/'' @ m"

locale grpc_transport =
  fixes invoke :: "string \<Rightarrow> request \<Rightarrow> go_error + response"
    and services :: registrar
  assumes routes: "(d, srv) \<in> set services \<Longrightarrow> (m, h) \<in> set (sd_Methods d) \<Longrightarrow> distinct (map (sd_ServiceName \<circ> fst) services) \<Longrightarrow>
    distinct (map fst (sd_Methods d)) \<Longrightarrow> invoke (full_method d m) req = h srv (Inr req) None"
begin

text \<open>The generated client reaches the server that was registered.\<close>

lemma client_reaches_server:
  assumes "services = RegisterBenchServiceServer [] srv"
  shows "BenchServiceClient_Call invoke req = srv req"
proof -
  have "invoke (full_method benchServiceDesc ''Call'') req = BenchService_Call_Handler srv (Inr req) None"
    by (rule routes) (simp_all add: assms RegisterBenchServiceServer_def benchServiceDesc_def)
  moreover have "full_method benchServiceDesc ''Call'' = ''/bench.BenchService/Call''"
    by (simp add: full_method_def benchServiceDesc_def ServiceName_def)
  ultimately show ?thesis
    by (cases "srv req") (simp_all add: BenchServiceClient_Call_def BenchService_Call_Handler_def)
qed

end

text \<open>The bench service on a transport that looks methods up by their name.\<close>

definition lookup_invoke :: "registrar \<Rightarrow> string \<Rightarrow> request \<Rightarrow> go_error + response" where
  "lookup_invoke services path req =
     (case [h srv. (d, srv) \<leftarrow> services, (m, h) \<leftarrow> sd_Methods d, full_method d m = path] of
        [] \<Rightarrow> Inl (OtherError ''unknown method'')
      | h # _ \<Rightarrow> h (Inr req) None)"

interpretation bench_grpc: grpc_transport "lookup_invoke (RegisterBenchServiceServer [] srv)" "RegisterBenchServiceServer [] srv"
  by unfold_locales (auto simp: RegisterBenchServiceServer_def benchServiceDesc_def lookup_invoke_def)

section \<open>A call over gRPC\<close>

text \<open>
  A call of the gRPC client is answered with code 200 and the method of the request, by the
  connection whose turn it is, and a worker counts it as a success.
\<close>

lemma grpc_call_counts:
  assumes "\<forall>p \<in> set (gc_pairs c). grpc_transport (invoke p) (RegisterBenchServiceServer [] grpc_Call)"
    and "gc_pairs c \<noteq> []" and "length (gc_pairs c) < 2 ^ 64"
    and "grpc_SendRequest (\<lambda>p. BenchServiceClient_Call (invoke p)) meth body headers c = (x, c')"
  shows "x = Ok (Response_zero\<lparr>rs_Code := 200, rs_Method := meth\<rparr>) \<and> gc_cursor c' = gc_cursor c + 1 \<and> gc_pairs c' = gc_pairs c"
proof -
  let ?n = "word_of_nat (length (gc_pairs c)) :: u64"
  have n: "unat ?n = length (gc_pairs c)" using assms(3) by (simp add: unsigned_of_nat take_bit_nat_eq_self)
  with assms(2) have "?n \<noteq> 0" by (metis length_0_conv unat_0)
  moreover have "gc_pairs c ! unat (gc_cursor c mod ?n) \<in> set (gc_pairs c)"
    using assms(2) n by (simp add: unat_mod_distrib)
  moreover have "BenchServiceClient_Call (invoke p) req = grpc_Call req" if "p \<in> set (gc_pairs c)" for p req
    by (rule grpc_transport.client_reaches_server) (use assms(1) that in auto)
  ultimately show ?thesis using assms(4)
    by (auto simp: grpc_SendRequest_def Let_def grpc_Call_def)
qed

end
