(* ===== verification/Load_Session.thy ===== *)
theory Load_Session
  imports Load_Generator Grpc_Service
begin

text \<open>
  The goroutines of a load generator, \<open>stress_tester/internal/loader/loader.go\<close>: the caller, which goes
  through \<open>Start\<close>, \<open>Warmup\<close> and \<open>Run\<close>, and the loops of the workers, which share the clock, the context,
  the flag \<open>collecting\<close> and the collector. Each step is an action of the code: a look at the
  context and, if it is not done, the begin of a call; the end of a call, the load of the flag, the
  recording of a sample, the firing of a timer.

  Every sequence of steps leaves in the collector what \<open>run_load\<close> of \<open>Load_Generator\<close> computes for the
  rounds whose samples were recorded: the abstraction there is sound. But \<open>Run\<close> cancels the context
  that it then waits for, so that it does not wait for the workers, and the time it measures includes
  the warm-up.
\<close>

section \<open>The client\<close>

definition SystemQRPC :: string where
  "SystemQRPC = ''qrpc''"

definition SystemGRPC :: string where
  "SystemGRPC = ''grpc''"

text \<open>The two implementations of \<open>RPCClient\<close>: the wrapped client with its connections, and the one of gRPC.\<close>

datatype ('c, 'p) rpc_client = QrpcClient "'c list" | GrpcClient "'p grpc_client"

text \<open>
  \<open>tryInitClient\<close>, on the results of the dials of either system: \<open>None\<close> while a dial has not
  returned. Errors are returned without the text that the code puts before them.
\<close>

definition tryInitClient ::
    "load_config \<Rightarrow> ('key, 'cert) crypto \<Rightarrow> int \<Rightarrow> int \<Rightarrow> (nat \<Rightarrow> go_error + 'p) \<Rightarrow> (go_error + 'c) list \<Rightarrow>
     (go_error + ('c, 'p) rpc_client) option" where
  "tryInitClient cfg cr t t' dial dials =
     (if lc_System cfg = SystemGRPC then
        let tlsErr = (case GetGRPCTLSConfig cr t t' of Inl err \<Rightarrow> Some err | Inr _ \<Rightarrow> None)
        in (case fst (grpc_NewClient tlsErr dial (lc_Connections cfg)) of
              Inl err \<Rightarrow> Some (Inl err)
            | Inr client \<Rightarrow> Some (Inr (GrpcClient client)))
      else
        (case GetQuicTLSConfig cr t t' of
           Inl err \<Rightarrow> Some (Inl err)
         | Inr tlsCfg \<Rightarrow>
             (case NewClient (lc_Connections cfg) dials of
                None \<Rightarrow> None
              | Some (shut, Inl err) \<Rightarrow> Some (Inl err)
              | Some (shut, Inr qc) \<Rightarrow> Some (Inr (QrpcClient qc)))))"

text \<open>\<open>Close\<close> of the wrapper closes nothing.\<close>

definition wrapper_Close :: "go_error option" where
  "wrapper_Close = None"

fun connections :: "('c, 'p) rpc_client \<Rightarrow> nat" where
  "connections (QrpcClient qc) = length qc"
| "connections (GrpcClient c) = length (gc_pairs c)"

section \<open>State\<close>

text \<open>
  The loop of a goroutine: at the top; in a call, with the round it is in and its payload; after the
  call; after the flag was found set, before the sample is recorded; ended.
\<close>

datatype loop_state = AtTop | Calling round bytes | Returned round bytes | Recording round bytes | Exited

text \<open>The caller: before, in and after the warm-up; in the run; waiting for the workers; back from \<open>Run\<close>.\<close>

datatype main_phase = Started | Warming int | Warmed | Running int | Waiting | Finished int

record session =
  ls_now :: int
  ls_collecting :: bool
  ls_ctxDone :: bool
  ls_collector :: collector
  ls_loops :: "(int \<times> loop_state) list"
  ls_main :: main_phase

text \<open>\<open>New\<close> and \<open>Start\<close>, once the client is there: the timer starts, then the goroutines.\<close>

definition worker_loops :: "load_config \<Rightarrow> int \<Rightarrow> (int \<times> loop_state) list" where
  "worker_loops cfg ident =
     (let pipelining = (if lc_Pipelining cfg < 1 then 1 else lc_Pipelining cfg)
      in replicate (nat pipelining) (ident, AtTop))"

definition Start_session :: "load_config \<Rightarrow> int \<Rightarrow> collector \<Rightarrow> session" where
  "Start_session cfg now c =
     \<lparr>ls_now = now, ls_collecting = False, ls_ctxDone = False, ls_collector = StartTimer now c,
      ls_loops = concat (map (worker_loops cfg) [0..lc_Workers cfg - 1]), ls_main = Started\<rparr>"

section \<open>Steps\<close>

datatype session_event =
    Tick int
  | Cancelled
  | SendCall nat rng "nat \<Rightarrow> go_error + bytes"
  | ReturnCall nat "string + u32 option"
  | CheckFlag nat
  | RecordSample nat
  | ExitLoop nat
  | WarmupBegins
  | WarmupEnds
  | RunBegins
  | RunEnds
  | WaitEnds

text \<open>\<open>workerLoop\<close> of one goroutine, action by action. A payload that panics ends the process: no step.\<close>

definition loop_step ::
    "load_config \<Rightarrow> session \<Rightarrow> int \<Rightarrow> session_event \<Rightarrow> loop_state \<Rightarrow> (loop_state \<times> collector) option" where
  "loop_step cfg st ident ev l =
     (case (ev, l) of
        (ExitLoop _, AtTop) \<Rightarrow> if ls_ctxDone st then Some (Exited, ls_collector st) else None
      | (SendCall _ g rd, AtTop) \<Rightarrow>
          if ls_ctxDone st then None
          else (case nextPayload cfg rd g of
                  Ok payload \<Rightarrow>
                    Some (Calling \<lparr>rd_rng = g, rd_rand = rd, rd_start = ls_now st, rd_end = ls_now st,
                            rd_result = Inr None, rd_collecting = False\<rparr> payload, ls_collector st)
                | _ \<Rightarrow> None)
      | (ReturnCall _ res, Calling r payload) \<Rightarrow>
          Some (Returned (r\<lparr>rd_end := ls_now st, rd_result := res\<rparr>) payload, ls_collector st)
      | (CheckFlag _, Returned r payload) \<Rightarrow>
          Some (if ls_collecting st then Recording (r\<lparr>rd_collecting := True\<rparr>) payload else AtTop, ls_collector st)
      | (RecordSample _, Recording r payload) \<Rightarrow>
          Some (AtTop, Record (round_sample ident payload r) (ls_collector st))
      | _ \<Rightarrow> None)"

text \<open>\<open>Warmup\<close> and \<open>Run\<close>: the two selects on a timer and the context, and what follows them.\<close>

definition timer_fired :: "session \<Rightarrow> int \<Rightarrow> bool" where
  "timer_fired st t \<longleftrightarrow> ls_ctxDone st \<or> t \<le> ls_now st"

definition main_step :: "load_config \<Rightarrow> session_event \<Rightarrow> session \<Rightarrow> session option" where
  "main_step cfg ev st =
     (case (ev, ls_main st) of
        (WarmupBegins, Started) \<Rightarrow> Some (st\<lparr>ls_main := Warming (ls_now st + lc_Warmup cfg)\<rparr>)
      | (WarmupEnds, Warming t) \<Rightarrow>
          if timer_fired st t then Some (st\<lparr>ls_main := Warmed, ls_collecting := True\<rparr>) else None
      | (RunBegins, Warmed) \<Rightarrow> Some (st\<lparr>ls_main := Running (ls_now st + lc_Duration cfg)\<rparr>)
      | (RunEnds, Running t) \<Rightarrow>
          if timer_fired st t
          then Some (st\<lparr>ls_main := Waiting, ls_collecting := False, ls_ctxDone := True\<rparr>) else None
      | (WaitEnds, Waiting) \<Rightarrow>
          if (\<forall>l \<in> set (ls_loops st). snd l = Exited) \<or> ls_ctxDone st
          then Some (st\<lparr>ls_main := Finished (ls_now st), ls_collector := StopTimer (ls_now st) (ls_collector st)\<rparr>)
          else None
      | _ \<Rightarrow> None)"

fun loop_of :: "session_event \<Rightarrow> nat option" where
  "loop_of (SendCall i g rd) = Some i"
| "loop_of (ReturnCall i res) = Some i"
| "loop_of (CheckFlag i) = Some i"
| "loop_of (RecordSample i) = Some i"
| "loop_of (ExitLoop i) = Some i"
| "loop_of _ = None"

definition session_step :: "load_config \<Rightarrow> session_event \<Rightarrow> session \<Rightarrow> session option" where
  "session_step cfg ev st =
     (case ev of
        Tick t \<Rightarrow> if ls_now st \<le> t then Some (st\<lparr>ls_now := t\<rparr>) else None
      | Cancelled \<Rightarrow> Some (st\<lparr>ls_ctxDone := True\<rparr>)
      | _ \<Rightarrow>
          (case loop_of ev of
             None \<Rightarrow> main_step cfg ev st
           | Some i \<Rightarrow>
               if i < length (ls_loops st) then
                 let (ident, l) = ls_loops st ! i
                 in map_option (\<lambda>(l', c). st\<lparr>ls_loops := (ls_loops st)[i := (ident, l')], ls_collector := c\<rparr>)
                      (loop_step cfg st ident ev l)
               else None))"

text \<open>A sequence of steps, all of them possible.\<close>

fun session_run :: "load_config \<Rightarrow> session_event list \<Rightarrow> session \<Rightarrow> session option" where
  "session_run cfg [] st = Some st"
| "session_run cfg (ev # evs) st = Option.bind (session_step cfg ev st) (session_run cfg evs)"

section \<open>Invariant\<close>

text \<open>A round that a goroutine of a worker is in.\<close>

definition round_ok :: "load_config \<Rightarrow> int \<Rightarrow> int \<Rightarrow> int \<times> round \<Rightarrow> bool" where
  "round_ok cfg t0 now ir \<longleftrightarrow>
     (case ir of (i, r) \<Rightarrow> 0 \<le> i \<and> i < lc_Workers cfg \<and> t0 \<le> rd_start r \<and> rd_start r \<le> rd_end r \<and> rd_end r \<le> now)"

definition loop_ok :: "load_config \<Rightarrow> int \<Rightarrow> int \<Rightarrow> int \<times> loop_state \<Rightarrow> bool" where
  "loop_ok cfg t0 now l \<longleftrightarrow> (0 \<le> fst l \<and> fst l < lc_Workers cfg) \<and>
     (case snd l of
        Calling r p \<Rightarrow> round_ok cfg t0 now (fst l, r) \<and> nextPayload cfg (rd_rand r) (rd_rng r) = Ok p
      | Returned r p \<Rightarrow> round_ok cfg t0 now (fst l, r) \<and> nextPayload cfg (rd_rand r) (rd_rng r) = Ok p
      | Recording r p \<Rightarrow>
          round_ok cfg t0 now (fst l, r) \<and> nextPayload cfg (rd_rand r) (rd_rng r) = Ok p \<and> rd_collecting r
      | _ \<Rightarrow> True)"

text \<open>The collector holds the samples of the rounds \<open>rs\<close>.\<close>

definition recorded :: "load_config \<Rightarrow> int \<Rightarrow> collector \<Rightarrow> (int \<times> round) list \<Rightarrow> session \<Rightarrow> bool" where
  "recorded cfg t0 c rs st \<longleftrightarrow>
     (\<exists>c'. run_workers cfg rs (StartTimer t0 c) = Ok c' \<and>
        ls_collector st = (case ls_main st of Finished t \<Rightarrow> StopTimer t c' | _ \<Rightarrow> c')) \<and>
     (\<forall>ir \<in> set rs. round_ok cfg t0 (ls_now st) ir \<and> rd_collecting (snd ir))"

definition session_inv :: "load_config \<Rightarrow> int \<Rightarrow> collector \<Rightarrow> session \<Rightarrow> bool" where
  "session_inv cfg t0 c st \<longleftrightarrow>
     t0 \<le> ls_now st \<and> (\<forall>l \<in> set (ls_loops st). loop_ok cfg t0 (ls_now st) l) \<and> (\<exists>rs. recorded cfg t0 c rs st) \<and>
     (ls_main st = Waiting \<longrightarrow> ls_ctxDone st)"

text \<open>How far the clock is, while nobody cancels the context from outside.\<close>

definition paced :: "load_config \<Rightarrow> int \<Rightarrow> session \<Rightarrow> bool" where
  "paced cfg t0 st \<longleftrightarrow> t0 \<le> ls_now st \<and>
     (case ls_main st of
        Started \<Rightarrow> \<not> ls_ctxDone st
      | Warming t \<Rightarrow> \<not> ls_ctxDone st \<and> t0 + lc_Warmup cfg \<le> t
      | Warmed \<Rightarrow> \<not> ls_ctxDone st \<and> t0 + lc_Warmup cfg \<le> ls_now st
      | Running t \<Rightarrow> \<not> ls_ctxDone st \<and> t0 + lc_Warmup cfg + lc_Duration cfg \<le> t
      | Waiting \<Rightarrow> t0 + lc_Warmup cfg + lc_Duration cfg \<le> ls_now st
      | Finished t \<Rightarrow> t0 + lc_Warmup cfg + lc_Duration cfg \<le> t)"

section \<open>Lemmas\<close>

text \<open>Either client has the connections that the configuration asks for, at least one.\<close>

lemma dial_all_length: "dial_all n dials conns = Some (shut, Inr cs) \<Longrightarrow> length cs = length conns + n"
  by (induction n dials conns rule: dial_all.induct) auto

lemma grpc_dial_length: "grpc_dial dial i n ps = (Inr cs, shut) \<Longrightarrow> length cs = length ps + n"
  by (induction dial i n ps rule: grpc_dial.induct) (auto split: sum.splits)

lemma tryInitClient_connections:
  assumes "tryInitClient cfg cr t t' dial dials = Some (Inr client)"
  shows "int (connections client) = max 1 (lc_Connections cfg)"
  using assms
  by (auto simp: tryInitClient_def grpc_NewClient_def NewClient_def Let_def max_def
      dest!: dial_all_length grpc_dial_length split: if_splits sum.splits option.splits prod.splits)

lemma run_workers_append: "run_workers cfg (rs @ rs') c = obind (run_workers cfg rs c) (run_workers cfg rs')"
  by (induction cfg rs c rule: run_workers.induct) (simp_all add: obind_assoc)

lemma run_workers_snoc:
  assumes "run_workers cfg rs c = Ok c'" and "nextPayload cfg (rd_rand r) (rd_rng r) = Ok p" and "rd_collecting r"
  shows "run_workers cfg (rs @ [(i, r)]) c = Ok (Record (round_sample i p r) c')"
  using assms by (simp add: run_workers_append)

lemma run_workers_started: "run_workers cfg rs (StartTimer t0 c) = Ok c' \<Longrightarrow> co_started c' = t0"
proof -
  have "run_workers cfg rs c1 = Ok c' \<Longrightarrow> co_started c' = co_started c1" for c1
    by (induction rs arbitrary: c1) (auto simp: obind_eq_Ok Record_def split: if_splits)
  then show "run_workers cfg rs (StartTimer t0 c) = Ok c' \<Longrightarrow> co_started c' = t0" by (auto simp: StartTimer_def)
qed

lemma Record_StopTimer: "Record s (StopTimer t c) = StopTimer t (Record s c)"
  by (simp add: Record_def StopTimer_def)

lemma round_ok_later: "round_ok cfg t0 now ir \<Longrightarrow> now \<le> now' \<Longrightarrow> round_ok cfg t0 now' ir"
  by (auto simp: round_ok_def)

lemma loop_ok_later: "loop_ok cfg t0 now l \<Longrightarrow> now \<le> now' \<Longrightarrow> loop_ok cfg t0 now' l"
  by (auto simp: loop_ok_def intro: round_ok_later split: loop_state.splits)

text \<open>Recording a sample records its round.\<close>

lemma recorded_sample:
  assumes "recorded cfg t0 c rs st" and "loop_ok cfg t0 (ls_now st) (i, Recording r p)"
  shows "recorded cfg t0 c (rs @ [(i, r)]) (st\<lparr>ls_loops := ls, ls_collector := Record (round_sample i p r) (ls_collector st)\<rparr>)"
proof -
  obtain c' where c': "run_workers cfg rs (StartTimer t0 c) = Ok c'"
    "ls_collector st = (case ls_main st of Finished t \<Rightarrow> StopTimer t c' | _ \<Rightarrow> c')"
    using assms(1) by (auto simp: recorded_def)
  have r: "nextPayload cfg (rd_rand r) (rd_rng r) = Ok p" "rd_collecting r" "round_ok cfg t0 (ls_now st) (i, r)"
    using assms(2) by (simp_all add: loop_ok_def)
  from run_workers_snoc [OF c'(1) r(1,2), of i] c'(2) r(2,3) assms(1) show ?thesis
    by (auto simp: recorded_def Record_StopTimer split: main_phase.splits)
qed

lemma loop_step_ok:
  assumes "loop_step cfg st i ev l = Some (l', c')" and "loop_ok cfg t0 (ls_now st) (i, l)" and "t0 \<le> ls_now st"
  shows "loop_ok cfg t0 (ls_now st) (i, l') \<and>
    (c' = ls_collector st \<or> (\<exists>r p. l = Recording r p \<and> c' = Record (round_sample i p r) (ls_collector st)))"
  using assms
  by (auto simp: loop_step_def loop_ok_def round_ok_def split: session_event.splits loop_state.splits if_splits outcome.splits)

lemma main_step_ok:
  assumes "main_step cfg ev st = Some st'" and "recorded cfg t0 c rs st"
  shows "recorded cfg t0 c rs st' \<and> ls_now st' = ls_now st \<and> ls_loops st' = ls_loops st \<and> (ls_main st' = Waiting \<longrightarrow> ls_ctxDone st')"
  using assms
  by (auto simp: main_step_def recorded_def split: session_event.splits main_phase.splits if_splits)

lemma session_step_loop:
  assumes "loop_of ev = Some i" and "session_step cfg ev st = Some st'"
  obtains ident l l' c' where "i < length (ls_loops st)" and "ls_loops st ! i = (ident, l)"
    and "loop_step cfg st ident ev l = Some (l', c')"
    and "st' = st\<lparr>ls_loops := (ls_loops st)[i := (ident, l')], ls_collector := c'\<rparr>"
  using assms by (cases ev) (auto simp: session_step_def split: if_splits prod.splits)

lemma session_step_main:
  assumes "loop_of ev = None" and "session_step cfg ev st = Some st'"
  obtains (tick) t where "ev = Tick t" "ls_now st \<le> t" "st' = st\<lparr>ls_now := t\<rparr>"
  | (cancelled) "ev = Cancelled" "st' = st\<lparr>ls_ctxDone := True\<rparr>"
  | (main) "main_step cfg ev st = Some st'" "ev \<noteq> Cancelled"
proof -
  consider t where "ev = Tick t" | "ev = Cancelled" | "\<forall>t. ev \<noteq> Tick t" "ev \<noteq> Cancelled" by blast
  then show thesis
  proof cases
    case (1 t)
    with assms(2) show thesis by (intro tick) (auto simp: session_step_def split: if_splits)
  next
    case 2
    with assms(2) show thesis by (intro cancelled) (auto simp: session_step_def)
  next
    case 3
    with assms(1) have "session_step cfg ev st = main_step cfg ev st" by (cases ev) (simp_all add: session_step_def)
    with assms(2) 3 show thesis by (intro main) simp_all
  qed
qed

lemma session_step_inv:
  assumes inv: "session_inv cfg t0 c st" and e: "session_step cfg ev st = Some st'"
  shows "session_inv cfg t0 c st'"
proof (cases "loop_of ev")
  case None
  from None e show ?thesis
  proof (cases rule: session_step_main)
    case (tick t)
    with inv show ?thesis
      by (auto simp: session_inv_def recorded_def intro: loop_ok_later round_ok_later)
  next
    case cancelled
    with inv show ?thesis by (simp add: session_inv_def recorded_def)
  next
    case main
    with inv main_step_ok [OF main(1)] show ?thesis by (fastforce simp: session_inv_def)
  qed
next
  case (Some i)
  obtain ident l l' c' where i: "i < length (ls_loops st)" "ls_loops st ! i = (ident, l)"
    and s: "loop_step cfg st ident ev l = Some (l', c')"
    and st': "st' = st\<lparr>ls_loops := (ls_loops st)[i := (ident, l')], ls_collector := c'\<rparr>"
    by (rule session_step_loop [OF Some e])
  have l: "loop_ok cfg t0 (ls_now st) (ident, l)" using inv i by (metis nth_mem session_inv_def)
  have t0: "t0 \<le> ls_now st" and "\<exists>rs. recorded cfg t0 c rs st" using inv by (simp_all add: session_inv_def)
  then obtain rs where rs: "recorded cfg t0 c rs st" by blast
  note ok = loop_step_ok [OF s l t0]
  have "\<exists>rs. recorded cfg t0 c rs st'"
  proof (cases "c' = ls_collector st")
    case True
    with rs show ?thesis by (auto simp: st' recorded_def)
  next
    case False
    with ok obtain r p where "l = Recording r p" "c' = Record (round_sample ident p r) (ls_collector st)" by blast
    with recorded_sample [OF rs, of ident r p] l show ?thesis by (auto simp: st')
  qed
  moreover have "\<forall>x \<in> set ((ls_loops st)[i := (ident, l')]). loop_ok cfg t0 (ls_now st) x"
    using inv ok by (auto simp: session_inv_def dest!: set_update_subset_insert [THEN subsetD])
  ultimately show ?thesis using inv by (simp add: session_inv_def st')
qed

lemma session_step_paced:
  assumes p: "paced cfg t0 st" and e: "session_step cfg ev st = Some st'" and "ev \<noteq> Cancelled"
  shows "paced cfg t0 st'"
proof (cases "loop_of ev")
  case None
  from None e show ?thesis
  proof (cases rule: session_step_main)
    case (tick t)
    with p show ?thesis by (auto simp: paced_def split: main_phase.splits)
  next
    case main
    with p show ?thesis
      by (auto simp: paced_def main_step_def timer_fired_def split: session_event.splits main_phase.splits if_splits)
  qed (use assms(3) in simp)
next
  case (Some i)
  with p e show ?thesis by (auto elim!: session_step_loop simp: paced_def split: main_phase.splits)
qed

lemma session_run_ok:
  assumes "session_run cfg evs st = Some st'" and "session_inv cfg t0 c st"
  shows "session_inv cfg t0 c st'" and "paced cfg t0 st \<Longrightarrow> Cancelled \<notin> set evs \<Longrightarrow> paced cfg t0 st'"
  using assms
  by (induction evs arbitrary: st)
    (auto simp: bind_eq_Some_conv intro: session_step_inv session_step_paced)

lemma Start_session_ok: "session_inv cfg t0 c (Start_session cfg t0 c)" "paced cfg t0 (Start_session cfg t0 c)"
proof -
  have "recorded cfg t0 c [] (Start_session cfg t0 c)" by (simp add: recorded_def Start_session_def)
  moreover have "loop_ok cfg t0 t0 l" if "l \<in> set (ls_loops (Start_session cfg t0 c))" for l
    using that by (auto simp: Start_session_def worker_loops_def loop_ok_def Let_def split: if_splits)
  ultimately show "session_inv cfg t0 c (Start_session cfg t0 c)" "paced cfg t0 (Start_session cfg t0 c)"
    by (auto simp: session_inv_def paced_def) (simp_all add: Start_session_def)
qed

section \<open>Properties\<close>


text \<open>One worker that calls once in the run, of ten units after a warm-up of five.\<close>

definition short_config :: load_config where
  "short_config = load_config_zero\<lparr>lc_Workers := 1, lc_Warmup := 5, lc_Duration := 10, lc_Workload := WorkloadFixed, lc_PayloadSize := 4\<rparr>"

definition late_record :: "int \<Rightarrow> session_event list" where
  "late_record t0 =
     [WarmupBegins, Tick (t0 + 5), WarmupEnds, RunBegins, SendCall 0 demo_rng demo_rand, Tick (t0 + 15),
      ReturnCall 0 (Inr (Some 200)), CheckFlag 0, RunEnds, WaitEnds]"

lemma late_record_run:
  "\<exists>st r. session_run short_config (late_record t0) (Start_session short_config t0 c) = Some st \<and> ls_main st = Finished (t0 + 15) \<and>
     ls_loops st = [(0, Recording r [0, 1, 2, 3])] \<and> ls_collector st = StopTimer (t0 + 15) (StartTimer t0 c)"
  by (simp add: late_record_def Start_session_def short_config_def load_config_zero_def worker_loops_def session_step_def main_step_def
      loop_step_def timer_fired_def nextPayload_def makePayload_def counting_def WorkloadFixed_def upt_rec)


text \<open>
  C35. \<open>Run\<close> does not wait for its workers. When it has cancelled the context, it can always go on at
  once, whatever the goroutines are doing, because it waits for them or for that same context. So it
  returns while a goroutine, which has found the flag set, has not yet recorded its sample: the sample
  of a call that was answered in time is missing in the report, and the goroutine goes on to change
  the collector after \<open>Run\<close> has returned.
\<close>

theorem run_does_not_wait:
  "(\<forall>cfg evs t0 c st. session_run cfg evs (Start_session cfg t0 c) = Some st \<and> ls_main st = Waiting \<longrightarrow>
      (\<exists>st'. session_step cfg WaitEnds st = Some st' \<and> ls_loops st' = ls_loops st \<and> ls_main st' = Finished (ls_now st))) \<and>
    (\<exists>st st' s. session_run short_config (late_record t0) (Start_session short_config t0 c) = Some st \<and>
      ls_main st = Finished (t0 + 15) \<and> co_samples (ls_collector st) = co_samples c \<and>
      session_step short_config (RecordSample 0) st = Some st' \<and>
      co_samples (ls_collector st') = co_samples c @ [s])"
proof (intro conjI allI impI)
  fix cfg evs t0 c st
  assume r: "session_run cfg evs (Start_session cfg t0 c) = Some st \<and> ls_main st = Waiting"
  then have "session_run cfg evs (Start_session cfg t0 c) = Some st" ..
  from session_run_ok(1) [OF this Start_session_ok(1)] r have "ls_ctxDone st" by (simp add: session_inv_def)
  with r show "\<exists>st'. session_step cfg WaitEnds st = Some st' \<and> ls_loops st' = ls_loops st \<and> ls_main st' = Finished (ls_now st)"
    by (simp add: session_step_def main_step_def)
next
  obtain st r where st: "session_run short_config (late_record t0) (Start_session short_config t0 c) = Some st"
    "ls_main st = Finished (t0 + 15)" "ls_loops st = [(0, Recording r [0, 1, 2, 3])]"
    "ls_collector st = StopTimer (t0 + 15) (StartTimer t0 c)"
    using late_record_run by blast
  then show "\<exists>st st' s. session_run short_config (late_record t0) (Start_session short_config t0 c) = Some st \<and>
      ls_main st = Finished (t0 + 15) \<and> co_samples (ls_collector st) = co_samples c \<and>
      session_step short_config (RecordSample 0) st = Some st' \<and>
      co_samples (ls_collector st') = co_samples c @ [s]"
    by (auto simp: session_step_def loop_step_def StopTimer_def StartTimer_def Record_def)
qed

theorem run_does_not_wait_witness:
  "\<exists>st st'. session_run short_config (butlast (late_record 7)) (Start_session short_config 7 NewCollector) = Some st \<and>
    session_step short_config WaitEnds st = Some st' \<and> ls_main st' = Finished 22 \<and> (\<exists>l \<in> set (ls_loops st'). snd l \<noteq> Exited)"
proof -
  have "\<exists>st r. session_run short_config (butlast (late_record 7)) (Start_session short_config 7 NewCollector) = Some st \<and>
      ls_main st = Waiting \<and> ls_now st = 22 \<and> ls_loops st = [(0, Recording r [0, 1, 2, 3])]"
    by (simp add: late_record_def Start_session_def short_config_def load_config_zero_def worker_loops_def session_step_def
        main_step_def loop_step_def timer_fired_def nextPayload_def makePayload_def counting_def WorkloadFixed_def upt_rec)
  then obtain st r where st: "session_run short_config (butlast (late_record 7)) (Start_session short_config 7 NewCollector) = Some st"
    "ls_main st = Waiting" "ls_now st = 22" "ls_loops st = [(0, Recording r [0, 1, 2, 3])]" by blast
  with run_does_not_wait [THEN conjunct1, rule_format, of short_config "butlast (late_record 7)" 7 NewCollector st]
  show ?thesis by auto
qed

end
