(* ===== verification/Report_Files.thy ===== *)
theory Report_Files
  imports Metrics_Collector
begin

text \<open>
  The files of the collector, \<open>SaveJSON\<close> and \<open>SaveCSV\<close> of
  \<open>stress_tester/internal/metrics/collector.go\<close>. The operating system is a parameter, from the state
  of the file system to the new one, with the text of an error; so are \<open>filepath.Join\<close>, the JSON
  encoding of a report and the formatting of times. The rows of the CSV file and their encoding by
  \<open>encoding/csv\<close> are modelled; the reader at the end is the reference they are compared with.
\<close>

section \<open>Rows\<close>

definition csv_header :: "string list" where
  "csv_header = [''timestamp'', ''scenario'', ''profile'', ''system'',
     ''workers'', ''streams'', ''workload'', ''total'', ''success'', ''error'',
     ''success_rate'', ''rps'', ''avg_latency_ns'', ''min_latency_ns'',
     ''max_latency_ns'', ''p50_ns'', ''p90_ns'', ''p95_ns'', ''p99_ns'', ''p99_9_ns'']"

definition csv_report_row :: "string \<Rightarrow> report \<Rightarrow> string list" where
  "csv_report_row timestamp r =
     [timestamp, rp_Scenario r, rp_Profile r, rp_System r,
      Itoa (lc_Workers (rp_LoadConfig r)), Itoa (lc_Streams (rp_LoadConfig r)), lc_Workload (rp_LoadConfig r),
      Itoa (rp_TotalRequests r), Itoa (rp_SuccessCount r), Itoa (rp_ErrorCount r),
      Sprintf_f 4 (rp_SuccessRate r), Sprintf_f 2 (rp_RPS r),
      Itoa (rp_AvgLatency r), Itoa (rp_MinLatency r), Itoa (rp_MaxLatency r),
      Itoa (rp_P50 r), Itoa (rp_P90 r), Itoa (rp_P95 r), Itoa (rp_P99 r), Itoa (rp_P999 r)]"

definition csv_sample_row :: "(int \<Rightarrow> string) \<Rightarrow> sample \<Rightarrow> string list" where
  "csv_sample_row formatTime s =
     (let errStr = (if \<not> sa_Success s then sa_Error s else [])
      in [formatTime (sa_Start s), Itoa (sa_Duration s), Itoa (sa_QueueTime s), Itoa (sa_NetworkTime s),
          (if sa_Success s then ''true'' else ''false''), errStr, Itoa (sa_PayloadSize s), Itoa (sa_WorkerID s)])"

definition csv_rows :: "(int \<Rightarrow> string) \<Rightarrow> string \<Rightarrow> report \<Rightarrow> string list list" where
  "csv_rows formatTime timestamp r =
     [csv_header, csv_report_row timestamp r] @ map (csv_sample_row formatTime) (rp_RawSamples r)"

section \<open>The encoding\<close>

text \<open>\<open>csv.Writer.Write\<close> with the comma as separator.\<close>

definition fieldNeedsQuotes :: "string \<Rightarrow> bool" where
  "fieldNeedsQuotes field \<longleftrightarrow>
     field \<noteq> [] \<and>
     (field = [CHR 0x5C, CHR ''.''] \<or>
      (\<exists>c \<in> set field. c = CHR 0x0A \<or> c = CHR 0x0D \<or> c = CHR 0x22 \<or> c = CHR '','') \<or>
      (\<exists>sp \<in> set spaces. take (length sp) field = sp))"

definition csv_field :: "string \<Rightarrow> string" where
  "csv_field field =
     (if \<not> fieldNeedsQuotes field then field
      else [CHR 0x22] @ concat (map (\<lambda>c. if c = CHR 0x22 then [c, c] else [c]) field) @ [CHR 0x22])"

definition csv_line :: "string list \<Rightarrow> string" where
  "csv_line fs = Join (map csv_field fs) '','' @ newline"

definition csv_text :: "string list list \<Rightarrow> string" where
  "csv_text rows = concat (map csv_line rows)"

section \<open>Saving\<close>

datatype save_error = CreateOutputDir string | MarshalReport string | WriteReport string | CreateCSV string

record 'f os =
  os_MkdirAll :: "string \<Rightarrow> 'f \<Rightarrow> string option \<times> 'f"
  os_WriteFile :: "string \<Rightarrow> string \<Rightarrow> 'f \<Rightarrow> string option \<times> 'f"
  os_Create :: "string \<Rightarrow> 'f \<Rightarrow> string option \<times> 'f"
  os_Write :: "string \<Rightarrow> string \<Rightarrow> 'f \<Rightarrow> string option \<times> 'f"
  path_Join :: "string \<Rightarrow> string \<Rightarrow> string"

definition SaveJSON ::
    "'f os \<Rightarrow> (report \<Rightarrow> string + string) \<Rightarrow> report \<Rightarrow> string \<Rightarrow> string \<Rightarrow> 'f \<Rightarrow> (save_error + string) \<times> 'f" where
  "SaveJSON os MarshalIndent report outputDir prefix fs =
     (let outputDir = (if outputDir = [] then ''.'' else outputDir)
      in case os_MkdirAll os outputDir fs of
           (Some err, fs) \<Rightarrow> (Inl (CreateOutputDir err), fs)
         | (None, fs) \<Rightarrow>
             let filename = path_Join os outputDir (json_filename prefix report)
             in (case MarshalIndent report of
                   Inl err \<Rightarrow> (Inl (MarshalReport err), fs)
                 | Inr data \<Rightarrow>
                     (case os_WriteFile os filename data fs of
                        (Some err, fs) \<Rightarrow> (Inl (WriteReport err), fs)
                      | (None, fs) \<Rightarrow> (Inr filename, fs))))"

text \<open>
  The rows go through a buffer to the file that was created; the deferred \<open>Flush\<close> writes the rest,
  and an error of any of these writes is lost.
\<close>

definition SaveCSV ::
    "'f os \<Rightarrow> (int \<Rightarrow> string) \<Rightarrow> string \<Rightarrow> report \<Rightarrow> string \<Rightarrow> string \<Rightarrow> 'f \<Rightarrow> (save_error + string) \<times> 'f" where
  "SaveCSV os formatTime timestamp report outputDir prefix fs =
     (let outputDir = (if outputDir = [] then ''.'' else outputDir)
      in case os_MkdirAll os outputDir fs of
           (Some err, fs) \<Rightarrow> (Inl (CreateOutputDir err), fs)
         | (None, fs) \<Rightarrow>
             let filename = path_Join os outputDir (csv_filename prefix report)
             in (case os_Create os filename fs of
                   (Some err, fs) \<Rightarrow> (Inl (CreateCSV err), fs)
                 | (None, fs) \<Rightarrow>
                     (Inr filename, snd (os_Write os filename (csv_text (csv_rows formatTime timestamp report)) fs))))"

section \<open>The reader\<close>

text \<open>A reader of comma-separated rows, every one ended by a newline; \<open>None\<close> for other text.\<close>

datatype csv_state = FieldStart | Plain | Quoted | AfterQuote

fun csv_read_from :: "csv_state \<Rightarrow> string \<Rightarrow> string list \<Rightarrow> string list list \<Rightarrow> string \<Rightarrow> string list list option" where
  "csv_read_from st cur row rows [] = (if st = FieldStart \<and> row = [] then Some rows else None)"
| "csv_read_from st cur row rows (c # s) =
     (if st = Quoted then
        (if c = CHR 0x22 then csv_read_from AfterQuote cur row rows s
         else csv_read_from Quoted (cur @ [c]) row rows s)
      else if c = CHR '','' then csv_read_from FieldStart [] (row @ [cur]) rows s
      else if c = CHR 0x0A then csv_read_from FieldStart [] [] (rows @ [row @ [cur]]) s
      else if c = CHR 0x22 then
        (if st = FieldStart then csv_read_from Quoted [] row rows s
         else if st = AfterQuote then csv_read_from Quoted (cur @ [c]) row rows s
         else None)
      else if st = AfterQuote then None
      else csv_read_from Plain (cur @ [c]) row rows s)"

definition csv_read :: "string \<Rightarrow> string list list option" where
  "csv_read s = csv_read_from FieldStart [] [] [] s"

section \<open>Lemmas\<close>

lemma read_plain:
  assumes "\<forall>c \<in> set f. c \<noteq> CHR 0x0A \<and> c \<noteq> CHR 0x22 \<and> c \<noteq> CHR '',''" and "st = FieldStart \<or> st = Plain"
  shows "\<exists>st' \<in> {FieldStart, Plain}. csv_read_from st cur row rows (f @ s) = csv_read_from st' (cur @ f) row rows s"
  using assms
proof (induction f arbitrary: st cur)
  case (Cons c f)
  then show ?case using Cons.IH [of Plain "cur @ [c]"] by fastforce
qed auto

lemma read_quoted:
  "csv_read_from Quoted cur row rows (concat (map (\<lambda>c. if c = CHR 0x22 then [c, c] else [c]) f) @ s) =
   csv_read_from Quoted (cur @ f) row rows s"
  by (induction f arbitrary: cur) simp_all

lemma read_field:
  assumes "x = CHR '','' \<or> x = CHR 0x0A"
  shows "csv_read_from FieldStart [] row rows (csv_field f @ x # s) =
    (if x = CHR '','' then csv_read_from FieldStart [] (row @ [f]) rows s
     else csv_read_from FieldStart [] [] (rows @ [row @ [f]]) s)"
proof (cases "fieldNeedsQuotes f")
  case True
  have "csv_field f @ x # s =
      [CHR 0x22] @ concat (map (\<lambda>c. if c = CHR 0x22 then [c, c] else [c]) f) @ [CHR 0x22, x] @ s"
    using True by (simp add: csv_field_def)
  then show ?thesis using assms by (auto simp: read_quoted)
next
  case False
  then have "\<forall>c \<in> set f. c \<noteq> CHR 0x0A \<and> c \<noteq> CHR 0x22 \<and> c \<noteq> CHR '',''"
    by (auto simp: fieldNeedsQuotes_def)
  from read_plain [OF this, of FieldStart "[]" row rows "x # s"] False assms show ?thesis
    by (auto simp: csv_field_def)
qed

lemma read_line:
  assumes "fs \<noteq> []"
  shows "csv_read_from FieldStart [] row rows (csv_line fs @ s) = csv_read_from FieldStart [] [] (rows @ [row @ fs]) s"
  using assms
proof (induction fs arbitrary: row)
  case (Cons f fs)
  show ?case
  proof (cases fs)
    case Nil
    then show ?thesis by (simp add: csv_line_def newline_def read_field)
  next
    case (Cons g gs)
    then have "csv_line (f # fs) @ s = csv_field f @ CHR '','' # (csv_line fs @ s)" by (simp add: csv_line_def)
    then show ?thesis using Cons.IH [of "row @ [f]"] Cons by (simp add: read_field)
  qed
qed simp

lemma read_text:
  assumes "\<forall>fs \<in> set rs. fs \<noteq> []"
  shows "csv_read_from FieldStart [] [] rows (csv_text rs) = Some (rows @ rs)"
  using assms by (induction rs arbitrary: rows) (simp_all add: csv_text_def read_line)

lemma csv_rows_lengths:
  "map length (csv_rows formatTime timestamp r) = 20 # 20 # replicate (length (rp_RawSamples r)) 8"
  by (simp add: csv_rows_def csv_header_def csv_report_row_def csv_sample_row_def Let_def o_def map_replicate_const)

lemma csv_read_rows: "csv_read (csv_text (csv_rows formatTime timestamp r)) = Some (csv_rows formatTime timestamp r)"
  unfolding csv_read_def
  by (subst read_text)
    (auto simp: csv_rows_def csv_header_def csv_report_row_def csv_sample_row_def Let_def)

lemma SaveCSV_stages:
  assumes "SaveCSV os formatTime timestamp r dir prefix fs = (Inr file, fs')"
  shows "\<exists>fs0 fs1. os_Create os file fs0 = (None, fs1) \<and>
    fs' = snd (os_Write os file (csv_text (csv_rows formatTime timestamp r)) fs1)"
  using assms by (auto simp: SaveCSV_def Let_def split: prod.splits option.splits)

section \<open>Properties\<close>


text \<open>An example: files in memory.\<close>

definition memory_os :: "(string \<rightharpoonup> string) os" where
  "memory_os = \<lparr>os_MkdirAll = (\<lambda>d fs. (None, fs)), os_WriteFile = (\<lambda>p d fs. (None, fs(p \<mapsto> d))),
     os_Create = (\<lambda>p fs. (None, fs(p \<mapsto> []))),
     os_Write = (\<lambda>p d fs. (None, fs(p \<mapsto> (case fs p of None \<Rightarrow> [] | Some old \<Rightarrow> old) @ d))),
     path_Join = (\<lambda>d f. d @ ''/'' @ f)\<rparr>"

definition demo_report :: report where
  "demo_report = Report ''s,t'' ''clean'' ''qrpc'' load_config_zero True demo_collector"


end
