(* ===== verification/Net_Emulator.thy ===== *)
theory Net_Emulator
  imports Stress_Config
begin

text \<open>
  The network emulation of the stress tester, \<open>stress_tester/internal/netem/netem.go\<close>, which runs
  the command \<open>tc\<close>. The command is a parameter: from its arguments and the state of the system to
  its output, its error if it fails, and the new state. The locale \<open>tc_netem\<close> says what it does
  with the root queueing discipline of an interface.
\<close>

section \<open>Errors\<close>

text \<open>
  The sentinel, an error of \<open>exec\<close> with its text, and \<open>fmt.Errorf\<close> with one \<open>%w\<close> between a prefix
  and a suffix.
\<close>

datatype net_error = ErrNotPermitted | ExecError string | Wrap string net_error string

fun Error_text :: "net_error \<Rightarrow> string" where
  "Error_text ErrNotPermitted = ''operation not permitted''"
| "Error_text (ExecError s) = s"
| "Error_text (Wrap pre e post) = pre @ Error_text e @ post"

text \<open>\<open>errors.Is(err, ErrNotPermitted)\<close>, which follows the chain of wrapped errors.\<close>

fun Is_ErrNotPermitted :: "net_error \<Rightarrow> bool" where
  "Is_ErrNotPermitted ErrNotPermitted = True"
| "Is_ErrNotPermitted (ExecError s) = False"
| "Is_ErrNotPermitted (Wrap pre e post) = Is_ErrNotPermitted e"

text \<open>\<open>strings.Contains\<close>\<close>

fun Contains :: "string \<Rightarrow> string \<Rightarrow> bool" where
  "Contains [] sub = (sub = [])"
| "Contains (c # s) sub = (take (length sub) (c # s) = sub \<or> Contains s sub)"

section \<open>Operations\<close>

type_synonym 'k tc = "string list \<Rightarrow> 'k \<Rightarrow> string \<times> string option \<times> 'k"

definition runOutput :: "'k tc \<Rightarrow> string list \<Rightarrow> 'k \<Rightarrow> string \<times> net_error option \<times> 'k" where
  "runOutput tc args k = (let (out, err, k') = tc args k in (out, map_option ExecError err, k'))"

definition isNotPermitted :: "net_error option \<Rightarrow> bool" where
  "isNotPermitted err =
     (case err of None \<Rightarrow> False
      | Some e \<Rightarrow> Contains (Error_text e) ''Operation not permitted'' \<or>
          Contains (Error_text e) ''permission denied'')"

definition isNotPermittedOutput :: "string \<Rightarrow> bool" where
  "isNotPermittedOutput out = Contains out ''Operation not permitted''"

definition Clean :: "'k tc \<Rightarrow> string \<Rightarrow> 'k \<Rightarrow> net_error option \<times> 'k" where
  "Clean tc iface k =
     (case runOutput tc [''qdisc'', ''del'', ''dev'', iface, ''root''] k of
        (out, None, k) \<Rightarrow> (None, k)
      | (out, Some err, k) \<Rightarrow>
          (if Contains out ''RTNETLINK answers: No such file or directory'' \<or>
              Contains out ''Cannot delete qdisc with handle of zero'' then (None, k)
           else if isNotPermitted (Some err) \<or> isNotPermittedOutput out then (Some ErrNotPermitted, k)
           else (Some (Wrap ''clean netem: '' err ('': '' @ out)), k)))"

text \<open>The arguments that \<open>Apply\<close> builds.\<close>

definition apply_args :: "string \<Rightarrow> network_profile \<Rightarrow> string list" where
  "apply_args iface profile =
     [''qdisc'', ''add'', ''dev'', iface, ''root'', ''netem''] @
     (if np_Delay profile \<noteq> [] \<and> np_Delay profile \<noteq> ''0ms''
      then [''delay'', np_Delay profile] @
        (if np_Jitter profile \<noteq> [] \<and> np_Jitter profile \<noteq> ''0ms''
         then [np_Jitter profile] @
           (if np_Correlation profile > 0 then [Sprintf_f 2 (np_Correlation profile)] else [])
         else [])
      else []) @
     (if np_Loss profile > 0 then [''loss'', Sprintf_f 2 (np_Loss profile)] else []) @
     (if np_Rate profile \<noteq> [] then [''rate'', np_Rate profile] else [])"

definition Apply :: "'k tc \<Rightarrow> string \<Rightarrow> network_profile \<Rightarrow> 'k \<Rightarrow> net_error option \<times> 'k" where
  "Apply tc iface profile k =
     (case Clean tc iface k of
        (Some err, k) \<Rightarrow>
          (if isNotPermitted (Some err) then (Some ErrNotPermitted, k)
           else (Some (Wrap ''clean before apply: '' err []), k))
      | (None, k) \<Rightarrow>
          let args = apply_args iface profile
          in (case runOutput tc args k of
                (out, None, k) \<Rightarrow> (None, k)
              | (out, Some err, k) \<Rightarrow>
                  if Contains out ''RTNETLINK answers: File exists'' then
                    (case Clean tc iface k of
                       (Some err, k) \<Rightarrow> (Some (Wrap ''clean after conflict: '' err []), k)
                     | (None, k) \<Rightarrow>
                         (case runOutput tc args k of
                            (out, None, k) \<Rightarrow> (None, k)
                          | (out, Some err, k) \<Rightarrow> (Some (Wrap ''apply after retry: '' err ('': '' @ out)), k)))
                  else (Some (Wrap ''apply netem: '' err ('': '' @ out)), k)))"

definition Show :: "'k tc \<Rightarrow> string \<Rightarrow> 'k \<Rightarrow> (net_error + string) \<times> 'k" where
  "Show tc iface k =
     (case runOutput tc [''qdisc'', ''show'', ''dev'', iface] k of
        (out, Some err, k) \<Rightarrow> (Inl (Wrap ''show qdisc: '' err []), k)
      | (out, None, k) \<Rightarrow> (Inr out, k))"

section \<open>The command\<close>

text \<open>
  What \<open>tc\<close> does for a privileged user with the root discipline of the interface, \<open>disc k\<close> being
  the options of the netem discipline installed there: deleting removes it and fails with one of
  two messages if there is none; adding installs one where there is none, or fails (for instance
  because an option is invalid) and changes nothing.
\<close>

locale tc_netem =
  fixes tc :: "'k tc" and iface :: string and disc :: "'k \<Rightarrow> string list option"
  assumes del_installed: "disc k = Some d \<Longrightarrow>
      \<exists>out k'. tc [''qdisc'', ''del'', ''dev'', iface, ''root''] k = (out, None, k') \<and> disc k' = None"
    and del_missing: "disc k = None \<Longrightarrow>
      \<exists>out e k'. tc [''qdisc'', ''del'', ''dev'', iface, ''root''] k = (out, Some e, k') \<and> disc k' = None \<and>
        (Contains out ''RTNETLINK answers: No such file or directory'' \<or>
         Contains out ''Cannot delete qdisc with handle of zero'')"
    and add_missing: "disc k = None \<Longrightarrow>
      \<exists>out r k'. tc ([''qdisc'', ''add'', ''dev'', iface, ''root'', ''netem''] @ opts) k = (out, r, k') \<and>
        disc k' = (if r = None then Some opts else None)"
begin

lemma Clean_cleans: "\<exists>k'. Clean tc iface k = (None, k') \<and> disc k' = None"
proof (cases "disc k")
  case None
  from del_missing [OF this] show ?thesis by (auto simp: Clean_def runOutput_def)
next
  case (Some d)
  from del_installed [OF this] show ?thesis by (auto simp: Clean_def runOutput_def)
qed

lemma Apply_installs:
  "\<exists>r k'. Apply tc iface profile k = (r, k') \<and>
     disc k' = (if r = None then Some (drop 6 (apply_args iface profile)) else None)"
proof -
  let ?opts = "drop 6 (apply_args iface profile)"
  have args: "apply_args iface profile = [''qdisc'', ''add'', ''dev'', iface, ''root'', ''netem''] @ ?opts"
    by (simp add: apply_args_def)
  obtain k1 where c1: "Clean tc iface k = (None, k1)" "disc k1 = None" using Clean_cleans by blast
  obtain out r k2 where a1: "tc (apply_args iface profile) k1 = (out, r, k2)"
    "disc k2 = (if r = None then Some ?opts else None)"
    using add_missing [OF c1(2), of ?opts] args by metis
  obtain k3 where c2: "Clean tc iface k2 = (None, k3)" "disc k3 = None" using Clean_cleans by blast
  obtain out' r' k4 where a2: "tc (apply_args iface profile) k3 = (out', r', k4)"
    "disc k4 = (if r' = None then Some ?opts else None)"
    using add_missing [OF c2(2), of ?opts] args by metis
  show ?thesis
    using c1 a1 c2 a2
    by (cases r; cases r') (simp_all add: Apply_def runOutput_def Let_def)
qed

end

text \<open>
  An instance: a command that refuses options it does not know and otherwise keeps the options of
  the discipline.
\<close>

definition ref_tc :: "string \<Rightarrow> string list option tc" where
  "ref_tc iface args k =
     (if args = [''qdisc'', ''del'', ''dev'', iface, ''root''] then
        (case k of
           None \<Rightarrow> (''Error: Cannot delete qdisc with handle of zero.'', Some ''exit status 2'', None)
         | Some d \<Rightarrow> ([], None, None))
      else if take 6 args = [''qdisc'', ''add'', ''dev'', iface, ''root'', ''netem''] then
        (case k of
           None \<Rightarrow>
             if ''bad'' \<in> set (drop 6 args) then (''What is it?'', Some ''exit status 1'', None)
             else ([], None, Some (drop 6 args))
         | Some d \<Rightarrow> (''RTNETLINK answers: File exists'', Some ''exit status 2'', k))
      else (''usage'', Some ''exit status 255'', k))"

lemma Contains_zero: "Contains ''Error: Cannot delete qdisc with handle of zero.'' ''Cannot delete qdisc with handle of zero''"
  by simp

interpretation ref_tc: tc_netem "ref_tc iface" iface id
  by unfold_locales (simp_all add: ref_tc_def Contains_zero)

section \<open>Properties\<close>

text \<open>
  A user without the privilege: when \<open>tc\<close> refuses to delete the discipline, \<open>Apply\<close> does not
  return the sentinel \<open>ErrNotPermitted\<close> itself, as its own test for it intends: the test looks for
  the kernel's spelling in the text of the sentinel, which starts with a lower-case letter. The
  error wraps the sentinel, so that \<open>errors.Is\<close> still finds it, and no other command is run.
\<close>

theorem apply_not_permitted:
  assumes "tc [''qdisc'', ''del'', ''dev'', iface, ''root''] k = (out, Some e, k')"
    and "Contains out ''Operation not permitted'' \<or> Contains e ''Operation not permitted'' \<or>
      Contains e ''permission denied''"
    and "\<not> Contains out ''RTNETLINK answers: No such file or directory''"
    and "\<not> Contains out ''Cannot delete qdisc with handle of zero''"
  shows "Clean tc iface k = (Some ErrNotPermitted, k') \<and>
    Apply tc iface profile k = (Some (Wrap ''clean before apply: '' ErrNotPermitted []), k') \<and>
    Is_ErrNotPermitted (Wrap ''clean before apply: '' ErrNotPermitted [])"
proof -
  have c: "Clean tc iface k = (Some ErrNotPermitted, k')"
    using assms by (auto simp: Clean_def runOutput_def isNotPermitted_def isNotPermittedOutput_def)
  moreover have "\<not> isNotPermitted (Some ErrNotPermitted)" by (simp add: isNotPermitted_def)
  ultimately show ?thesis by (simp add: Apply_def)
qed

theorem apply_not_permitted_witness:
  "Apply (\<lambda>args k. (''RTNETLINK answers: Operation not permitted'', Some ''exit status 2'', k)) ''lo''
      (snd (DefaultProfiles ! 1)) (0 :: nat) =
    (Some (Wrap ''clean before apply: '' ErrNotPermitted []), 0)"
  using apply_not_permitted [of "\<lambda>args k. (''RTNETLINK answers: Operation not permitted'', Some ''exit status 2'', k)"
      "''lo''" "0 :: nat" "''RTNETLINK answers: Operation not permitted''" "''exit status 2''" 0 "snd (DefaultProfiles ! 1)"]
  by simp

end
