(* ===== verification/Scenario_Runner.thy ===== *)
theory Scenario_Runner
  imports Net_Emulator Load_Generator
begin

text \<open>
  The scenario runner of the stress tester, \<open>stress_tester/internal/scenarios/runner.go\<close>: it
  applies a network profile, runs the load generator, makes the report, and goes on to the next
  profile. The state of the system that \<open>tc\<close> changes is passed along. Writing the report to files
  and the log have no effect on what is modelled; their errors are only logged.
\<close>

section \<open>Data\<close>

record runner =
  rn_iface :: string
  rn_outputDir :: string
  rn_saveRaw :: bool
  rn_system :: string
  rn_serverAddr :: string

datatype run_error =
    UnknownScenario string
  | UnknownProfile string
  | StartLoader init_error

section \<open>Operations\<close>

definition NewRunner :: "string \<Rightarrow> string \<Rightarrow> bool \<Rightarrow> string \<Rightarrow> string \<Rightarrow> runner" where
  "NewRunner iface outputDir saveRaw system serverAddr =
     \<lparr>rn_iface = iface, rn_outputDir = outputDir, rn_saveRaw = saveRaw, rn_system = system, rn_serverAddr = serverAddr\<rparr>"

text \<open>
  \<open>runSingle\<close>. An error of \<open>Apply\<close> is only a warning. The deferred function cleans up when the
  loader does not start; \<open>netemActive = false\<close> keeps it from doing so after a successful run. A
  panic of a worker ends the process, without the deferred functions of other goroutines.
\<close>

definition runSingle ::
    "'k tc \<Rightarrow> runner \<Rightarrow> string \<Rightarrow> string \<Rightarrow> load_config \<Rightarrow> 'c load_run \<Rightarrow> 'k \<Rightarrow>
     (run_error + report) outcome \<times> 'k" where
  "runSingle tc rn scen profileName lc lr k =
     (case map_of DefaultProfiles profileName of
        None \<Rightarrow> (Ok (Inl (UnknownProfile profileName)), k)
      | Some profile \<Rightarrow>
          let (err, k) = Apply tc (rn_iface rn) profile k;
              lc = lc\<lparr>lc_System := rn_system rn\<rparr>
          in (case run_load lc lr NewCollector of
                Ok (Inl err) \<Rightarrow> (Ok (Inl (StartLoader err)), snd (Clean tc (rn_iface rn) k))
              | Ok (Inr collector) \<Rightarrow>
                  (Ok (Inr (Report scen profileName (rn_system rn) lc (rn_saveRaw rn) collector)), k)
              | Err e \<Rightarrow> (Err e, k)
              | Panic p \<Rightarrow> (Panic p, k)
              | Diverge \<Rightarrow> (Diverge, k)))"

text \<open>
  The loop of \<open>RunScenario\<close>: \<open>ctxDone i\<close> is what the context says before the \<open>i\<close>-th profile, \<open>runs i\<close>
  what happens while it is measured.
\<close>

fun scenario_loop ::
    "'k tc \<Rightarrow> runner \<Rightarrow> string \<Rightarrow> load_config \<Rightarrow> (nat \<Rightarrow> go_error option) \<Rightarrow> (nat \<Rightarrow> 'c load_run) \<Rightarrow> nat \<Rightarrow>
     string list \<Rightarrow> report list \<Rightarrow> 'k \<Rightarrow> (report list \<times> go_error option) outcome \<times> 'k" where
  "scenario_loop tc rn scen lc ctxDone runs i [] reports k = (Ok (reports, None), k)"
| "scenario_loop tc rn scen lc ctxDone runs i (p # ps) reports k =
     (case ctxDone i of
        Some err \<Rightarrow> (Ok (reports, Some err), k)
      | None \<Rightarrow>
          (case runSingle tc rn scen p lc (runs i) k of
             (Ok (Inl err), k) \<Rightarrow> scenario_loop tc rn scen lc ctxDone runs (Suc i) ps reports k
           | (Ok (Inr r), k) \<Rightarrow> scenario_loop tc rn scen lc ctxDone runs (Suc i) ps (reports @ [r]) k
           | (Err e, k) \<Rightarrow> (Err e, k)
           | (Panic p, k) \<Rightarrow> (Panic p, k)
           | (Diverge, k) \<Rightarrow> (Diverge, k)))"

text \<open>
  \<open>RunScenario\<close>: the reports and the error. When the context is done the loop returns at once; the
  final cleanup is only reached otherwise.
\<close>

definition RunScenario ::
    "'k tc \<Rightarrow> runner \<Rightarrow> string \<Rightarrow> string list \<Rightarrow> load_config \<Rightarrow> (nat \<Rightarrow> go_error option) \<Rightarrow> (nat \<Rightarrow> 'c load_run) \<Rightarrow>
     'k \<Rightarrow> (run_error + report list \<times> go_error option) outcome \<times> 'k" where
  "RunScenario tc rn scen profiles lc ctxDone runs k =
     (case map_of DefaultScenarios scen of
        None \<Rightarrow> (Ok (Inl (UnknownScenario scen)), k)
      | Some scenarioCfg \<Rightarrow>
          let profiles = (if length profiles = 0 then sc_Profiles scenarioCfg else profiles)
          in (case scenario_loop tc rn scen lc ctxDone runs 0 profiles [] k of
                (Ok (reports, Some err), k) \<Rightarrow> (Ok (Inr (reports, Some err)), k)
              | (Ok (reports, None), k) \<Rightarrow> (Ok (Inr (reports, None)), snd (Clean tc (rn_iface rn) k))
              | (Err e, k) \<Rightarrow> (Err e, k)
              | (Panic p, k) \<Rightarrow> (Panic p, k)
              | (Diverge, k) \<Rightarrow> (Diverge, k)))"

text \<open>
  The five entry points for single scenarios differ in the name only: \<open>RunBaselineLatency\<close>,
  \<open>RunConcurrencyStress\<close>, \<open>RunMultiplexStress\<close>, \<open>RunLossSensitivity\<close>, \<open>RunRTTScaling\<close>.
\<close>

type_synonym ('k, 'c) entry_point =
  "'k tc \<Rightarrow> runner \<Rightarrow> load_config option \<Rightarrow> (nat \<Rightarrow> go_error option) \<Rightarrow> (nat \<Rightarrow> 'c load_run) \<Rightarrow>
   'k \<Rightarrow> (run_error + report list \<times> go_error option) outcome \<times> 'k"

definition run_named :: "string \<Rightarrow> ('k, 'c) entry_point" where
  "run_named name tc rn lc ctxDone runs k =
     (let cfg = (case map_of DefaultScenarios name of
                   Some c \<Rightarrow> c
                 | None \<Rightarrow> \<lparr>sc_Description = [], sc_LoadConfig = load_config_zero, sc_Profiles = []\<rparr>);
          cfg = (case lc of None \<Rightarrow> cfg | Some lc \<Rightarrow> cfg\<lparr>sc_LoadConfig := lc\<rparr>)
      in RunScenario tc rn name (sc_Profiles cfg) (sc_LoadConfig cfg) ctxDone runs k)"

definition RunBaselineLatency :: "('k, 'c) entry_point" where
  "RunBaselineLatency = run_named ''baseline_latency''"

definition RunConcurrencyStress :: "('k, 'c) entry_point" where
  "RunConcurrencyStress = run_named ''concurrency_stress''"

definition RunMultiplexStress :: "('k, 'c) entry_point" where
  "RunMultiplexStress = run_named ''multiplex_stress''"

definition RunLossSensitivity :: "('k, 'c) entry_point" where
  "RunLossSensitivity = run_named ''loss_sensitivity''"

definition RunRTTScaling :: "('k, 'c) entry_point" where
  "RunRTTScaling = run_named ''rtt_scaling''"

section \<open>Lemmas\<close>

text \<open>A run of the generator in which no payload makes it panic.\<close>

definition rounds_ok :: "load_config \<Rightarrow> 'c load_run \<Rightarrow> bool" where
  "rounds_ok lc lr \<longleftrightarrow> (\<forall>(i, r) \<in> set (lr_rounds lr). \<exists>p. nextPayload lc (rd_rand r) (rd_rng r) = Ok p)"

lemma nextPayload_System [simp]: "nextPayload (lc\<lparr>lc_System := s\<rparr>) rd g = nextPayload lc rd g"
  by (simp add: nextPayload_def)

lemma run_workers_System [simp]: "run_workers (lc\<lparr>lc_System := s\<rparr>) rs = run_workers lc rs"
proof (induction rs)
  case (Cons ir rs)
  then show ?case by (intro ext, cases ir) simp
qed (simp add: fun_eq_iff)

lemma run_load_ok:
  assumes "rounds_ok lc lr"
  obtains (failed) e where "initClient lc (lr_try lr) (lr_ctxDone lr) = Inl e"
      "run_load (lc\<lparr>lc_System := s\<rparr>) lr NewCollector = Ok (Inl e)"
  | (collected) c client where "initClient lc (lr_try lr) (lr_ctxDone lr) = Inr client"
      "run_load (lc\<lparr>lc_System := s\<rparr>) lr NewCollector = Ok (Inr c)"
      "map sa_Success (co_samples c) =
        map (\<lambda>(i, r). rd_result r = Inr (Some 200)) (filter (rd_collecting \<circ> snd) (lr_rounds lr))"
proof -
  have ic: "initClient (lc\<lparr>lc_System := s\<rparr>) (lr_try lr) (lr_ctxDone lr) = initClient lc (lr_try lr) (lr_ctxDone lr)"
    by (simp add: initClient_def)
  show thesis
  proof (cases "initClient lc (lr_try lr) (lr_ctxDone lr)")
    case (Inl e)
    with failed ic show ?thesis by (simp add: run_load_def)
  next
    case (Inr client)
    obtain c where c: "run_workers lc (lr_rounds lr) (StartTimer (lr_started lr) NewCollector) = Ok c"
      using run_workers_total assms unfolding rounds_ok_def by blast
    from run_workers_samples [OF c] have "map sa_Success (co_samples (StopTimer (lr_stopped lr) c)) =
        map (\<lambda>(i, r). rd_result r = Inr (Some 200)) (filter (rd_collecting \<circ> snd) (lr_rounds lr))"
      by (simp add: StartTimer_def StopTimer_def NewCollector_def)
    with collected [OF Inr] c ic Inr show ?thesis by (simp add: run_load_def)
  qed
qed

text \<open>The calls of a run that were collected and answered with 200.\<close>

definition answered :: "'c load_run \<Rightarrow> int" where
  "answered lr = int (length (filter (\<lambda>(i, r). rd_collecting r \<and> rd_result r = Inr (Some 200)) (lr_rounds lr)))"

definition starts :: "load_config \<Rightarrow> 'c load_run \<Rightarrow> bool" where
  "starts lc lr \<longleftrightarrow> \<not> isl (initClient lc (lr_try lr) (lr_ctxDone lr))"

lemma answered_samples:
  assumes "map sa_Success ss = map (\<lambda>(i, r). rd_result r = Inr (Some 200)) (filter (rd_collecting \<circ> snd) (lr_rounds lr))"
  shows "int (length (filter sa_Success ss)) = answered lr"
proof -
  have "length (filter sa_Success ss) = length (filter id (map sa_Success ss))"
    by (simp add: filter_map o_def)
  also have "\<dots> = length (filter (\<lambda>(i, r). rd_collecting r \<and> rd_result r = Inr (Some 200)) (lr_rounds lr))"
    unfolding assms by (simp add: filter_map o_def case_prod_unfold conj_commute)
  finally show ?thesis by (simp add: answered_def)
qed

context tc_netem
begin

lemma runSingle_measures:
  assumes "map_of DefaultProfiles p = Some np" and "rounds_ok lc lr" and "rn_iface rn = iface"
  shows "if starts lc lr
    then \<exists>r k'. runSingle tc rn scen p lc lr k = (Ok (Inr r), k') \<and> rp_Profile r = p \<and>
      rp_SuccessCount r = answered lr \<and> k' = snd (Apply tc iface np k)
    else \<exists>e k'. runSingle tc rn scen p lc lr k = (Ok (Inl e), k') \<and> disc k' = None"
proof (cases rule: run_load_ok [OF assms(2), of "rn_system rn"])
  case (1 e)
  obtain a k1 where "Apply tc iface np k = (a, k1)" by (cases "Apply tc iface np k")
  with 1 assms Clean_cleans [of k1] show ?thesis by (auto simp: runSingle_def starts_def)
next
  case (2 c client)
  with assms show ?thesis
    by (auto simp: runSingle_def starts_def Report_fields answered_samples case_prod_unfold Let_def)
qed

lemma loop_runs:
  assumes "\<forall>p \<in> set ps. p \<in> dom (map_of DefaultProfiles)" and "\<forall>j. rounds_ok lc (runs j)" and "rn_iface rn = iface"
    and "\<forall>j. ctxDone j = None"
  shows "\<exists>rs k'. scenario_loop tc rn scen lc ctxDone runs i ps reports k = (Ok (reports @ rs, None), k') \<and>
    map (\<lambda>r. (rp_Profile r, rp_SuccessCount r)) rs =
      map (\<lambda>j. (ps ! j, answered (runs (i + j)))) (filter (\<lambda>j. starts lc (runs (i + j))) [0..<length ps])"
  using assms(1)
proof (induction ps arbitrary: i reports k)
  case (Cons p ps)
  then obtain np where np: "map_of DefaultProfiles p = Some np" by auto
  have run: "if starts lc (runs i)
    then \<exists>r k'. runSingle tc rn scen p lc (runs i) k = (Ok (Inr r), k') \<and> rp_Profile r = p \<and>
      rp_SuccessCount r = answered (runs i) \<and> k' = snd (Apply tc iface np k)
    else \<exists>e k'. runSingle tc rn scen p lc (runs i) k = (Ok (Inl e), k') \<and> disc k' = None"
    using runSingle_measures [OF np _ assms(3)] assms(2) by blast
  have upt: "[0..<length (p # ps)] = 0 # map Suc [0..<length ps]" by (simp add: upt_conv_Cons map_Suc_upt del: upt_Suc)
  have idx: "map (\<lambda>j. ((p # ps) ! j, answered (runs (i + j)))) (filter (\<lambda>j. starts lc (runs (i + j))) [0..<length (p # ps)]) =
    (if starts lc (runs i) then [(p, answered (runs i))] else []) @
    map (\<lambda>j. (ps ! j, answered (runs (Suc i + j)))) (filter (\<lambda>j. starts lc (runs (Suc i + j))) [0..<length ps])"
    unfolding upt by (simp add: filter_map o_def)
  show ?case
  proof (cases "starts lc (runs i)")
    case True
    with run obtain r k' where r: "runSingle tc rn scen p lc (runs i) k = (Ok (Inr r), k')"
      "rp_Profile r = p" "rp_SuccessCount r = answered (runs i)" by auto
    obtain rs k2 where "scenario_loop tc rn scen lc ctxDone runs (Suc i) ps (reports @ [r]) k' =
        (Ok ((reports @ [r]) @ rs, None), k2)"
      "map (\<lambda>r. (rp_Profile r, rp_SuccessCount r)) rs =
        map (\<lambda>j. (ps ! j, answered (runs (Suc i + j)))) (filter (\<lambda>j. starts lc (runs (Suc i + j))) [0..<length ps])"
      using Cons.IH [of "Suc i" "reports @ [r]" k'] Cons.prems by auto
    with r True show ?thesis
      unfolding idx by (intro exI [of _ "r # rs"] exI [of _ k2]) (simp add: spec [OF assms(4), of i])
  next
    case False
    with run obtain e k' where r: "runSingle tc rn scen p lc (runs i) k = (Ok (Inl e), k')" by auto
    with Cons.IH [of "Suc i" reports k'] Cons.prems False show ?thesis
      unfolding idx by (simp add: spec [OF assms(4), of i])
  qed
qed simp

end

section \<open>Properties\<close>

text \<open>
  A scenario that is not interrupted runs every profile once, in order: there is a report for
  each profile whose load generator could start, and it counts exactly the calls that were made
  while the generator collected and were answered with code 200. Afterwards the interface has no
  emulated network, whatever was installed before and whichever profiles could be applied.
\<close>

theorem scenario_reports:
  assumes "tc_netem tc (rn_iface rn) disc" and "map_of DefaultScenarios scen = Some sc"
    and "ps = (if profiles = [] then sc_Profiles sc else profiles)"
    and "\<forall>p \<in> set profiles. p \<in> dom (map_of DefaultProfiles)" and "\<forall>i. rounds_ok lc (runs i)"
    and "\<forall>i. ctxDone i = None"
  shows "\<exists>rs k'. RunScenario tc rn scen profiles lc ctxDone runs k = (Ok (Inr (rs, None)), k') \<and> disc k' = None \<and>
    map (\<lambda>r. (rp_Profile r, rp_SuccessCount r)) rs =
      map (\<lambda>i. (ps ! i, answered (runs i))) (filter (\<lambda>i. starts lc (runs i)) [0..<length ps])"
proof -
  have "\<forall>p \<in> set ps. p \<in> dom (map_of DefaultProfiles)"
    using assms(3,4) lookup_scenario_profiles [OF assms(2)] by (auto split: if_splits)
  from tc_netem.loop_runs [OF assms(1) this assms(5) refl assms(6), of scen 0 "[]" k]
  obtain rs k1 where l: "scenario_loop tc rn scen lc ctxDone runs 0 ps [] k = (Ok (rs, None), k1)"
    "map (\<lambda>r. (rp_Profile r, rp_SuccessCount r)) rs =
      map (\<lambda>i. (ps ! i, answered (runs i))) (filter (\<lambda>i. starts lc (runs i)) [0..<length ps])" by auto
  obtain k' where "Clean tc (rn_iface rn) k1 = (None, k')" "disc k' = None"
    using tc_netem.Clean_cleans [OF assms(1), of k1] by blast
  with l assms(2,3) show ?thesis by (simp add: RunScenario_def)
qed

text \<open>Two runs: in one the client cannot be created, in the other two of three calls count.\<close>

definition demo_round :: "string + u32 option \<Rightarrow> bool \<Rightarrow> round" where
  "demo_round res coll = \<lparr>rd_rng = demo_rng, rd_rand = demo_rand, rd_start = 5, rd_end = 9, rd_result = res,
     rd_collecting = coll\<rparr>"

definition demo_runs :: "nat \<Rightarrow> unit load_run" where
  "demo_runs i = \<lparr>lr_try = (\<lambda>k. if i = 0 then Inl (OtherError ''refused'') else Inr ()), lr_ctxDone = (\<lambda>k. None),
     lr_started = 0, lr_rounds = [(0, demo_round (Inr (Some 200)) False), (0, demo_round (Inr (Some 200)) True),
       (1, demo_round (Inl ''timeout'') True), (0, demo_round (Inr (Some 200)) True)], lr_stopped = 20\<rparr>"

definition demo_runner :: runner where
  "demo_runner = NewRunner ''lo'' ''results'' False ''qrpc'' ''127.0.0.1:8181''"

definition demo_load :: load_config where
  "demo_load = sc_LoadConfig (snd (DefaultScenarios ! 0))"

lemma demo_rounds_ok: "rounds_ok demo_load (demo_runs i)"
  by (simp add: rounds_ok_def demo_runs_def demo_round_def demo_load_def DefaultScenarios_def nextPayload_def
      makePayload_def)

lemma demo_starts: "starts demo_load (demo_runs i) \<longleftrightarrow> i \<noteq> 0" "answered (demo_runs i) = 2"
  by (simp_all add: starts_def demo_runs_def demo_load_def DefaultScenarios_def load_config_zero_def initClient_def
      answered_def demo_round_def)

lemma demo_scenario:
  "map_of DefaultScenarios ''baseline_latency'' = Some (snd (DefaultScenarios ! 0))"
  "sc_Profiles (snd (DefaultScenarios ! 0)) = [''clean'', ''wifi'', ''lte'']"
  by (simp_all add: DefaultScenarios_def)

lemma demo_iface: "tc_netem (ref_tc ''lo'') (rn_iface demo_runner) id" "rn_iface demo_runner = ''lo''"
  using ref_tc.tc_netem_axioms [of "''lo''"] by (simp_all add: demo_runner_def NewRunner_def)

theorem scenario_reports_witness:
  "\<exists>rs k'. RunScenario (ref_tc ''lo'') demo_runner ''baseline_latency'' [] demo_load (\<lambda>i. None) demo_runs
      (Some [''loss'', ''50.00'']) = (Ok (Inr (rs, None)), k') \<and> k' = None \<and>
    map (\<lambda>r. (rp_Profile r, rp_SuccessCount r)) rs = [(''wifi'', 2), (''lte'', 2)]"
proof -
  have "map (\<lambda>i. ([''clean'', ''wifi'', ''lte''] ! i, answered (demo_runs i)))
      (filter (\<lambda>i. starts demo_load (demo_runs i)) [0..<length [''clean'', ''wifi'', ''lte'']]) = [(''wifi'', 2), (''lte'', 2)]"
    by (simp add: demo_starts)
  with scenario_reports [OF demo_iface(1) demo_scenario(1), of "[''clean'', ''wifi'', ''lte'']" "[]" demo_load demo_runs
      "\<lambda>i. None" "Some [''loss'', ''50.00'']"] demo_rounds_ok
  show ?thesis by (simp add: demo_scenario(2))
qed

text \<open>
  An interrupted scenario leaves the emulated network in place: when the context is done after
  the first profile was measured, \<open>RunScenario\<close> returns its report with the context's error, and the
  discipline of that profile is still installed on the interface, since neither \<open>runSingle\<close> (which
  cleans up only if it fails) nor \<open>RunScenario\<close> removes it.
\<close>

theorem interrupted_scenario_leaves_netem:
  assumes "tc_netem tc (rn_iface rn) disc" and "map_of DefaultScenarios scen = Some sc"
    and "map_of DefaultProfiles p = Some np" and "rounds_ok lc (runs 0)" and "starts lc (runs 0)"
    and "Apply tc (rn_iface rn) np k = (None, k1)" and "ctxDone 0 = None" and "ctxDone 1 = Some err"
  shows "\<exists>r. RunScenario tc rn scen (p # q # ps) lc ctxDone runs k = (Ok (Inr ([r], Some err)), k1) \<and>
    rp_Profile r = p \<and> disc k1 = Some (drop 6 (apply_args (rn_iface rn) np))"
proof -
  obtain r where r: "runSingle tc rn scen p lc (runs 0) k = (Ok (Inr r), k1)" "rp_Profile r = p"
    using tc_netem.runSingle_measures [OF assms(1,3,4) refl, of scen k] assms(5,6) by auto
  have "disc k1 = Some (drop 6 (apply_args (rn_iface rn) np))"
    using tc_netem.Apply_installs [OF assms(1), of np k] assms(6) by auto
  with r assms(2,7,8) show ?thesis by (simp add: RunScenario_def)
qed

theorem interrupted_scenario_leaves_netem_witness:
  "\<exists>r. RunScenario (ref_tc ''lo'') demo_runner ''baseline_latency'' [''lte'', ''clean''] demo_load
      (\<lambda>i. if i = 0 then None else Some ContextCanceled) (\<lambda>i. demo_runs 1) None =
    (Ok (Inr ([r], Some ContextCanceled)), Some [''delay'', ''30ms'', ''10ms'', ''loss'', ''1.00'', ''rate'', ''50mbit'']) \<and>
    rp_Profile r = ''lte''"
proof -
  let ?np = "snd (DefaultProfiles ! 2)"
  have args: "apply_args ''lo'' ?np = [''qdisc'', ''add'', ''dev'', ''lo'', ''root'', ''netem'',
      ''delay'', ''30ms'', ''10ms'', ''loss'', ''1.00'', ''rate'', ''50mbit'']"
    by code_simp
  have "Apply (ref_tc ''lo'') ''lo'' ?np None = (None, Some (drop 6 (apply_args ''lo'' ?np)))"
    by (simp add: Apply_def Clean_def runOutput_def ref_tc_def Contains_zero args)
  then have ap: "Apply (ref_tc ''lo'') (rn_iface demo_runner) ?np None = (None, Some (drop 6 (apply_args ''lo'' ?np)))"
    by (simp add: demo_iface(2))
  have np: "map_of DefaultProfiles ''lte'' = Some ?np" by (simp add: DefaultProfiles_def)
  have st: "starts demo_load (demo_runs 1)" by (simp add: demo_starts)
  from interrupted_scenario_leaves_netem [OF demo_iface(1) demo_scenario(1) np demo_rounds_ok st ap,
      of "\<lambda>i. if i = 0 then None else Some ContextCanceled" ContextCanceled "''clean''" "[]"]
  show ?thesis by (auto simp: args)
qed

end
