(* ===== verification/Bench_Main.thy ===== *)
theory Bench_Main
  imports Scenario_Runner
begin

text \<open>
  The command line of the stress tester, \<open>stress_tester/main.go\<close>: the choice of the command, the
  benchmark with its overrides of the scenario's configuration, and the cleanup. The record
  \<open>bench_flags\<close> has the values of the flags after \<open>Parse\<close>; the package \<open>flag\<close> and the two servers'
  sockets are not modelled, and what is printed is in \<open>Bench_Summary\<close>. A signal is the context being
  done.
\<close>

section \<open>Commands\<close>

datatype command =
    CmdRun "string list"
  | CmdServer "string list"
  | CmdProfiles
  | CmdScenarios
  | CmdCleanup "string list"
  | CmdUsage int

text \<open>\<open>main\<close>, on \<open>os.Args\<close>; \<open>CmdUsage\<close> has the exit code.\<close>

definition main_command :: "string list \<Rightarrow> command" where
  "main_command args =
     (case args of
        prog # cmd # rest \<Rightarrow>
          if cmd = ''run'' then CmdRun rest
          else if cmd = ''server'' then CmdServer rest
          else if cmd = ''profiles'' then CmdProfiles
          else if cmd = ''scenarios'' then CmdScenarios
          else if cmd = ''cleanup'' then CmdCleanup rest
          else if cmd = ''help'' \<or> cmd = ''--help'' \<or> cmd = ''-h'' then CmdUsage 0
          else CmdUsage 1
      | _ \<Rightarrow> CmdUsage 1)"

text \<open>\<open>runCleanup\<close>: the exit code. A missing privilege is not an error.\<close>

definition runCleanup :: "'k tc \<Rightarrow> string \<Rightarrow> 'k \<Rightarrow> int \<times> 'k" where
  "runCleanup tc iface k =
     (case Clean tc iface k of
        (Some err, k) \<Rightarrow> if Is_ErrNotPermitted err then (0, k) else (1, k)
      | (None, k) \<Rightarrow> (0, k))"

section \<open>The benchmark\<close>

record bench_flags =
  bf_scenario :: string
  bf_profile :: string
  bf_system :: string
  bf_addr :: string
  bf_iface :: string
  bf_output :: string
  bf_raw :: bool
  bf_workers :: int
  bf_pipelining :: int
  bf_streams :: int
  bf_connections :: int
  bf_duration :: duration
  bf_warmup :: duration
  bf_payloadSize :: int
  bf_retryAttempts :: int
  bf_retryDelay :: duration

text \<open>The defaults of the flags.\<close>

definition default_flags :: bench_flags where
  "default_flags = \<lparr>bf_scenario = ''concurrency_stress'', bf_profile = ''clean'', bf_system = ''qrpc'',
     bf_addr = ''127.0.0.1:8081'', bf_iface = ''lo'', bf_output = ''results'', bf_raw = False, bf_workers = 0, bf_pipelining = 0, bf_streams = 0, bf_connections = 0,
     bf_duration = 0, bf_warmup = 0, bf_payloadSize = 0, bf_retryAttempts = 3, bf_retryDelay = 500 * Millisecond\<rparr>"

text \<open>\<open>strings.Split(s, ",")\<close>\<close>

fun Split_comma :: "string \<Rightarrow> string list" where
  "Split_comma [] = [[]]"
| "Split_comma (c # s) =
     (if c = CHR '','' then [] # Split_comma s
      else (case Split_comma s of p # ps \<Rightarrow> (c # p) # ps | [] \<Rightarrow> [[c]]))"

text \<open>\<open>strings.TrimSpace\<close>, which removes white space on both sides.\<close>

function trim_left :: "string list \<Rightarrow> string \<Rightarrow> string" where
  "trim_left sps s =
     (case find (\<lambda>sp. sp \<noteq> [] \<and> take (length sp) s = sp) sps of
        None \<Rightarrow> s
      | Some sp \<Rightarrow> trim_left sps (drop (length sp) s))"
  by pat_completeness auto
termination
proof (relation "measure (\<lambda>(sps, s). length s)")
  fix sps s sp
  assume "find (\<lambda>sp. sp \<noteq> [] \<and> take (length sp) s = sp) sps = Some sp"
  then have "sp \<noteq> []" "take (length sp) s = sp" by (auto simp: find_Some_iff)
  then show "((sps, drop (length sp) s), sps, s) \<in> measure (\<lambda>(sps, s). length s)" by (cases s) auto
qed simp

declare trim_left.simps [simp del]

definition TrimSpace :: "string \<Rightarrow> string" where
  "TrimSpace s = rev (trim_left (map rev spaces) (rev (trim_left spaces s)))"

text \<open>The overrides.\<close>

definition override :: "bench_flags \<Rightarrow> load_config \<Rightarrow> load_config" where
  "override f lc =
     (let lc = (if bf_workers f > 0 then lc\<lparr>lc_Workers := bf_workers f\<rparr> else lc);
          lc = (if bf_pipelining f > 0 then lc\<lparr>lc_Pipelining := bf_pipelining f\<rparr> else lc);
          lc = (if bf_streams f > 0 then lc\<lparr>lc_Streams := bf_streams f\<rparr> else lc);
          lc = (if bf_connections f > 0 then lc\<lparr>lc_Connections := bf_connections f\<rparr> else lc);
          lc = (if bf_duration f > 0 then lc\<lparr>lc_Duration := bf_duration f\<rparr> else lc);
          lc = (if bf_warmup f > 0 then lc\<lparr>lc_Warmup := bf_warmup f\<rparr> else lc);
          lc = (if bf_payloadSize f > 0
                then lc\<lparr>lc_PayloadSize := bf_payloadSize f, lc_Workload := WorkloadFixed\<rparr> else lc);
          lc = (if bf_retryAttempts f > 0 then lc\<lparr>lc_RetryAttempts := bf_retryAttempts f\<rparr> else lc)
      in if bf_retryDelay f > 0 then lc\<lparr>lc_RetryDelay := bf_retryDelay f\<rparr> else lc)"

datatype bench_end = Exited int | Summary "report list"

definition runBenchmark ::
    "'k tc \<Rightarrow> bench_flags \<Rightarrow> (nat \<Rightarrow> go_error option) \<Rightarrow> (nat \<Rightarrow> 'c load_run) \<Rightarrow> 'k \<Rightarrow> bench_end outcome \<times> 'k" where
  "runBenchmark tc f ctxDone runs k =
     (let profiles = map TrimSpace (Split_comma (bf_profile f))
      in case map_of DefaultScenarios (bf_scenario f) of
           None \<Rightarrow> (Ok (Exited 1), k)
         | Some sc \<Rightarrow>
             if \<exists>p \<in> set profiles. map_of DefaultProfiles p = None then (Ok (Exited 1), k)
             else
               let lc = override f (sc_LoadConfig sc);
                   rn = NewRunner (bf_iface f) (bf_output f) (bf_raw f) (bf_system f) (bf_addr f)
               in (case RunScenario tc rn (bf_scenario f) profiles lc ctxDone runs k of
                     (Ok (Inl err), k) \<Rightarrow> (Ok (Exited 1), k)
                   | (Ok (Inr (reports, Some err)), k) \<Rightarrow> (Ok (Exited 1), k)
                   | (Ok (Inr (reports, None)), k) \<Rightarrow> (Ok (Summary reports), k)
                   | (Err e, k) \<Rightarrow> (Err e, k)
                   | (Panic p, k) \<Rightarrow> (Panic p, k)
                   | (Diverge, k) \<Rightarrow> (Diverge, k)))"

section \<open>Lemmas\<close>

lemma Split_comma_nonempty: "Split_comma s \<noteq> []"
  by (induction s) (auto split: list.splits)

lemma trim_left_idem: "trim_left sps (trim_left sps s) = trim_left sps s"
proof (induction sps s rule: trim_left.induct)
  case (1 sps s)
  show ?case
  proof (cases "find (\<lambda>sp. sp \<noteq> [] \<and> take (length sp) s = sp) sps")
    case None
    then have "trim_left sps s = s" by (simp add: trim_left.simps [of sps s])
    then show ?thesis by simp
  next
    case (Some sp)
    then have "trim_left sps s = trim_left sps (drop (length sp) s)" by (simp add: trim_left.simps [of sps s])
    with 1 [OF Some] show ?thesis by simp
  qed
qed

context tc_netem
begin

lemma runCleanup_cleans: "\<exists>k'. runCleanup tc iface k = (0, k') \<and> disc k' = None"
  using Clean_cleans [of k] by (auto simp: runCleanup_def)

end

text \<open>
  A configuration that cannot make the generator panic: what an override leaves of it. With a
  payload size the workload becomes fixed, whatever it was.
\<close>

definition valid_load :: "load_config \<Rightarrow> bool" where
  "valid_load lc \<longleftrightarrow> (lc_Workload lc = WorkloadFixed \<longrightarrow> 0 \<le> lc_PayloadSize lc) \<and>
     (lc_Workload lc = WorkloadRandom \<longrightarrow> 0 \<le> lc_MinPayload lc \<and> lc_MinPayload lc \<le> lc_MaxPayload lc)"

lemma valid_load_override: "valid_load lc \<Longrightarrow> valid_load (override f lc)"
  by (auto simp: valid_load_def override_def Let_def WorkloadFixed_def WorkloadRandom_def)

lemma valid_load_default: "map_of DefaultScenarios n = Some sc \<Longrightarrow> valid_load (sc_LoadConfig sc)"
  by (auto simp: valid_load_def DefaultScenarios_def WorkloadFixed_def WorkloadRandom_def WorkloadMixed_def
      split: if_splits)

lemma valid_load_payload:
  assumes "valid_load lc" and "fills rd" and "in_range g"
  shows "\<exists>p. nextPayload lc rd g = Ok p"
proof -
  consider "lc_Workload lc = WorkloadFixed" | "lc_Workload lc = WorkloadRandom" | "lc_Workload lc = WorkloadMixed"
    | "lc_Workload lc \<notin> {WorkloadFixed, WorkloadRandom, WorkloadMixed}" by blast
  then show ?thesis
  proof cases
    case 4
    with makePayload_length [OF assms(2), of 1024] show ?thesis by (auto simp: nextPayload_def)
  qed (use assms nextPayload_fixed [of lc rd g] nextPayload_random [of lc rd g] nextPayload_mixed [of lc rd g]
      in \<open>auto simp: valid_load_def\<close>)
qed

lemma rounds_ok_valid:
  assumes "valid_load lc" and "\<forall>(w, r) \<in> set (lr_rounds lr). fills (rd_rand r) \<and> in_range (rd_rng r)"
  shows "rounds_ok lc lr"
  using assms valid_load_payload [OF assms(1)] by (fastforce simp: rounds_ok_def)

section \<open>Properties\<close>



end
