(* ===== verification/Run_All.thy ===== *)
theory Run_All
  imports Bench_Main "HOL-Library.List_Lexorder" "HOL-Library.Char_ord"
begin

text \<open>
  The program that runs all benchmarks, \<open>runall_stress/main.go\<close>: the commands it runs, the results
  it reads back, and the table of cells that the heat map, the summary table and the console
  summary show. Figures are \<open>float64\<close> values, only compared here; the page, the colours and the
  console output are in \<open>Heat_Map\<close>. The processes that it starts are in \<open>Run_All_Main\<close>.
\<close>

section \<open>The runs\<close>

definition ra_profiles :: "string list" where
  "ra_profiles = [''clean'', ''wifi'', ''lte'', ''bad_lte'', ''extreme'']"

definition payloadSizes :: "string list" where
  "payloadSizes = [''100'', ''4000'']"

definition connectionCounts :: "int list" where
  "connectionCounts = [1, 16]"

definition ra_scenarios :: "string list" where
  "ra_scenarios = [''baseline_latency'', ''concurrency_stress'', ''multiplex_stress'', ''loss_sensitivity'', ''rtt_scaling'']"

definition run_args :: "string \<Rightarrow> string \<Rightarrow> int \<Rightarrow> string \<Rightarrow> string \<Rightarrow> string \<Rightarrow> string list" where
  "run_args benchBin resultsDir conn sc prof pay =
     [''sudo'', benchBin, ''run'', ''-scenario'', sc, ''-profile'', prof, ''-payload-size'', pay, ''-streams'', ''16'',
      ''-connections'', Itoa conn, ''-pipelining'', ''64'', ''-duration'', ''10s'', ''-warmup'', ''3s'',
      ''-addr'', ''127.0.0.1:8181'', ''-output'', resultsDir]"

definition runall_commands :: "string \<Rightarrow> string \<Rightarrow> string list list" where
  "runall_commands benchBin resultsDir =
     concat (map (\<lambda>conn. concat (map (\<lambda>sc. concat (map (\<lambda>prof.
       map (run_args benchBin resultsDir conn sc prof) payloadSizes) ra_profiles)) ra_scenarios)) connectionCounts)"

text \<open>What \<open>run\<close> makes of these arguments.\<close>

definition runall_flags :: "int \<Rightarrow> string \<Rightarrow> string \<Rightarrow> int \<Rightarrow> bench_flags" where
  "runall_flags conn sc prof pay =
     default_flags\<lparr>bf_scenario := sc, bf_profile := prof, bf_payloadSize := pay, bf_streams := 16, bf_addr := ''127.0.0.1:8181'',
       bf_connections := conn, bf_pipelining := 64, bf_duration := 10 * Second, bf_warmup := 3 * Second\<rparr>"

section \<open>The results\<close>

text \<open>The fields of a result file that are used, with \<open>load_config["payload_size"]\<close> if it is there.\<close>

record result =
  rs_scenario :: string
  rs_profile :: string
  rs_TotalRequests :: int
  rs_SuccessRate :: float64
  rs_RPS :: float64
  rs_AvgLatency :: int
  rs_P50 :: int
  rs_P95 :: int
  rs_P99 :: int
  rs_payload :: "float64 option"

definition HasPrefix :: "string \<Rightarrow> string \<Rightarrow> bool" where
  "HasPrefix s pre \<longleftrightarrow> take (length pre) s = pre"

definition HasSuffix :: "string \<Rightarrow> string \<Rightarrow> bool" where
  "HasSuffix s suf \<longleftrightarrow> length suf \<le> length s \<and> drop (length s - length suf) s = suf"

text \<open>
  \<open>loadResults\<close>, on what \<open>ReadDir\<close> returns (the names in order, each with what \<open>ReadFile\<close> returns);
  \<open>Unmarshal\<close> is the decoder of \<open>encoding/json\<close>.
\<close>

definition loadResults ::
    "(bytes \<Rightarrow> result option) \<Rightarrow> (string \<times> bytes option) list option \<Rightarrow> result list" where
  "loadResults Unmarshal entries =
     (case entries of
        None \<Rightarrow> []
      | Some es \<Rightarrow>
          concat (map (\<lambda>(name, file).
            if \<not> HasPrefix name ''bench_'' \<or> \<not> HasSuffix name ''.json'' then []
            else (case file of
                    None \<Rightarrow> []
                  | Some data \<Rightarrow> (case Unmarshal data of None \<Rightarrow> [] | Some r \<Rightarrow> [r]))) es))"

section \<open>The table\<close>

type_synonym groups = "string \<rightharpoonup> string \<rightharpoonup> string \<rightharpoonup> result"

definition group_add :: "result \<Rightarrow> groups \<Rightarrow> groups outcome" where
  "group_add r grouped =
     (let bySc = (case grouped (rs_scenario r) of None \<Rightarrow> Map.empty | Some g \<Rightarrow> g);
          byProf = (case bySc (rs_profile r) of None \<Rightarrow> Map.empty | Some g \<Rightarrow> g)
      in case rs_payload r of
           None \<Rightarrow> Panic TypeAssertion
         | Some x \<Rightarrow>
             let pay = Itoa (int_of_float x)
             in Ok (grouped(rs_scenario r \<mapsto> bySc(rs_profile r \<mapsto> byProf(pay \<mapsto> r)))))"

fun group_all :: "result list \<Rightarrow> groups \<Rightarrow> groups outcome" where
  "group_all [] grouped = Ok grouped"
| "group_all (r # rs) grouped = obind (group_add r grouped) (group_all rs)"

text \<open>\<open>grouped[sc][prof][pay]\<close>, reading nil maps as empty.\<close>

definition group_get :: "groups \<Rightarrow> string \<Rightarrow> string \<Rightarrow> string \<Rightarrow> result option" where
  "group_get grouped sc prof pay =
     (case grouped sc of None \<Rightarrow> None
      | Some g \<Rightarrow> (case g prof of None \<Rightarrow> None | Some h \<Rightarrow> h pay))"

record cell =
  ce_Payload :: string
  ce_Profile :: string
  ce_RPS :: float64
  ce_P95 :: int
  ce_P50 :: int
  ce_P99 :: int
  ce_Avg :: int
  ce_Success :: float64
  ce_Total :: int
  ce_HasData :: bool

record scenario_data =
  sd_Name :: string
  sd_Cells :: "cell list"
  sd_MaxRPS :: float64
  sd_MaxP95 :: int

definition cell_zero :: cell where
  "cell_zero = \<lparr>ce_Payload = [], ce_Profile = [], ce_RPS = 0, ce_P95 = 0, ce_P50 = 0, ce_P99 = 0, ce_Avg = 0,
     ce_Success = 0, ce_Total = 0, ce_HasData = False\<rparr>"

definition make_cell :: "string \<Rightarrow> string \<Rightarrow> result option \<Rightarrow> cell" where
  "make_cell prof pay r =
     (let c = cell_zero\<lparr>ce_Payload := pay, ce_Profile := prof\<rparr>
      in case r of
           None \<Rightarrow> c
         | Some r \<Rightarrow> c\<lparr>ce_HasData := True, ce_RPS := rs_RPS r, ce_P95 := rs_P95 r, ce_P50 := rs_P50 r,
             ce_P99 := rs_P99 r, ce_Avg := rs_AvgLatency r, ce_Success := rs_SuccessRate r,
             ce_Total := rs_TotalRequests r\<rparr>)"

definition add_cell :: "groups \<Rightarrow> string \<times> string \<Rightarrow> scenario_data \<Rightarrow> scenario_data" where
  "add_cell grouped pp sd =
     (let r = group_get grouped (sd_Name sd) (fst pp) (snd pp);
          c = make_cell (fst pp) (snd pp) r;
          sd = (case r of
                  None \<Rightarrow> sd
                | Some r \<Rightarrow>
                    let sd = (if rs_RPS r > sd_MaxRPS sd then sd\<lparr>sd_MaxRPS := rs_RPS r\<rparr> else sd)
                    in if rs_P95 r > sd_MaxP95 sd then sd\<lparr>sd_MaxP95 := rs_P95 r\<rparr> else sd)
      in sd\<lparr>sd_Cells := sd_Cells sd @ [c]\<rparr>)"

definition cell_keys :: "(string \<times> string) list" where
  "cell_keys = concat (map (\<lambda>prof. map (\<lambda>pay. (prof, pay)) payloadSizes) ra_profiles)"

definition scenario_table :: "groups \<Rightarrow> string \<Rightarrow> scenario_data" where
  "scenario_table grouped sc =
     fold (add_cell grouped) cell_keys \<lparr>sd_Name = sc, sd_Cells = [], sd_MaxRPS = 0, sd_MaxP95 = 0\<rparr>"

text \<open>\<open>generateReport\<close> up to the rendering; \<open>None\<close> when there are no results.\<close>

definition generateReport :: "result list \<Rightarrow> scenario_data list option outcome" where
  "generateReport reports =
     (if length reports = 0 then Ok None
      else obind (group_all reports Map.empty)
        (\<lambda>grouped. Ok (Some (map (scenario_table grouped) ra_scenarios))))"

text \<open>The cell that \<open>renderScenario\<close> shows, and the figures of the summaries.\<close>

definition find_cell :: "string \<Rightarrow> string \<Rightarrow> scenario_data \<Rightarrow> cell" where
  "find_cell prof pay sd =
     (case find (\<lambda>c. ce_Payload c = pay \<and> ce_Profile c = prof) (sd_Cells sd) of None \<Rightarrow> cell_zero | Some c \<Rightarrow> c)"

definition best_rps :: "string \<Rightarrow> scenario_data \<Rightarrow> float64" where
  "best_rps prof sd =
     fold (\<lambda>c best. if ce_Profile c = prof \<and> ce_HasData c \<and> ce_RPS c > best then ce_RPS c else best) (sd_Cells sd) 0"

definition worst_p95 :: "string \<Rightarrow> scenario_data \<Rightarrow> int" where
  "worst_p95 prof sd =
     fold (\<lambda>c worst. if ce_Profile c = prof \<and> ce_HasData c \<and> ce_P95 c > worst then ce_P95 c else worst) (sd_Cells sd) 0"

section \<open>Lemmas\<close>

definition result_key :: "result \<Rightarrow> string \<times> string \<times> string" where
  "result_key r = (rs_scenario r, rs_profile r, Itoa (int_of_float (the (rs_payload r))))"

lemma group_add_get:
  assumes "rs_payload r \<noteq> None"
  shows "\<exists>g'. group_add r g = Ok g' \<and>
    (\<forall>sc prof pay. group_get g' sc prof pay = (if result_key r = (sc, prof, pay) then Some r else group_get g sc prof pay))"
  using assms by (auto simp: group_add_def group_get_def result_key_def Let_def split: option.splits)

lemma find_snoc: "find P (xs @ [x]) = (case find P xs of Some y \<Rightarrow> Some y | None \<Rightarrow> if P x then Some x else None)"
  by (induction xs) auto

text \<open>Of several results with the same key the last one stays.\<close>

lemma group_all_get:
  assumes "\<forall>r \<in> set rs. rs_payload r \<noteq> None"
  shows "\<exists>g'. group_all rs g = Ok g' \<and>
    (\<forall>sc prof pay. group_get g' sc prof pay =
       (case find (\<lambda>r. result_key r = (sc, prof, pay)) (rev rs) of Some r \<Rightarrow> Some r | None \<Rightarrow> group_get g sc prof pay))"
  using assms
proof (induction rs arbitrary: g)
  case (Cons r rs)
  obtain g1 where g1: "group_add r g = Ok g1" "\<And>sc prof pay. group_get g1 sc prof pay =
      (if result_key r = (sc, prof, pay) then Some r else group_get g sc prof pay)"
    using group_add_get [of r g] Cons.prems by auto
  obtain g' where g': "group_all rs g1 = Ok g'" "\<And>sc prof pay. group_get g' sc prof pay =
      (case find (\<lambda>r. result_key r = (sc, prof, pay)) (rev rs) of Some r \<Rightarrow> Some r | None \<Rightarrow> group_get g1 sc prof pay)"
    using Cons.IH [of g1] Cons.prems by auto
  have "group_get g' sc prof pay =
      (case find (\<lambda>r. result_key r = (sc, prof, pay)) (rev (r # rs)) of Some r \<Rightarrow> Some r | None \<Rightarrow> group_get g sc prof pay)"
    for sc prof pay
    unfolding g'(2) g1(2) rev.simps(2) find_snoc
    by (cases "find (\<lambda>r. result_key r = (sc, prof, pay)) (rev rs)") simp_all
  with g1(1) g'(1) show ?case by simp
qed (simp add: group_get_def)

lemma scenario_table_cells:
  "sd_Cells (scenario_table g sc) = map (\<lambda>(prof, pay). make_cell prof pay (group_get g sc prof pay)) cell_keys"
proof -
  have "sd_Cells (fold (add_cell g) ks sd) =
      sd_Cells sd @ map (\<lambda>(prof, pay). make_cell prof pay (group_get g (sd_Name sd) prof pay)) ks" for ks sd
  proof (induction ks arbitrary: sd)
    case (Cons k ks)
    have "sd_Name (add_cell g k sd) = sd_Name sd"
      "sd_Cells (add_cell g k sd) = sd_Cells sd @ [make_cell (fst k) (snd k) (group_get g (sd_Name sd) (fst k) (snd k))]"
      by (simp_all add: add_cell_def Let_def split: option.splits)
    with Cons.IH [of "add_cell g k sd"] show ?case by (simp add: case_prod_unfold)
  qed simp
  then show ?thesis by (simp add: scenario_table_def)
qed

lemma scenario_table_name: "sd_Name (scenario_table g sc) = sc"
proof -
  have "sd_Name (fold (add_cell g) ks sd) = sd_Name sd" for ks sd
    by (induction ks arbitrary: sd) (simp_all add: add_cell_def Let_def split: option.splits)
  then show ?thesis by (simp add: scenario_table_def)
qed

lemma make_cell_key [simp]: "ce_Payload (make_cell prof pay r) = pay" "ce_Profile (make_cell prof pay r) = prof"
  by (simp_all add: make_cell_def cell_zero_def Let_def split: option.splits)

lemma find_map_key:
  assumes "k \<in> set ks" and "\<And>k'. P (f k') \<longleftrightarrow> k' = k"
  shows "find P (map f ks) = Some (f k)"
  using assms by (induction ks) auto

lemma find_cell_table:
  assumes "prof \<in> set ra_profiles" and "pay \<in> set payloadSizes"
  shows "find_cell prof pay (scenario_table g sc) = make_cell prof pay (group_get g sc prof pay)"
proof -
  let ?f = "\<lambda>(prof, pay). make_cell prof pay (group_get g sc prof pay)"
  have "(prof, pay) \<in> set cell_keys" using assms by (auto simp: cell_keys_def)
  then have "find (\<lambda>c. ce_Payload c = pay \<and> ce_Profile c = prof) (map ?f cell_keys) = Some (?f (prof, pay))"
    by (rule find_map_key) (auto simp: case_prod_unfold)
  then show ?thesis by (simp add: find_cell_def scenario_table_cells)
qed

text \<open>The order of file names: sixteen connections come before one.\<close>

lemma append_less: "(xs @ ys < xs @ zs) = (ys < (zs :: string))"
  by (induction xs) simp_all

lemma decimal_values [simp]: "decimal (Suc 0) = ''1''" "decimal 16 = ''16''" "decimal 100 = ''100''" "decimal 4000 = ''4000''"
  by code_simp+

definition with_connections :: "int \<Rightarrow> report \<Rightarrow> report" where
  "with_connections n r = r\<lparr>rp_LoadConfig := (rp_LoadConfig r)\<lparr>lc_Connections := n\<rparr>\<rparr>"

lemma conn16_before_conn1:
  "json_filename ''bench'' (with_connections 16 r) < json_filename ''bench'' (with_connections 1 r)"
proof -
  let ?a = "''bench'' @ ''_'' @ rp_Scenario r @ ''_'' @ rp_Profile r @ (if rp_System r \<noteq> [] then ''_'' @ rp_System r else rp_System r) @ ''_conn1''"
    and ?z = "''_pay'' @ Itoa (lc_PayloadSize (rp_LoadConfig r)) @ ''.json''"
  have "json_filename ''bench'' (with_connections 16 r) = ?a @ ''6'' @ ?z"
    "json_filename ''bench'' (with_connections 1 r) = ?a @ ?z"
    by (simp_all add: json_filename_def with_connections_def Itoa_def)
  moreover have "''6'' @ ?z < ?z" by (simp add: less_char_def)
  ultimately show ?thesis using append_less [of ?a "''6'' @ ?z" ?z] by simp
qed

text \<open>The last of the entries with a key, in an ordered directory.\<close>

lemma find_last_sorted:
  assumes "sorted_wrt (<) (map fst files)" and "(n, r) \<in> set files" and "K r"
    and "\<And>n' r'. (n', r') \<in> set files \<Longrightarrow> K r' \<Longrightarrow> n' \<le> (n :: string)"
  shows "find K (rev (map snd files)) = Some r"
proof -
  obtain us vs where f: "files = us @ (n, r) # vs" using assms(2) by (meson split_list)
  have "\<not> K r'" if "(n', r') \<in> set vs" for n' r'
  proof -
    have "n < n'" using assms(1) that unfolding f by (auto simp: sorted_wrt_append image_iff)
    then show ?thesis using assms(4) [of n' r'] that unfolding f by (auto simp: not_less [symmetric])
  qed
  then have "find K (rev (map snd vs)) = None" by (force simp: find_None_iff)
  moreover have "find K (xs @ r # ys) = (case find K xs of Some y \<Rightarrow> Some y | None \<Rightarrow> Some r)" for xs ys
    using assms(3) by (induction xs) auto
  ultimately show ?thesis unfolding f by simp
qed

text \<open>Of a configuration, the part that a fixed workload never looks at.\<close>

definition no_range :: "load_config \<Rightarrow> load_config" where
  "no_range lc = lc\<lparr>lc_MinPayload := 0, lc_MaxPayload := 0\<rparr>"

lemma runall_load:
  assumes "0 < conn" and "0 < pay" and "map_of DefaultScenarios sc = Some s"
  shows "no_range (override (runall_flags conn sc prof pay) (sc_LoadConfig s)) =
    load_config_zero\<lparr>lc_Workers := lc_Workers (sc_LoadConfig s), lc_Pipelining := 64, lc_Streams := 16,
      lc_Connections := conn, lc_Workload := WorkloadFixed, lc_PayloadSize := pay, lc_Duration := 10 * Second,
      lc_Warmup := 3 * Second, lc_Method := ''echo'', lc_RetryAttempts := 3, lc_RetryDelay := 500 * Millisecond\<rparr>"
proof -
  have "lc_Method (sc_LoadConfig s) = ''echo''" "lc_System (sc_LoadConfig s) = []"
    using assms(3) by (auto simp: DefaultScenarios_def load_config_zero_def split: if_splits)
  then show ?thesis
    using assms(1,2)
    by (simp add: override_def runall_flags_def default_flags_def no_range_def load_config_zero_def Second_def
        Millisecond_def Let_def)
qed

lemma nextPayload_fixed_range:
  "lc_Workload lc = WorkloadFixed \<Longrightarrow> nextPayload (no_range lc) rd g = nextPayload lc rd g"
  by (simp add: nextPayload_def no_range_def)

section \<open>Properties\<close>

text \<open>
  The five scenarios, as this program runs them, differ in nothing but the number of workers:
  the payload size that it passes turns every workload into the fixed one, and the other flags
  override the rest. So \<open>concurrency_stress\<close> and \<open>loss_sensitivity\<close> are the same load, as are
  \<open>multiplex_stress\<close> and \<open>rtt_scaling\<close>, and no mixed or random payload is ever sent: each payload has
  exactly the given size.
\<close>

theorem runall_scenarios_coincide:
  assumes "0 < conn" and "0 < pay" and "map_of DefaultScenarios sc = Some s" and "map_of DefaultScenarios sc' = Some s'"
    and "lc = override (runall_flags conn sc prof pay) (sc_LoadConfig s)"
    and "lc' = override (runall_flags conn sc' prof' pay) (sc_LoadConfig s')"
    and "lc_Workers (sc_LoadConfig s) = lc_Workers (sc_LoadConfig s')"
  shows "no_range lc = no_range lc' \<and> lc_Workload lc = WorkloadFixed \<and>
    (\<forall>rd g. nextPayload lc rd g = nextPayload lc' rd g) \<and>
    (\<forall>rd g. fills rd \<longrightarrow> (\<exists>p. nextPayload lc rd g = Ok p \<and> int (length p) = pay))"
proof -
  have eq: "no_range lc = no_range lc'"
    using runall_load [OF assms(1,2,3)] runall_load [OF assms(1,2,4)] assms(5-7) by simp
  have w: "lc_Workload (no_range x) = lc_Workload x" "lc_PayloadSize (no_range x) = lc_PayloadSize x" for x
    by (simp_all add: no_range_def)
  have f: "lc_Workload lc = WorkloadFixed" "lc_Workload lc' = WorkloadFixed" "lc_PayloadSize lc = pay"
    using runall_load [OF assms(1,2,3), of prof] runall_load [OF assms(1,2,4), of prof'] assms(5,6)
      w [of lc] w [of lc'] by simp_all
  have "nextPayload lc rd g = nextPayload lc' rd g" for rd g
    using nextPayload_fixed_range [OF f(1), of rd g] nextPayload_fixed_range [OF f(2), of rd g] eq by simp
  with eq f nextPayload_fixed [OF f(1)] assms(2) show ?thesis by auto
qed

theorem runall_scenarios_coincide_witness:
  "no_range (override (runall_flags 16 ''concurrency_stress'' ''clean'' 100) (sc_LoadConfig (snd (DefaultScenarios ! 1)))) =
   no_range (override (runall_flags 16 ''loss_sensitivity'' ''lte'' 100) (sc_LoadConfig (snd (DefaultScenarios ! 3))))"
proof -
  have s: "map_of DefaultScenarios ''concurrency_stress'' = Some (snd (DefaultScenarios ! 1))"
    "map_of DefaultScenarios ''loss_sensitivity'' = Some (snd (DefaultScenarios ! 3))"
    "lc_Workers (sc_LoadConfig (snd (DefaultScenarios ! 1))) = lc_Workers (sc_LoadConfig (snd (DefaultScenarios ! 3)))"
    by (simp_all add: DefaultScenarios_def)
  from runall_scenarios_coincide [OF _ _ s(1,2) refl refl s(3), of 16 100 "''clean''" "''lte''"] show ?thesis by simp
qed

text \<open>
  The heat map shows one number of connections only: a cell is keyed by scenario, profile and
  payload, but each is measured with 1 and with 16 connections, and the file of the latter comes
  first in the directory. Whatever else the directory holds, every cell for which both results
  were saved shows the figures of the run with 1 connection, and those with 16 appear nowhere.
\<close>

theorem heatmap_shows_one_connection:
  assumes "sorted_wrt (<) (map fst files)" and "\<forall>(n, r) \<in> set files. rs_payload r \<noteq> None"
    and "(json_filename ''bench'' (with_connections 1 m), r1) \<in> set files"
    and "(json_filename ''bench'' (with_connections 16 m), r16) \<in> set files"
    and "result_key r1 = (sc, prof, pay)" and "result_key r16 = (sc, prof, pay)"
    and "\<forall>(n, r) \<in> set files. result_key r = (sc, prof, pay) \<longrightarrow>
      n \<in> {json_filename ''bench'' (with_connections 1 m), json_filename ''bench'' (with_connections 16 m)}"
    and "sc \<in> set ra_scenarios" and "prof \<in> set ra_profiles" and "pay \<in> set payloadSizes"
  shows "\<exists>sds sd. generateReport (map snd files) = Ok (Some sds) \<and> sd \<in> set sds \<and> sd_Name sd = sc \<and>
    find_cell prof pay sd = make_cell prof pay (Some r1) \<and> ce_RPS (find_cell prof pay sd) = rs_RPS r1 \<and>
    ce_P95 (find_cell prof pay sd) = rs_P95 r1"
proof -
  let ?K = "\<lambda>r. result_key r = (sc, prof, pay)"
  have "\<forall>r \<in> set (map snd files). rs_payload r \<noteq> None" using assms(2) by auto
  then obtain g where g: "group_all (map snd files) Map.empty = Ok g"
    "group_get g sc prof pay = (case find ?K (rev (map snd files)) of Some r \<Rightarrow> Some r | None \<Rightarrow> group_get Map.empty sc prof pay)"
    using group_all_get by blast
  have "find ?K (rev (map snd files)) = Some r1"
    using find_last_sorted [OF assms(1,3), of ?K] assms(5,7) conn16_before_conn1 [of m] by fastforce
  with g(2) find_cell_table [OF assms(9,10), of g sc]
  have c: "find_cell prof pay (scenario_table g sc) = make_cell prof pay (Some r1)" by simp
  have "map snd files \<noteq> []" using assms(3) by auto
  with g(1) have "generateReport (map snd files) = Ok (Some (map (scenario_table g) ra_scenarios))"
    by (simp add: generateReport_def)
  moreover have "ce_RPS (make_cell prof pay (Some r1)) = rs_RPS r1" "ce_P95 (make_cell prof pay (Some r1)) = rs_P95 r1"
    by (simp_all add: make_cell_def Let_def)
  ultimately show ?thesis
    using c assms(8) scenario_table_name [of g sc]
    by (intro exI [of _ "map (scenario_table g) ra_scenarios"] exI [of _ "scenario_table g sc"]) simp
qed

definition demo_metrics :: report where
  "demo_metrics = Report ''rtt_scaling'' ''lte'' ''qrpc'' (load_config_zero\<lparr>lc_PayloadSize := 100\<rparr>) False demo_collector"

definition demo_result :: "float64 \<Rightarrow> result" where
  "demo_result rps = \<lparr>rs_scenario = ''rtt_scaling'', rs_profile = ''lte'', rs_TotalRequests = 3, rs_SuccessRate = 50,
     rs_RPS = rps, rs_AvgLatency = 5, rs_P50 = 5, rs_P95 = 9, rs_P99 = 9, rs_payload = Some 100\<rparr>"

theorem heatmap_shows_one_connection_witness:
  "\<exists>sds sd. generateReport [demo_result 8000, demo_result 500] = Ok (Some sds) \<and> sd \<in> set sds \<and>
    sd_Name sd = ''rtt_scaling'' \<and> ce_RPS (find_cell ''lte'' ''100'' sd) = 500"
proof -
  let ?n = "\<lambda>c. json_filename ''bench'' (with_connections c demo_metrics)"
  let ?files = "[(?n 16, demo_result 8000), (?n 1, demo_result 500)]"
  have k: "result_key (demo_result x) = (''rtt_scaling'', ''lte'', ''100'')" for x
    by (simp add: result_key_def demo_result_def int_of_float_def Itoa_def)
  have "sorted_wrt (<) (map fst ?files)" using conn16_before_conn1 [of demo_metrics] by simp
  from heatmap_shows_one_connection [OF this, of demo_metrics "demo_result 500" "demo_result 8000"
      "''rtt_scaling''" "''lte''" "''100''"] k
  show ?thesis
    by (simp add: ra_scenarios_def ra_profiles_def payloadSizes_def) (auto simp: demo_result_def)
qed

end
