(* ===== verification/Duration_Text.thy ===== *)
theory Duration_Text
  imports Stress_Config
begin

text \<open>
  The text of durations: \<open>Duration.String\<close> and \<open>ParseDuration\<close> of the package \<open>time\<close>, and the JSON form of
  \<open>config.Duration\<close> (\<open>MarshalJSON\<close> and \<open>UnmarshalJSON\<close> of \<open>stress_tester/internal/config/config.go\<close>). A
  fraction is parsed through \<open>float64\<close>; what \<open>String\<close> prints is parsed exactly nevertheless, for every
  64-bit duration.
\<close>

section \<open>Printing\<close>

text \<open>\<open>fmtFrac\<close> trims the zeros at the end of a fraction.\<close>

definition trim_zeros :: "string \<Rightarrow> string" where
  "trim_zeros s = rev (dropWhile (\<lambda>c. c = CHR ''0'') (rev s))"

definition fmtFrac :: "nat \<Rightarrow> nat \<Rightarrow> string" where
  "fmtFrac prec v =
     (let ds = trim_zeros (last_digits prec v)
      in if ds = [] then [] else ''.'' @ ds)"

definition duration_text :: "nat \<Rightarrow> string" where
  "duration_text u =
     (let secs = u div 10 ^ 9
      in if u = 0 then ''0s''
         else if u < 1000 then decimal u @ ''ns''
         else if u < 1000000 then decimal (u div 1000) @ fmtFrac 3 u @ micro_sign @ ''s''
         else if u < 1000000000 then decimal (u div 1000000) @ fmtFrac 6 u @ ''ms''
         else (if secs div 3600 > 0 then decimal (secs div 3600) @ ''h'' else []) @
              (if secs div 60 > 0 then decimal (secs div 60 mod 60) @ ''m'' else []) @
              decimal (secs mod 60) @ fmtFrac 9 u @ ''s'')"

definition Duration_String :: "duration \<Rightarrow> string" where
  "Duration_String d = (if d < 0 then ''-'' @ duration_text (nat \<bar>d\<bar>) else duration_text (nat \<bar>d\<bar>))"

section \<open>Parsing\<close>

definition digit :: "char \<Rightarrow> bool" where
  "digit c \<longleftrightarrow> 48 \<le> (of_char c :: nat) \<and> (of_char c :: nat) < 58"

text \<open>\<open>leadingInt\<close>, an error when the number exceeds \<open>2 ^ 63\<close>.\<close>

fun leadingInt :: "string \<Rightarrow> nat \<Rightarrow> (nat \<times> string) option" where
  "leadingInt [] x = Some (x, [])"
| "leadingInt (c # s) x =
     (if \<not> digit c then Some (x, c # s)
      else if x > 2 ^ 63 div 10 then None
      else if read_digit c x > 2 ^ 63 then None
      else leadingInt s (read_digit c x))"

text \<open>\<open>leadingFraction\<close>: digits that do not fit any more are skipped.\<close>

fun leadingFraction :: "string \<Rightarrow> nat \<Rightarrow> float64 \<Rightarrow> bool \<Rightarrow> nat \<times> float64 \<times> string" where
  "leadingFraction [] x scale overflow = (x, scale, [])"
| "leadingFraction (c # s) x scale overflow =
     (if \<not> digit c then (x, scale, c # s)
      else if overflow then leadingFraction s x scale True
      else if x > (2 ^ 63 - 1) div 10 then leadingFraction s x scale True
      else if read_digit c x > 2 ^ 63 then leadingFraction s x scale True
      else leadingFraction s (read_digit c x) (fl (scale * 10)) False)"

definition unitMap :: "string \<Rightarrow> nat option" where
  "unitMap = map_of
     [(''ns'', 1), (''us'', 10 ^ 3), (micro_sign @ ''s'', 10 ^ 3), ([CHR 0xCE, CHR 0xBC] @ ''s'', 10 ^ 3),
      (''ms'', 10 ^ 6), (''s'', 10 ^ 9), (''m'', 60 * 10 ^ 9), (''h'', 3600 * 10 ^ 9)]"

text \<open>
  A number, possibly with a fraction: \<open>v + f / scale\<close> and the rest of the text; \<open>None\<close> is an error,
  a number without a digit too.
\<close>

definition parse_number :: "string \<Rightarrow> (nat \<times> nat \<times> float64 \<times> string) option" where
  "parse_number s =
     (case leadingInt s 0 of
        None \<Rightarrow> None
      | Some (v, s1) \<Rightarrow>
          let pre = (length s \<noteq> length s1);
              dot = (s1 \<noteq> [] \<and> hd s1 = CHR ''.'');
              (f, scale, s2) = (if dot then leadingFraction (tl s1) 0 1 False else (0, 1, s1));
              post = (dot \<and> length (tl s1) \<noteq> length s2)
          in if \<not> pre \<and> \<not> post then None else Some (v, f, scale, s2))"

text \<open>The value in nanoseconds, and the sum with the parts before: unsigned 64-bit integers.\<close>

definition scaled :: "nat \<Rightarrow> nat \<Rightarrow> float64 \<Rightarrow> nat \<Rightarrow> nat" where
  "scaled v f scale unit =
     (let v = v * unit
      in if f > 0 then v + nat (int_of_float (fl (fl (of_nat f) * fl (fl (of_nat unit) / scale)))) else v)"

definition parse_part :: "string \<Rightarrow> nat \<Rightarrow> (nat \<times> string) option" where
  "parse_part s d =
     (if s = [] \<or> \<not> (hd s = CHR ''.'' \<or> digit (hd s)) then None
      else
        (case parse_number s of
           None \<Rightarrow> None
         | Some (v, f, scale, s2) \<Rightarrow>
             let u = takeWhile (\<lambda>c. \<not> (c = CHR ''.'' \<or> digit c)) s2
             in if u = [] then None
                else
                  (case unitMap u of
                     None \<Rightarrow> None
                   | Some unit \<Rightarrow>
                       if v > 2 ^ 63 div unit then None
                       else
                         let v = scaled v f scale unit; d = (d + v) mod 2 ^ 64
                         in if v > 2 ^ 63 \<or> d > 2 ^ 63 then None else Some (d, drop (length u) s2))))"

lemma leadingInt_shorter: "leadingInt s x = Some (v, r) \<Longrightarrow> length r \<le> length s"
  by (induction s arbitrary: x) (auto split: if_splits intro: le_SucI)

lemma leadingFraction_shorter: "leadingFraction s x sc ov = (v, sc', r) \<Longrightarrow> length r \<le> length s"
  by (induction s arbitrary: x sc ov) (auto split: if_splits intro: le_SucI)

lemma parse_number_shorter: "parse_number s = Some (v, f, scale, r) \<Longrightarrow> length r \<le> length s"
proof -
  assume e: "parse_number s = Some (v, f, scale, r)"
  then obtain w s1 where s1: "leadingInt s 0 = Some (w, s1)" by (auto simp: parse_number_def split: option.splits)
  obtain x y z where f: "leadingFraction (tl s1) 0 1 False = (x, y, z)" by (metis prod.collapse)
  from leadingInt_shorter [OF s1] leadingFraction_shorter [OF f] e s1 f show ?thesis
    by (auto simp: parse_number_def Let_def split: if_splits)
qed

lemma parse_part_shorter: "parse_part s d = Some (d', r) \<Longrightarrow> length r < length s"
proof -
  assume e: "parse_part s d = Some (d', r)"
  then obtain v f scale s2 where n: "parse_number s = Some (v, f, scale, s2)"
    by (auto simp: parse_part_def split: if_splits option.splits)
  let ?u = "takeWhile (\<lambda>c. \<not> (c = CHR ''.'' \<or> digit c)) s2"
  have "?u \<noteq> []" "r = drop (length ?u) s2"
    using e n by (auto simp: parse_part_def Let_def split: if_splits option.splits)
  then have "length r < length s2" by (metis diff_less length_0_conv length_drop length_greater_0_conv takeWhile.simps(1))
  with parse_number_shorter [OF n] show ?thesis by simp
qed

function parse_loop :: "string \<Rightarrow> nat \<Rightarrow> nat option" where
  "parse_loop s d =
     (if s = [] then Some d
      else (case parse_part s d of None \<Rightarrow> None | Some (d, s) \<Rightarrow> parse_loop s d))"
  by pat_completeness auto
termination
  by (relation "measure (\<lambda>(s, d). length s)") (auto dest: parse_part_shorter)

declare parse_loop.simps [simp del]

definition ParseDuration :: "string \<Rightarrow> duration option" where
  "ParseDuration s =
     (let neg = (s \<noteq> [] \<and> hd s = CHR ''-'');
          s = (if s \<noteq> [] \<and> (hd s = CHR ''-'' \<or> hd s = CHR ''+'') then tl s else s)
      in if s = ''0'' then Some 0
         else if s = [] then None
         else
           (case parse_loop s 0 of
              None \<Rightarrow> None
            | Some d \<Rightarrow>
                if neg then Some (- int d)
                else if d > 2 ^ 63 - 1 then None
                else Some (int d)))"

section \<open>JSON\<close>

text \<open>The strings of \<open>encoding/json\<close>, and the two methods.\<close>

record json_strings =
  js_Marshal :: "string \<Rightarrow> bytes"
  js_Unmarshal :: "bytes \<Rightarrow> go_error + string"

definition Duration_MarshalJSON :: "json_strings \<Rightarrow> duration \<Rightarrow> bytes" where
  "Duration_MarshalJSON js d = js_Marshal js (Duration_String d)"

definition Duration_UnmarshalJSON :: "json_strings \<Rightarrow> bytes \<Rightarrow> go_error + duration" where
  "Duration_UnmarshalJSON js b =
     (case js_Unmarshal js b of
        Inl err \<Rightarrow> Inl err
      | Inr s \<Rightarrow>
          (case ParseDuration s of
             None \<Rightarrow> Inl (OtherError (''time: invalid duration '' @ s))
           | Some v \<Rightarrow> Inr v))"

section \<open>Lemmas\<close>

lemma digit_decimal: "c \<in> set (decimal n) \<Longrightarrow> digit c"
  using decimal_digits by (simp add: digit_def)

lemma digit_last_digits: "c \<in> set (last_digits k n) \<Longrightarrow> digit c"
  by (induction k arbitrary: n) (auto simp: digit_def)

lemma read_digit_ge: "n \<le> read_digit c n" "10 * n \<le> read_digit c n"
  by (simp_all add: read_digit_def)

lemma read_digit_less: "digit c \<Longrightarrow> read_digit c n < 10 * (n + 1)"
  by (auto simp: read_digit_def digit_def)

lemma fold_read_digit_ge: "n \<le> fold read_digit ds n"
  by (induction ds arbitrary: n) (auto intro: order_trans [OF read_digit_ge(1)])

text \<open>Digits that are followed by something else.\<close>

lemma leadingInt_digits:
  assumes "\<forall>c \<in> set ds. digit c" and "rest = [] \<or> \<not> digit (hd rest)" and "fold read_digit ds x \<le> 2 ^ 63"
  shows "leadingInt (ds @ rest) x = Some (fold read_digit ds x, rest)"
  using assms
proof (induction ds arbitrary: x)
  case Nil
  then show ?case by (cases rest) simp_all
next
  case (Cons c ds)
  have "read_digit c x \<le> 2 ^ 63" using Cons.prems(3) fold_read_digit_ge [of "read_digit c x" ds] by simp
  moreover from this have "x \<le> 2 ^ 63 div 10" using read_digit_ge(2) [of x c] by simp
  ultimately show ?case using Cons by simp
qed

lemma read_digits_less:
  assumes "\<forall>c \<in> set ds. digit c"
  shows "fold read_digit ds x < (x + 1) * 10 ^ length ds"
  using assms
proof (induction ds arbitrary: x)
  case (Cons c ds)
  have "read_digit c x + 1 \<le> (x + 1) * 10" using Cons.prems read_digit_less [of c x] by simp
  then have "(read_digit c x + 1) * 10 ^ length ds \<le> (x + 1) * 10 * 10 ^ length ds" by (rule mult_right_mono) simp
  with Cons.IH [of "read_digit c x"] Cons.prems show ?case by (simp add: algebra_simps)
qed simp

lemma ten_power_exact: "k \<le> 15 \<Longrightarrow> fl (10 ^ k) = 10 ^ k"
proof -
  assume "k \<le> 15"
  then have "(10 :: int) ^ k \<le> 10 ^ 15" by (rule power_increasing) simp
  then have "\<bar>(10 :: int) ^ k\<bar> \<le> 2 ^ 53" by simp
  from fl_of_int [OF this] show ?thesis by simp
qed

lemma leadingFraction_digits:
  assumes "\<forall>c \<in> set ds. digit c" and "rest = [] \<or> \<not> digit (hd rest)" and "j + length ds \<le> 15" and "x < 10 ^ j"
  shows "leadingFraction (ds @ rest) x (10 ^ j) False = (fold read_digit ds x, 10 ^ (j + length ds), rest)"
  using assms
proof (induction ds arbitrary: x j)
  case Nil
  then show ?case by (cases rest) simp_all
next
  case (Cons c ds)
  have c: "digit c" using Cons.prems(1) by simp
  have "10 * (x + 1) \<le> 10 * 10 ^ j" using Cons.prems(4) by (intro mult_left_mono) simp_all
  then have x: "read_digit c x < 10 ^ Suc j" using read_digit_less [OF c, of x] by simp
  have "(10 :: nat) ^ Suc j \<le> 10 ^ 15" using Cons.prems(3) by (intro power_increasing) simp_all
  with x have y: "read_digit c x \<le> 2 ^ 63" by simp
  have "10 * x \<le> read_digit c x" by (rule read_digit_ge)
  with x \<open>(10 :: nat) ^ Suc j \<le> 10 ^ 15\<close> have "x \<le> (2 ^ 63 - 1) div 10" by simp
  moreover have "fl (10 ^ j * 10) = 10 ^ Suc j" using ten_power_exact [of "Suc j"] Cons.prems(3) by (simp add: mult.commute)
  ultimately show ?case using Cons.IH [of "Suc j" "read_digit c x"] Cons.prems c x y by simp
qed

text \<open>Trimming zeros divides by a power of ten.\<close>

lemma trim_zeros_digits:
  "\<exists>n. s = trim_zeros s @ replicate n CHR ''0''"
proof -
  let ?z = "takeWhile (\<lambda>c. c = CHR ''0'') (rev s)"
  have "rev s = ?z @ dropWhile (\<lambda>c. c = CHR ''0'') (rev s)" by simp
  moreover have "?z = replicate (length ?z) CHR ''0''"
    by (rule replicate_eqI) (auto dest: set_takeWhileD)
  ultimately have "s = trim_zeros s @ replicate (length ?z) CHR ''0''"
    unfolding trim_zeros_def by (metis rev_append rev_replicate rev_rev_ident)
  then show ?thesis by blast
qed

lemma read_zeros: "(read_digit CHR ''0'' ^^ n) x = 10 ^ n * x"
  by (induction n arbitrary: x) (simp_all add: read_digit_def)

lemma trim_last_digits:
  obtains n where "fold read_digit (trim_zeros (last_digits k u)) 0 * 10 ^ n = u mod 10 ^ k"
    and "length (trim_zeros (last_digits k u)) + n = k" and "\<forall>c \<in> set (trim_zeros (last_digits k u)). digit c"
proof -
  obtain n where n: "last_digits k u = trim_zeros (last_digits k u) @ replicate n CHR ''0''" using trim_zeros_digits by blast
  let ?ds = "trim_zeros (last_digits k u)"
  have "fold read_digit (?ds @ replicate n CHR ''0'') 0 = u mod 10 ^ k"
    using read_last_digits [of k u 0] n by simp
  moreover have "length (?ds @ replicate n CHR ''0'') = k" using n last_digits_length [of k u] by simp
  moreover have "\<forall>c \<in> set ?ds. digit c" using digit_last_digits [of _ k u] n by (metis UnCI set_append)
  ultimately show thesis using that [of n] by (simp add: read_zeros mult.commute)
qed

lemma parse_number_String:
  assumes "k \<le> 15" and "v \<le> 2 ^ 63" and "rest \<noteq> []" and "\<not> digit (hd rest)" and "hd rest \<noteq> CHR ''.''"
  obtains f n j where "parse_number (decimal v @ fmtFrac k u @ rest) = Some (v, f, 10 ^ j, rest)"
    and "f * 10 ^ n = u mod 10 ^ k" and "j + n = k"
proof -
  obtain n where n: "fold read_digit (trim_zeros (last_digits k u)) 0 * 10 ^ n = u mod 10 ^ k"
    "length (trim_zeros (last_digits k u)) + n = k" "\<forall>c \<in> set (trim_zeros (last_digits k u)). digit c"
    by (rule trim_last_digits)
  let ?ds = "trim_zeros (last_digits k u)"
  have int: "leadingInt (decimal v @ r) 0 = Some (v, r)" if "r = [] \<or> \<not> digit (hd r)" for r
    using leadingInt_digits [of "decimal v" r 0] that digit_decimal assms(2) by (simp add: read_decimal)
  show thesis
  proof (cases "?ds = []")
    case True
    have "parse_number (decimal v @ fmtFrac k u @ rest) = Some (v, 0, 10 ^ 0, rest)"
      using True int [of rest] assms(4,5) by (simp add: parse_number_def fmtFrac_def Let_def)
    moreover have "0 * 10 ^ k = u mod 10 ^ k" using n(1) True by simp
    ultimately show thesis by (intro that [of 0 0 k]) simp_all
  next
    case False
    have "\<not> digit CHR ''.''" by (simp add: digit_def)
    moreover have "leadingFraction (?ds @ rest) 0 (10 ^ 0) False = (fold read_digit ?ds 0, 10 ^ (0 + length ?ds), rest)"
      using n assms by (intro leadingFraction_digits) simp_all
    ultimately have "parse_number (decimal v @ fmtFrac k u @ rest) = Some (v, fold read_digit ?ds 0, 10 ^ length ?ds, rest)"
      using False int [of "CHR ''.'' # ?ds @ rest"] by (simp add: parse_number_def fmtFrac_def Let_def)
    with n(1,2) that show thesis by blast
  qed
qed

text \<open>The fraction is scaled exactly.\<close>

lemma scaled_exact:
  assumes "f * 10 ^ n = u mod 10 ^ k" and "j + n = k" and "k \<le> 15" and "k = 0 \<or> unit = 10 ^ k"
  shows "scaled v f (10 ^ j) unit = v * unit + u mod 10 ^ k"
proof (cases "f = 0")
  case True
  with assms(1) show ?thesis by (simp add: scaled_def)
next
  case False
  have "u mod 10 ^ k \<noteq> 0" using False assms(1) by (metis mult_eq_0_iff power_not_zero zero_neq_numeral)
  then have U: "unit = 10 ^ k" using assms(4) by auto
  have k: "(10 :: nat) ^ k \<le> 10 ^ 15" using assms(3) by (intro power_increasing) simp_all
  have "u mod 10 ^ k < 10 ^ k" by simp
  with k have small: "u mod 10 ^ k \<le> 10 ^ 15" by linarith
  have exact: "fl (of_nat m) = of_nat m" if "m \<le> 10 ^ 15" for m
    using fl_of_int [of "int m"] that by simp
  have "f \<le> f * 10 ^ n" by simp
  with assms(1) small have f: "f \<le> 10 ^ 15" by linarith
  have "(of_nat unit :: rat) / 10 ^ j = of_nat (10 ^ n)"
    by (simp add: U assms(2) [symmetric] power_add)
  moreover have "(10 :: nat) ^ n \<le> 10 ^ 15" using assms(2,3) by (intro power_increasing) simp_all
  moreover have "fl (of_nat unit) = of_nat unit" using exact [of unit] k U by simp
  ultimately have "fl (fl (of_nat unit) / 10 ^ j) = of_nat (10 ^ n)" using exact [of "10 ^ n"] by simp
  then have "fl (fl (of_nat f) * fl (fl (of_nat unit) / 10 ^ j)) = of_nat (u mod 10 ^ k)"
    using exact [OF f] exact [OF small] assms(1) by (simp flip: of_nat_mult of_nat_power)
  then show ?thesis using False by (simp add: scaled_def int_of_float_def)
qed

definition unit_name :: "string \<Rightarrow> bool" where
  "unit_name un \<longleftrightarrow> un \<noteq> [] \<and> (\<forall>c \<in> set un. \<not> (c = CHR ''.'' \<or> digit c))"

lemma parse_part_String:
  assumes "unitMap un = Some unit" and "unit_name un" and "rest = [] \<or> digit (hd rest)" and "k \<le> 15"
    and "k = 0 \<or> unit = 10 ^ k" and "0 < unit" and "d + v * unit + u mod 10 ^ k \<le> 2 ^ 63"
  shows "parse_part (decimal v @ fmtFrac k u @ un @ rest) d = Some (d + v * unit + u mod 10 ^ k, rest)"
proof -
  have v: "v * unit \<le> 2 ^ 63" using assms(7) by simp
  then have v': "v \<le> 2 ^ 63 div unit" using assms(6) by (simp add: less_eq_div_iff_mult_less_eq)
  have "v \<le> v * unit" using assms(6) by simp
  with v have v63: "v \<le> 2 ^ 63" by linarith
  have un: "un @ rest \<noteq> []" "\<not> digit (hd (un @ rest))" "hd (un @ rest) \<noteq> CHR ''.''"
    using assms(2) by (auto simp: unit_name_def)
  obtain f n j where num: "parse_number (decimal v @ fmtFrac k u @ un @ rest) = Some (v, f, 10 ^ j, un @ rest)"
    "f * 10 ^ n = u mod 10 ^ k" "j + n = k"
    by (rule parse_number_String [OF assms(4) v63 un])
  have sc: "scaled v f (10 ^ j) unit = v * unit + u mod 10 ^ k" by (rule scaled_exact [OF num(2,3) assms(4,5)])
  have "takeWhile (\<lambda>c. \<not> (c = CHR ''.'' \<or> digit c)) (un @ rest) = un"
    using assms(2,3) by (cases rest) (auto simp: unit_name_def takeWhile_append)
  moreover have "digit (hd (decimal v))" using digit_decimal [OF hd_in_set [OF decimal_not_Nil]] .
  moreover have "(d + (v * unit + u mod 10 ^ k)) mod 2 ^ 64 = d + v * unit + u mod 10 ^ k" using assms(7) by simp
  moreover have "v * unit + u mod 10 ^ k \<le> 2 ^ 63" using assms(7) by linarith
  ultimately show ?thesis
    using num(1) sc v' assms(1,2,7) unfolding parse_part_def by (simp add: unit_name_def Let_def not_less)
qed

lemma parse_loop_part:
  assumes "parse_part s d = Some (d', rest)"
  shows "parse_loop s d = parse_loop rest d'"
  using assms by (subst parse_loop.simps) (auto simp: parse_part_def)

lemma parse_loop_Nil [simp]: "parse_loop [] d = Some d"
  by (simp add: parse_loop.simps)

text \<open>A number with a unit at the front of the text, with a fraction or without one.\<close>

lemma parse_loop_frac:
  assumes "unitMap un = Some (10 ^ k)" and "unit_name un" and "k \<le> 15" and "d + v * 10 ^ k + u mod 10 ^ k \<le> 2 ^ 63"
  shows "parse_loop (decimal v @ fmtFrac k u @ un) d = Some (d + v * 10 ^ k + u mod 10 ^ k)"
  using parse_loop_part [OF parse_part_String [OF assms(1,2), of "[]" k d v u]] assms(3,4) by simp

lemma parse_loop_whole:
  assumes "unitMap un = Some unit" and "unit_name un" and "rest = [] \<or> digit (hd rest)" and "0 < unit"
    and "d + v * unit \<le> 2 ^ 63"
  shows "parse_loop (decimal v @ un @ rest) d = parse_loop rest (d + v * unit)"
  using parse_loop_part [OF parse_part_String [OF assms(1-3), of 0 d v 0]] assms(4,5)
  by (simp add: fmtFrac_def trim_zeros_def)

lemma unit_names:
  "unit_name ''ns''" "unit_name (micro_sign @ ''s'')" "unit_name ''ms''" "unit_name ''s''" "unit_name ''m''" "unit_name ''h''"
  by (simp_all add: unit_name_def digit_def micro_sign_def)

lemma unit_values:
  "unitMap ''ns'' = Some 1" "unitMap (micro_sign @ ''s'') = Some (10 ^ 3)" "unitMap ''ms'' = Some (10 ^ 6)"
  "unitMap ''s'' = Some (10 ^ 9)" "unitMap ''m'' = Some (60 * 10 ^ 9)" "unitMap ''h'' = Some (3600 * 10 ^ 9)"
  by (simp_all add: unitMap_def micro_sign_def)

lemma digit_hd_decimal [simp]: "digit (hd (decimal n))"
  by (rule digit_decimal [OF hd_in_set [OF decimal_not_Nil]])

lemma parse_duration_text:
  assumes "u \<le> 2 ^ 63"
  shows "parse_loop (duration_text u) 0 = Some u"
proof -
  have split: "u div m * m + u mod m = u" for m by simp
  consider "u = 0" | "0 < u" "u < 1000" | "1000 \<le> u" "u < 1000000" | "1000000 \<le> u" "u < 1000000000" | "1000000000 \<le> u"
    by linarith
  then show ?thesis
  proof cases
    case 1
    have "decimal 0 = ''0''" by code_simp
    with parse_loop_whole [OF unit_values(4) unit_names(4), of "[]" 0 0] 1 show ?thesis by (simp add: duration_text_def)
  next
    case 2
    with parse_loop_whole [OF unit_values(1) unit_names(1), of "[]" 0 u] show ?thesis by (simp add: duration_text_def)
  next
    case 3
    with parse_loop_frac [OF unit_values(2) unit_names(2), of 0 "u div 1000" u] assms split [of 1000] show ?thesis
      by (simp add: duration_text_def)
  next
    case 4
    with parse_loop_frac [OF unit_values(3) unit_names(3), of 0 "u div 1000000" u] assms split [of 1000000] show ?thesis
      by (simp add: duration_text_def)
  next
    case 5
    define secs where "secs = u div 10 ^ 9"
    let ?H = "secs div 3600" and ?M = "secs div 60 mod 60" and ?S = "secs mod 60"
    let ?ns = "u mod 10 ^ 9" and ?sec = "decimal ?S @ fmtFrac 9 u @ ''s''"
    let ?min = "(if secs div 60 > 0 then decimal ?M @ ''m'' else []) @ ?sec"
    have "?H = secs div 60 div 60" by (simp add: div_mult2_eq [symmetric])
    moreover have "secs div 60 div 60 * 60 + ?M = secs div 60" "secs div 60 * 60 + ?S = secs" by simp_all
    ultimately have hms: "?H * 3600 + ?M * 60 + ?S = secs" by linarith
    have u: "secs * 10 ^ 9 + ?ns = u" using split [of "10 ^ 9"] by (simp add: secs_def)
    then have total: "?H * (3600 * 10 ^ 9) + ?M * (60 * 10 ^ 9) + ?S * 10 ^ 9 + ?ns = u" using hms by simp
    have sec: "parse_loop ?sec d = Some (d + ?S * 10 ^ 9 + ?ns)" if "d + ?S * 10 ^ 9 + ?ns \<le> 2 ^ 63" for d
      using parse_loop_frac [OF unit_values(4) unit_names(4), of d ?S u] that by simp
    have min: "parse_loop ?min d = Some (d + ?M * (60 * 10 ^ 9) + ?S * 10 ^ 9 + ?ns)"
      if "d + ?M * (60 * 10 ^ 9) + ?S * 10 ^ 9 + ?ns \<le> 2 ^ 63" for d
    proof (cases "secs div 60 > 0")
      case True
      with parse_loop_whole [OF unit_values(5) unit_names(5), of ?sec d ?M] sec [of "d + ?M * (60 * 10 ^ 9)"] that
      show ?thesis by simp
    next
      case False
      with sec [of d] that show ?thesis by simp
    qed
    have "digit (hd ?min)" by (cases "secs div 60 > 0") simp_all
    have "parse_loop ((if ?H > 0 then decimal ?H @ ''h'' else []) @ ?min) 0 = Some u"
    proof (cases "?H > 0")
      case True
      with parse_loop_whole [OF unit_values(6) unit_names(6), of ?min 0 ?H] min [of "?H * (3600 * 10 ^ 9)"] total assms
        \<open>digit (hd ?min)\<close>
      show ?thesis by simp
    next
      case False
      with min [of 0] total assms show ?thesis by simp
    qed
    moreover have "u div 1000000000 = secs" by (simp add: secs_def)
    ultimately show ?thesis using 5 by (simp add: duration_text_def Let_def)
  qed
qed

lemma duration_text_start: "duration_text u \<noteq> []" "digit (hd (duration_text u))" "duration_text u \<noteq> ''0''"
proof -
  have "digit CHR ''0''" by (simp add: digit_def)
  then have start: "digit (hd (duration_text u))" "duration_text u \<noteq> []"
    by (auto simp: duration_text_def Let_def)
  have "last (duration_text u) = CHR ''s''"
    by (simp add: duration_text_def Let_def micro_sign_def)
  with start show "duration_text u \<noteq> []" "digit (hd (duration_text u))" "duration_text u \<noteq> ''0''" by auto
qed

lemma ParseDuration_String:
  assumes "- (2 ^ 63) \<le> d" and "d < 2 ^ 63"
  shows "ParseDuration (Duration_String d) = Some d"
proof -
  define t where "t = duration_text (nat \<bar>d\<bar>)"
  have p: "parse_loop t 0 = Some (nat \<bar>d\<bar>)" unfolding t_def using assms by (intro parse_duration_text) simp
  have t: "t \<noteq> []" "t \<noteq> ''0''" "hd t \<noteq> CHR ''-''" "hd t \<noteq> CHR ''+''"
    using duration_text_start [of "nat \<bar>d\<bar>"] by (auto simp: t_def digit_def)
  have "Duration_String d = (if d < 0 then CHR ''-'' # t else t)" by (simp add: Duration_String_def t_def)
  with p t assms show ?thesis by (cases "d < 0") (simp_all add: ParseDuration_def Let_def)
qed

section \<open>The JSON form\<close>

text \<open>The strings that \<open>encoding/json\<close> neither escapes nor replaces: printable ASCII and the micro sign.\<close>

definition plain_char :: "char \<Rightarrow> bool" where
  "plain_char c \<longleftrightarrow> 32 \<le> (of_char c :: nat) \<and> (of_char c :: nat) < 127 \<and> (of_char c :: nat) \<notin> {0x22, 0x5C, 0x3C, 0x3E, 0x26}"

fun plain_text :: "string \<Rightarrow> bool" where
  "plain_text [] = True"
| "plain_text [c] = plain_char c"
| "plain_text (c # e # s) =
     (if c = CHR 0xC2 then e = CHR 0xB5 \<and> plain_text s else plain_char c \<and> plain_text (e # s))"

lemma plain_char_ascii: "plain_char c \<Longrightarrow> c \<noteq> CHR 0xC2"
  by (auto simp: plain_char_def)

lemma plain_text_append: "plain_text s \<Longrightarrow> plain_text t \<Longrightarrow> plain_text (s @ t)"
proof (induction s rule: plain_text.induct)
  case (2 c)
  with plain_char_ascii [of c] show ?case by (cases t) simp_all
qed (simp_all split: if_splits)

lemma plain_text_chars: "\<forall>c \<in> set s. plain_char c \<Longrightarrow> plain_text s"
  by (induction s rule: plain_text.induct) (simp_all add: plain_char_ascii)

lemma plain_digits: "\<forall>c \<in> set s. digit c \<Longrightarrow> plain_text s"
  by (rule plain_text_chars) (force simp: plain_char_def digit_def)

lemma plain_decimal [simp]: "plain_text (decimal n)"
  using digit_decimal by (intro plain_digits) blast

lemma plain_fmtFrac [simp]: "plain_text (fmtFrac k u)"
proof -
  have "plain_text (trim_zeros (last_digits k u))"
    by (rule trim_last_digits [of k u]) (rule plain_digits)
  moreover have "plain_text ''.''" by (simp add: plain_char_def)
  ultimately show ?thesis using plain_text_append [of "''.''"] by (simp add: fmtFrac_def Let_def)
qed

lemma plain_Duration_String: "plain_text (Duration_String d)"
proof -
  have units: "plain_text ''ns''" "plain_text micro_sign" "plain_text ''ms''" "plain_text ''s''" "plain_text ''m''"
    "plain_text ''h''" "plain_text ''0s''" "plain_text ''-''"
    by (simp_all add: plain_char_def micro_sign_def)
  have "plain_text (duration_text u)" for u
    by (auto simp: duration_text_def Let_def units intro!: plain_text_append simp del: append_Cons plain_text.simps)
  then show ?thesis by (auto simp: Duration_String_def units intro!: plain_text_append simp del: append_Cons plain_text.simps)
qed

text \<open>What the program relies on of the JSON strings.\<close>

locale json_lib =
  fixes js :: json_strings
  assumes Unmarshal_Marshal: "plain_text s \<Longrightarrow> js_Unmarshal js (js_Marshal js s) = Inr s"
begin

lemma duration_json:
  assumes "- (2 ^ 63) \<le> d" and "d < 2 ^ 63"
  shows "Duration_UnmarshalJSON js (Duration_MarshalJSON js d) = Inr d"
  using Unmarshal_Marshal [OF plain_Duration_String] ParseDuration_String [OF assms]
  by (simp add: Duration_UnmarshalJSON_def Duration_MarshalJSON_def)

end

text \<open>Strings without escapes: the text between two quotes.\<close>

definition quoted_strings :: json_strings where
  "quoted_strings =
     \<lparr>js_Marshal = (\<lambda>s. 0x22 # map of_char s @ [0x22]),
      js_Unmarshal = (\<lambda>b. if 2 \<le> length b \<and> hd b = 0x22 \<and> last b = 0x22
        then Inr (map (\<lambda>w. char_of (unat w)) (butlast (tl b))) else Inl (OtherError ''invalid character''))\<rparr>"

interpretation quoted: json_lib quoted_strings
proof
  have "char_of (unat (of_char c :: byte)) = c" for c :: char
  proof -
    have "(of_char c :: byte) = word_of_nat (of_char c)" by (simp add: of_nat_of_char)
    then have "unat (of_char c :: byte) = of_char c"
      by (simp add: unsigned_of_nat take_bit_nat_eq_self del: of_nat_of_char)
    then show ?thesis by simp
  qed
  then show "js_Unmarshal quoted_strings (js_Marshal quoted_strings s) = Inr s" for s
    by (simp add: quoted_strings_def comp_def)
qed

section \<open>Properties\<close>

text \<open>
  C40. A duration survives its JSON form: for every 64-bit number of nanoseconds, what \<open>MarshalJSON\<close>
  writes is read back by \<open>UnmarshalJSON\<close> as the same duration. The text has up to three units and a
  fraction whose zeros are trimmed, and the parser computes the fraction in floating point, without
  an error. (Relied on: JSON strings read back when they contain only printable ASCII characters that
  are not escaped, and micro signs.)
\<close>

theorem duration_json_roundtrip:
  assumes "json_lib js" and "- (2 ^ 63) \<le> d" and "d < 2 ^ 63"
  shows "Duration_UnmarshalJSON js (Duration_MarshalJSON js d) = Inr d"
  by (rule json_lib.duration_json [OF assms])

theorem duration_json_roundtrip_witness:
  "Duration_UnmarshalJSON quoted_strings (Duration_MarshalJSON quoted_strings (- 5400000001500)) = Inr (- 5400000001500)"
  by (rule duration_json_roundtrip) (use quoted.json_lib_axioms in simp_all)

end
