(* ===== verification/Load_Figures.thy ===== *)
theory Load_Figures
  imports Metrics_Collector Duration_Text
begin

text \<open>
  The figures of the load generator, the end of \<open>stress_tester/internal/loader/loader.go\<close>: the knee
  points of a series of results and the formatting of durations, rates and numbers.
\<close>

section \<open>Knee points\<close>

record aggregated_result =
  ar_Scenario :: string
  ar_Profile :: string
  ar_System :: string
  ar_Config :: load_config
  ar_Report :: "report option"

definition latencyForMetric :: "report option \<Rightarrow> string \<Rightarrow> duration" where
  "latencyForMetric r metric =
     (case r of
        None \<Rightarrow> 0
      | Some r \<Rightarrow>
          if metric = ''avg'' then rp_AvgLatency r
          else if metric = ''p50'' then rp_P50 r
          else if metric = ''p95'' then rp_P95 r
          else if metric = ''p99'' then rp_P99 r
          else rp_P95 r)"

definition zero_profile :: network_profile where
  "zero_profile = \<lparr>np_Name = [], np_Description = [], np_Delay = [], np_Jitter = [], np_Loss = 0, np_Rate = [],
     np_Correlation = 0\<rparr>"

definition default_profile :: "string \<Rightarrow> network_profile" where
  "default_profile name = (case map_of DefaultProfiles name of None \<Rightarrow> zero_profile | Some p \<Rightarrow> p)"

definition profile_value :: "string \<Rightarrow> string \<Rightarrow> float64" where
  "profile_value metric name =
     (if metric = ''loss'' then np_Loss (default_profile name)
      else if metric = ''delay'' then
        fl (Seconds (case ParseDuration (np_Delay (default_profile name)) of None \<Rightarrow> 0 | Some d \<Rightarrow> d) * 1000)
      else 0)"

definition knee_at :: "string \<Rightarrow> aggregated_result list \<Rightarrow> nat \<Rightarrow> bool" where
  "knee_at metric results i =
     (let prev = latencyForMetric (ar_Report (results ! (i - 1))) metric;
          curr = latencyForMetric (ar_Report (results ! i)) metric;
          nxt = latencyForMetric (ar_Report (results ! (i + 1))) metric;
          prevSlope = wrap64 (curr - prev);
          nextSlope = wrap64 (nxt - curr)
      in nextSlope > wrap64 (prevSlope * 2))"

definition knee_step ::
    "string \<Rightarrow> aggregated_result list \<Rightarrow> nat \<Rightarrow> (float64 \<rightharpoonup> float64) \<Rightarrow> float64 \<rightharpoonup> float64" where
  "knee_step metric results i points =
     (if knee_at metric results i then
        let profileVal = profile_value metric (ar_Profile (results ! i))
        in if profileVal > 0
           then points(profileVal \<mapsto> fl (Seconds (latencyForMetric (ar_Report (results ! i)) metric) * 1000))
           else points
      else points)"

definition CalculateKneePoints :: "aggregated_result list \<Rightarrow> string \<Rightarrow> float64 \<rightharpoonup> float64" where
  "CalculateKneePoints results metric =
     (if length results < 3 then Map.empty
      else fold (knee_step metric results) [1..<length results - 1] Map.empty)"

section \<open>Formatting\<close>

definition FormatDuration :: "duration \<Rightarrow> string" where
  "FormatDuration d =
     (if d \<ge> Second then Sprintf_f 3 (Seconds d) @ ''s''
      else if d \<ge> Millisecond then Sprintf_f 2 (fl (fl (of_int (d div 1000)) / 1000)) @ ''ms''
      else if d \<ge> 1000 then Sprintf_f 2 (fl (fl (of_int d) / 1000)) @ micro_sign @ ''s''
      else Itoa d @ ''ns'')"

definition FormatRPS :: "float64 \<Rightarrow> string" where
  "FormatRPS rps =
     (if rps \<ge> 1000000 then Sprintf_f 2 (fl (rps / 1000000)) @ ''M''
      else if rps \<ge> 1000 then Sprintf_f 2 (fl (rps / 1000)) @ ''K''
      else Sprintf_f 2 rps)"

definition FormatFloat :: "float64 \<Rightarrow> string" where
  "FormatFloat v = (if v = of_int (int_of_float v) then Sprintf_f 0 v else Sprintf_f 2 v)"

section \<open>Lemmas\<close>

lemma ParseDuration_ms:
  assumes "v \<le> 1000"
  shows "ParseDuration (decimal v @ ''ms'') = Some (int v * Millisecond)"
proof -
  have "parse_loop (decimal v @ ''ms'') 0 = Some (v * 10 ^ 6)"
    using parse_loop_whole [OF unit_values(3) unit_names(3), of "[]" 0 v] assms by simp
  moreover have "hd (decimal v) \<noteq> CHR ''-''" "hd (decimal v) \<noteq> CHR ''+''"
    using digit_hd_decimal [of v] by (auto simp: digit_def)
  moreover have "last (decimal v @ ''ms'') = CHR ''s''" by simp
  then have "decimal v @ ''ms'' \<noteq> ''0''" by force
  moreover have "int v * 1000000 \<le> 2 ^ 63 - 1" using assms by simp
  ultimately show ?thesis using assms by (simp add: ParseDuration_def Millisecond_def)
qed

lemma default_delays_parse:
  "\<forall>(name, p) \<in> set DefaultProfiles. \<exists>d. ParseDuration (np_Delay p) = Some d \<and> 0 < d"
proof -
  have ms: "ParseDuration (s @ ''ms'') = Some (int v * Millisecond)" if "decimal v = s" "v \<le> 1000" for s v
    using ParseDuration_ms that by blast
  have "decimal 1 = ''1''" "decimal 5 = ''5''" "decimal 30 = ''30''" "decimal 60 = ''60''" "decimal 150 = ''150''"
    "decimal 200 = ''200''" "decimal 300 = ''300''" "decimal 500 = ''500''" "decimal 20 = ''20''"
    by code_simp+
  from this [THEN ms] show ?thesis by (simp add: DefaultProfiles_def Millisecond_def)
qed

text \<open>The keys of the knee points are the values of the profiles at which the slope more than doubles.\<close>

lemma knee_points_keys:
  "v \<in> dom (CalculateKneePoints results metric) \<longleftrightarrow>
     0 < v \<and> (\<exists>i. 0 < i \<and> i + 1 < length results \<and> knee_at metric results i \<and>
       profile_value metric (ar_Profile (results ! i)) = v)"
proof -
  have fold: "v \<in> dom (fold (knee_step metric results) is m) \<longleftrightarrow> v \<in> dom m \<or> 0 < v \<and>
      (\<exists>i \<in> set is. knee_at metric results i \<and> profile_value metric (ar_Profile (results ! i)) = v)" for m "is"
    by (induction "is" arbitrary: m) (auto simp: knee_step_def Let_def)
  show ?thesis
  proof (cases "length results < 3")
    case True
    then show ?thesis by (auto simp: CalculateKneePoints_def)
  next
    case False
    have "set [1..<length results - 1] = {i. 0 < i \<and> i + 1 < length results}" by auto
    with False show ?thesis
      unfolding CalculateKneePoints_def using fold [of "[1..<length results - 1]" Map.empty] by simp
  qed
qed

text \<open>
  The metric chooses the latency and the axis at once, so that no metric has both a latency other
  than P95 and an axis: for the metrics that name a latency there are no knee points at all.
\<close>

lemma knee_points_empty:
  assumes "metric \<noteq> ''loss''" and "metric \<noteq> ''delay''"
  shows "CalculateKneePoints results metric = Map.empty"
proof -
  have "profile_value metric name = 0" for name using assms by (simp add: profile_value_def)
  then have "v \<notin> dom (CalculateKneePoints results metric)" for v unfolding knee_points_keys by auto
  then show ?thesis by (metis domIff ext)
qed

lemma knee_points_p95:
  assumes "metric = ''loss'' \<or> metric = ''delay''"
  shows "latencyForMetric (Some r) metric = rp_P95 r"
  using assms by (auto simp: latencyForMetric_def)

text \<open>A rate below a thousand is printed with two decimals, and FormatFloat drops them for integers.\<close>

lemma FormatFloat_int: "FormatFloat (of_int n) = Itoa n"
proof -
  have "int_of_float (of_int n) = n" by (simp add: int_of_float_def)
  moreover have "nat (round_even \<bar>of_int n\<bar>) = nat \<bar>n\<bar>" using round_even_int [of "\<bar>n\<bar>"] by simp
  ultimately show ?thesis by (simp add: FormatFloat_def Sprintf_f_def Itoa_def Let_def)
qed

end
