(* ===== verification/Bench_Summary.thy ===== *)
theory Bench_Summary
  imports Bench_Main Load_Figures
begin

text \<open>
  What the command line of the stress tester prints, \<open>stress_tester/main.go\<close>: the usage, the lists
  of profiles and scenarios, and the summary of a benchmark, as the text on the standard output.
\<close>

section \<open>Usage and lists\<close>

definition println :: "string \<Rightarrow> string" where
  "println s = s @ newline"

definition printUsage :: string where
  "printUsage = concat (map println
     [''qRPC Benchmark Framework '' @ em_dash @ '' stress testing and network degradation analysis.'',
      [],
      ''Usage:'',
      ''  stress_test <command> [options]'',
      [],
      ''Commands:'',
      ''  run         Run a benchmark scenario'',
      ''  server      Start the benchmark server'',
      ''  profiles    List available network profiles'',
      ''  scenarios   List available test scenarios'',
      ''  cleanup     Clean network emulation rules'',
      [],
      ''Run '' @ [CHR 0x27] @ ''stress_test <command> -h'' @ [CHR 0x27] @ '' for command-specific help.''])"

definition ruler :: "nat \<Rightarrow> char \<Rightarrow> string" where
  "ruler n c = println (replicate n c)"

definition profile_line :: "network_profile \<Rightarrow> string" where
  "profile_line p = println (pad_right 12 (np_Name p) @ '' '' @ pad_right 10 (np_Delay p) @ '' '' @
     pad_right 10 (np_Jitter p) @ '' '' @ pad_right 8 (Sprintf_f 1 (np_Loss p)) @ '' '' @ np_Description p)"

definition listProfiles :: string where
  "listProfiles =
     println ''Available Network Profiles:'' @ ruler 60 CHR ''-'' @
     println (pad_right 12 ''Name'' @ '' '' @ pad_right 10 ''Delay'' @ '' '' @ pad_right 10 ''Jitter'' @ '' '' @
       pad_right 8 ''Loss%'' @ '' '' @ ''Description'') @ ruler 60 CHR ''-'' @
     concat (map (\<lambda>name. profile_line (default_profile name)) [''clean'', ''wifi'', ''lte'', ''bad_lte'', ''extreme'']) @
     ruler 60 CHR ''-''"

definition scenario_lines :: "string \<Rightarrow> scenario \<Rightarrow> string" where
  "scenario_lines name s =
     (let lc = sc_LoadConfig s
      in newline @ println (''  '' @ name @ '':'') @ println (''    '' @ sc_Description s) @
         println (''    Workers: '' @ Itoa (lc_Workers lc) @ '', Pipelining: '' @ Itoa (lc_Pipelining lc) @
           '', Streams: '' @ Itoa (lc_Streams lc) @ '', Connections: '' @ Itoa (lc_Connections lc) @
           '', Workload: '' @ lc_Workload lc @ '', Duration: '' @ Duration_String (lc_Duration lc)) @
         println (''    Profiles: '' @ Join (sc_Profiles s) '', ''))"

text \<open>\<open>order\<close> is the order in which the loop visits the map of the scenarios.\<close>

definition listScenarios :: "(string \<times> scenario) list \<Rightarrow> string" where
  "listScenarios order =
     println ''Available Test Scenarios:'' @ ruler 70 CHR ''-'' @
     concat (map (\<lambda>(name, s). scenario_lines name s) order) @ ruler 70 CHR ''-''"

section \<open>The summary\<close>

definition summary_line :: "report \<Rightarrow> string" where
  "summary_line r = println (pad_right 12 (rp_Profile r) @ '' '' @ pad_right 12 (Itoa (rp_TotalRequests r)) @ '' '' @
     pad_right 11 (Sprintf_f 2 (rp_SuccessRate r)) @ '' '' @ pad_right 12 (FormatRPS (rp_RPS r)) @ '' '' @
     pad_right 12 (FormatDuration (rp_AvgLatency r)) @ '' '' @ pad_right 12 (FormatDuration (rp_P50 r)) @ '' '' @
     pad_right 12 (FormatDuration (rp_P95 r)) @ '' '' @ pad_right 12 (FormatDuration (rp_P99 r)))"

definition tail_line :: "report \<Rightarrow> string" where
  "tail_line r = println (pad_right 12 (rp_Profile r) @ '' '' @ pad_right 12 (FormatDuration (rp_P95 r)) @ '' '' @
     pad_right 12 (FormatDuration (rp_P99 r)) @ '' '' @ pad_right 12 (FormatDuration (rp_P999 r)) @ '' '' @
     pad_right 12 (FormatDuration (rp_MaxLatency r)))"

definition bucket_names :: "string list" where
  "bucket_names = [''<1ms'', ''1-5ms'', ''5-10ms'', ''10-25ms'', ''25-50ms'', ''50-100ms'', ''100-250ms'',
     ''250-500ms'', ''500ms-1s'', ''1-2s'', ''2-5s'', ''>5s'']"

definition bucket_pct :: "report \<Rightarrow> int \<Rightarrow> float64" where
  "bucket_pct r count = fl (fl (fl (of_int count) / fl (of_int (rp_SuccessCount r))) * 100)"

definition bar_width :: "report \<Rightarrow> int \<Rightarrow> int" where
  "bar_width r count = int_of_float (fl (bucket_pct r count / 2))"

definition bucket_line :: "report \<Rightarrow> string \<Rightarrow> string outcome" where
  "bucket_line r bucket =
     (case rp_LatencyDist r bucket of
        None \<Rightarrow> Ok []
      | Some count \<Rightarrow>
          if count > 0 then
            obind (Repeat full_block (bar_width r count))
              (\<lambda>bar. Ok (println (''    '' @ pad_right 10 bucket @ '' '' @ pad_left 8 (Itoa count) @ '' ('' @
                 pad_left 5 (Sprintf_f 1 (bucket_pct r count)) @ ''%) '' @ bar)))
          else Ok [])"

fun concat_lines :: "string outcome list \<Rightarrow> string outcome" where
  "concat_lines [] = Ok []"
| "concat_lines (l # ls) = obind l (\<lambda>s. obind (concat_lines ls) (\<lambda>t. Ok (s @ t)))"

definition dist_lines :: "report \<Rightarrow> string outcome" where
  "dist_lines r =
     concat_lines (Ok (newline @ println (''  '' @ rp_Profile r @ '':'')) # map (bucket_line r) bucket_names)"

definition printSummary :: "string \<Rightarrow> report list \<Rightarrow> string outcome" where
  "printSummary scenario_name reports =
     concat_lines
       ([Ok (newline @ ruler 70 CHR ''=''), Ok (println (''BENCHMARK SUMMARY: '' @ scenario_name)), Ok (ruler 70 CHR ''=''),
         Ok (newline @ println (Join (map (pad_right 12)
           [''Profile'', ''Total'', ''Success%'', ''RPS'', ''Avg'', ''P50'', ''P95'', ''P99'']) '' '')),
         Ok (ruler 100 CHR ''-'')] @
        map (\<lambda>r. Ok (summary_line r)) reports @
        [Ok (ruler 100 CHR ''=''), Ok (newline @ println ''Tail Latency Analysis:''),
         Ok (println (Join (map (pad_right 12) [''Profile'', ''P95'', ''P99'', ''P99.9'', ''Max'']) '' '')),
         Ok (ruler 64 CHR ''-'')] @
        map (\<lambda>r. Ok (tail_line r)) reports @
        [Ok (newline @ println ''Latency Distribution:'')] @
        map dist_lines reports @
        [Ok newline])"

text \<open>\<open>runServer\<close> on the two servers, which return an error or never; the exit code.\<close>

definition runServer ::
    "(string \<Rightarrow> bool \<Rightarrow> go_error option outcome) \<Rightarrow> (string \<Rightarrow> bool \<Rightarrow> go_error option outcome) \<Rightarrow>
     string \<Rightarrow> bool \<Rightarrow> string \<Rightarrow> int outcome" where
  "runServer grpc_RunServer server_RunServer addr cpu system =
     obind (if system = ''grpc'' then grpc_RunServer addr cpu else server_RunServer addr cpu)
       (\<lambda>err. Ok (case err of None \<Rightarrow> 0 | Some e \<Rightarrow> 1))"

section \<open>Lemmas\<close>

lemma concat_lines_Ok:
  assumes "\<forall>l \<in> set ls. \<exists>s. l = Ok s"
  shows "\<exists>s. concat_lines ls = Ok s"
  using assms by (induction ls) (auto simp: obind_def)

lemma bar_bounds:
  assumes "0 \<le> count" and "count \<le> rp_SuccessCount r" and "0 < rp_SuccessCount r" and "rp_SuccessCount r \<le> 2 ^ 53"
  shows "0 \<le> bucket_pct r count" and "bucket_pct r count \<le> 100"
    and "0 \<le> bar_width r count" and "bar_width r count \<le> 50"
proof -
  show p: "0 \<le> bucket_pct r count" "bucket_pct r count \<le> 100"
    using success_rate_bounds(1,2) [OF assms(1,2,4,3)] by (simp_all add: bucket_pct_def)
  have "0 \<le> fl (bucket_pct r count / 2)" "fl (bucket_pct r count / 2) \<le> of_int 50"
    using p ieee.le_int [of "bucket_pct r count / 2" 50] by (simp_all add: fl_nonneg)
  then show "0 \<le> bar_width r count" "bar_width r count \<le> 50"
    using floor_mono [of "fl (bucket_pct r count / 2)" "of_int 50"]
    by (simp_all add: bar_width_def int_of_float_nonneg)
qed

lemma Report_bucket_le:
  assumes "rp_LatencyDist (Report scen prof system lc raw c) name = Some count"
  shows "count \<le> rp_SuccessCount (Report scen prof system lc raw c)"
proof (cases "co_samples c = []")
  case True
  with assms show ?thesis by (simp add: Report_def Let_def)
next
  case False
  note parts = Report_parts [OF this, of scen prof system lc raw]
  have "bucket_count (rp_LatencyDist (Report scen prof system lc raw c)) name = count"
    using assms by (simp add: bucket_count_def)
  then have "count = int (length (filter (\<lambda>l. find_bucket buckets l = Some name)
      (map (\<lambda>d. fl (of_int d)) (durations (co_samples c)))))"
    unfolding parts(6) bucket_count_buildDistribution by simp
  then show ?thesis unfolding parts(2)
    using length_filter_le [of _ "map (\<lambda>d. fl (of_int d)) (durations (co_samples c))"]
    by (metis length_map of_nat_le_iff)
qed

text \<open>A report that a collector made of at most \<open>2 ^ 53\<close> samples.\<close>

definition collected :: "report \<Rightarrow> bool" where
  "collected r \<longleftrightarrow> (\<exists>scen prof system lc raw c.
     r = Report scen prof system lc raw c \<and> int (length (co_samples c)) \<le> 2 ^ 53)"

lemma collected_bars:
  assumes "collected r" and "rp_LatencyDist r bucket = Some count" and "0 < count"
  shows "0 \<le> bucket_pct r count \<and> bucket_pct r count \<le> 100 \<and> 0 \<le> bar_width r count \<and> bar_width r count \<le> 50"
proof -
  obtain scen prof system lc raw c where r: "r = Report scen prof system lc raw c"
    and n: "int (length (co_samples c)) \<le> 2 ^ 53" using assms(1) by (auto simp: collected_def)
  have le: "count \<le> rp_SuccessCount r" using Report_bucket_le assms(2) unfolding r by blast
  have "length (filter sa_Success (co_samples c)) \<le> length (co_samples c)" by simp
  then have "rp_SuccessCount r \<le> 2 ^ 53" using n unfolding r Report_fields(1) by linarith
  with bar_bounds [of count r] le assms(3) show ?thesis by simp
qed

section \<open>Properties\<close>

text \<open>
  The summary is always printed: for the reports of collectors \<open>printSummary\<close> does not panic, in
  spite of the division by the number of successes and of \<open>strings.Repeat\<close>, which refuses a negative
  count; every percentage of the distribution is between 0 and 100, and no bar is longer than 50
  blocks.
\<close>

theorem summary_printed:
  assumes "\<forall>r \<in> set reports. collected r"
  shows "(\<exists>text. printSummary name reports = Ok text) \<and>
    (\<forall>r \<in> set reports. \<forall>bucket count. rp_LatencyDist r bucket = Some count \<and> 0 < count \<longrightarrow>
       0 \<le> bucket_pct r count \<and> bucket_pct r count \<le> 100 \<and> 0 \<le> bar_width r count \<and> bar_width r count \<le> 50)"
proof
  have "\<exists>s. bucket_line r b = Ok s" if "r \<in> set reports" for r b
  proof (cases "rp_LatencyDist r b")
    case (Some count)
    then show ?thesis
      using collected_bars [of r b count] assms that by (auto simp: bucket_line_def Repeat_def obind_def)
  qed (simp add: bucket_line_def)
  then have dist: "\<exists>s. dist_lines r = Ok s" if "r \<in> set reports" for r
    unfolding dist_lines_def using that by (intro concat_lines_Ok) auto
  show "\<exists>text. printSummary name reports = Ok text"
    unfolding printSummary_def by (rule concat_lines_Ok) (use dist in auto)
  show "\<forall>r \<in> set reports. \<forall>bucket count. rp_LatencyDist r bucket = Some count \<and> 0 < count \<longrightarrow>
       0 \<le> bucket_pct r count \<and> bucket_pct r count \<le> 100 \<and> 0 \<le> bar_width r count \<and> bar_width r count \<le> 50"
    using assms collected_bars by blast
qed

theorem summary_printed_witness:
  "\<exists>text. printSummary ''rtt_scaling'' [Report ''rtt_scaling'' ''lte'' ''qrpc'' load_config_zero False demo_collector] = Ok text"
proof -
  have "collected (Report ''rtt_scaling'' ''lte'' ''qrpc'' load_config_zero False demo_collector)"
    unfolding collected_def by (intro exI conjI) (rule refl, simp add: demo_samples)
  with summary_printed [of "[Report ''rtt_scaling'' ''lte'' ''qrpc'' load_config_zero False demo_collector]" "''rtt_scaling''"]
  show ?thesis by simp
qed

end
