(* ===== verification/Heat_Map.thy ===== *)
theory Heat_Map
  imports Run_All Bench_Summary
begin

text \<open>
  The output of \<open>runall_stress/main.go\<close>: the HTML page with the heat map, the colours of its cells,
  the formatting of figures, and the summary on the console. Texts are UTF-8 bytes; the errors of
  writing them are ignored by the program.
\<close>

section \<open>Colours and figures\<close>

definition rgba :: "int \<Rightarrow> int \<Rightarrow> int \<Rightarrow> int \<Rightarrow> string" where
  "rgba r g b a =
     (let r = (if r > 255 then 255 else r);
          g = (if g > 255 then 255 else g);
          b = (if b > 255 then 255 else b);
          a = (if a > 100 then 100 else a);
          a = (if a < 0 then 0 else a)
      in ''rgba('' @ Itoa r @ '','' @ Itoa g @ '','' @ Itoa b @ '','' @ Sprintf_f 2 (fl (of_int a / 100)) @ '')'')"

definition heat_ratio :: "float64 \<Rightarrow> float64 \<Rightarrow> float64 \<Rightarrow> bool \<Rightarrow> float64" where
  "heat_ratio val least greatest reverse =
     (let ratio = fl (fl (val - least) / fl (greatest - least));
          ratio = (if ratio > 1 then 1 else ratio)
      in if reverse then fl (1 - ratio) else ratio)"

definition heatColor :: "float64 \<Rightarrow> float64 \<Rightarrow> float64 \<Rightarrow> bool \<Rightarrow> string" where
  "heatColor val least greatest reverse =
     (if greatest = least then rgba 128 255 128 30
      else
        let ratio = heat_ratio val least greatest reverse;
            r = int_of_float (fl (255 * fl (1 - ratio)));
            g = int_of_float (fl (255 * ratio))
        in rgba r g 80 (40 + int_of_float (fl (60 * ratio))))"

definition fmtLatency :: "int \<Rightarrow> string" where
  "fmtLatency ns =
     (if ns \<ge> 1000000000 then Sprintf_f 2 (fl (fl (of_int ns) / 10 ^ 9)) @ ''s''
      else if ns \<ge> 1000000 then Sprintf_f 1 (fl (fl (of_int ns) / 10 ^ 6)) @ ''ms''
      else if ns \<ge> 1000 then Sprintf_f 1 (fl (fl (of_int ns) / 10 ^ 3)) @ micro_sign @ ''s''
      else Itoa ns @ ''ns'')"

definition fmtRPS :: "float64 \<Rightarrow> string" where
  "fmtRPS v =
     (if v \<ge> 1000000 then Sprintf_f 2 (fl (v / 10 ^ 6)) @ ''M''
      else if v \<ge> 1000 then Sprintf_f 1 (fl (v / 10 ^ 3)) @ ''K''
      else Sprintf_f 0 v)"

section \<open>The page\<close>

definition htmlHeader :: string where
  \<open>htmlHeader = concat (map println
     [''<!DOCTYPE html>'',
      ''<html lang="en">'',
      ''<head><meta charset="utf-8">'',
      ''<title>qRPC Benchmark Heatmap</title>'',
      ''<style>'',
      ''  body { font-family: -apple-system, BlinkMacSystemFont, '' @ [CHR 0x27] @ ''Segoe UI'' @ [CHR 0x27] @ '', sans-serif;'',
      ''         margin: 30px; background: #f8f9fa; color: #222; }'',
      ''  h1 { border-bottom: 2px solid #4e79a7; padding-bottom: 8px; }'',
      ''  h2 { color: #4e79a7; margin: 28px 0 12px; clear: both; }'',
      ''  .scenario { margin-bottom: 40px; }'',
      ''  table { border-collapse: collapse; font-size: 13px; }'',
      ''  th, td { border: 1px solid #ccc; padding: 8px 12px; text-align: center; }'',
      ''  th { background: #4e79a7; color: #fff; font-weight: 600; }'',
      ''  th.rotated { height: 80px; white-space: nowrap; vertical-align: bottom; }'',
      ''  th.rotated span { writing-mode: vertical-lr; transform: rotate(180deg); }'',
      ''  td.pay { font-weight: 600; text-align: right; background: #e9ecef; }'',
      ''  td.no-data { color: #aaa; font-style: italic; }'',
      ''  .data-cell { padding: 0; }'',
      ''  .data-cell div { padding: 4px 8px; }'',
      ''  .rps { font-weight: 700; font-size: 14px; border-bottom: 1px solid rgba(0,0,0,0.1); }'',
      ''  .p95 { font-size: 12px; color: #444; }'',
      ''  tr:nth-child(even) td.pay { background: #dee2e6; }'',
      ''  .summary-grid { display: flex; flex-wrap: wrap; gap: 20px; }'',
      ''  .summary-grid table { flex: 0 0 auto; }'',
      ''</style></head><body>'',
      ''<h1>'' @ [CHR 0xF0, CHR 0x9F, CHR 0x93, CHR 0x8A] @ '' qRPC Benchmark '' @ em_dash @ '' Heatmap</h1>'',
      ''<p>Payload sizes: 100 B / 4 KB &nbsp;|&nbsp; Connections: 1 / 16 &nbsp;|&nbsp; Pipelining: 64 &nbsp;|&nbsp; Duration: 10s + 3s warmup</p>''])\<close>

definition htmlFooter :: string where
  "htmlFooter = ''</body></html>''"

definition tabs :: string where
  "tabs = replicate 4 (CHR 0x09)"

definition render_cell :: "scenario_data \<Rightarrow> cell \<Rightarrow> string" where
  \<open>render_cell sd c =
     (if \<not> ce_HasData c then ''<td class="no-data">'' @ em_dash @ ''</td>''
      else
        let rpsBg = heatColor (ce_RPS c) 0 (sd_MaxRPS sd) False;
            p95Bg = heatColor (fl (of_int (ce_P95 c))) 0 (fl (of_int (sd_MaxP95 sd))) True
        in println ''<td class="data-cell">'' @
           println (tabs @ ''<div class="rps" style="background:'' @ rpsBg @ ''">'' @ fmtRPS (ce_RPS c) @ ''</div>'') @
           println (tabs @ ''<div class="p95" style="background:'' @ p95Bg @ ''">P95 '' @ fmtLatency (ce_P95 c) @ ''</div>'') @
           replicate 3 (CHR 0x09) @ ''</td>'')\<close>

definition render_row :: "scenario_data \<Rightarrow> string \<Rightarrow> string" where
  \<open>render_row sd pay =
     ''<tr><td class="pay">'' @ pay @ '' B</td>'' @
     concat (map (\<lambda>prof. render_cell sd (find_cell prof pay sd)) ra_profiles) @ ''</tr>''\<close>

definition renderScenario :: "scenario_data \<Rightarrow> string" where
  \<open>renderScenario sd =
     println ''<div class="scenario">'' @ println (''<h2>'' @ sd_Name sd @ ''</h2>'') @ println ''<table>'' @
     ''<thead><tr><th>Payload</th>'' @
     concat (map (\<lambda>prof. ''<th class="rotated"><span>'' @ prof @ ''</span></th>'') ra_profiles) @
     ''</tr></thead><tbody>'' @ concat (map (render_row sd) payloadSizes) @ ''</tbody></table></div>''\<close>

text \<open>A table of a figure per scenario and profile, with a dash where it is not positive.\<close>

definition summary_rows :: "(string \<Rightarrow> scenario_data \<Rightarrow> string option) \<Rightarrow> scenario_data list \<Rightarrow> string" where
  "summary_rows figure sds =
     concat (map (\<lambda>sd. ''<tr><td>'' @ sd_Name sd @ ''</td>'' @
       concat (map (\<lambda>prof. ''<td>'' @ (case figure prof sd of Some s \<Rightarrow> s | None \<Rightarrow> em_dash) @ ''</td>'') ra_profiles) @
       ''</tr>'') sds)"

definition rps_figure :: "string \<Rightarrow> scenario_data \<Rightarrow> string option" where
  "rps_figure prof sd = (if best_rps prof sd > 0 then Some (fmtRPS (best_rps prof sd)) else None)"

definition p95_figure :: "string \<Rightarrow> scenario_data \<Rightarrow> string option" where
  "p95_figure prof sd = (if worst_p95 prof sd > 0 then Some (fmtLatency (worst_p95 prof sd)) else None)"

definition summary_head :: "string \<Rightarrow> string" where
  \<open>summary_head title =
     println (''<div class="scenario"><h2>Summary '' @ em_dash @ '' '' @ title @ ''</h2><table>'') @
     ''<thead><tr><th>Scenario</th>'' @ concat (map (\<lambda>prof. ''<th>'' @ prof @ ''</th>'') ra_profiles) @
     ''</tr></thead><tbody>''\<close>

definition summaryTable :: "scenario_data list \<Rightarrow> string" where
  "summaryTable sds =
     summary_head ''RPS'' @ summary_rows rps_figure sds @ ''</tbody></table></div>'' @
     summary_head ''P95 Latency'' @ summary_rows p95_figure sds @ ''</tbody></table></div>''"

definition heatmap_html :: "scenario_data list \<Rightarrow> string" where
  "heatmap_html sds = htmlHeader @ concat (map renderScenario sds) @ summaryTable sds @ htmlFooter"

section \<open>The console\<close>

definition console_head :: string where
  "console_head = println (pad_right 22 ''Scenario'' @ concat (map (\<lambda>p. '' '' @ pad_left 12 p) ra_profiles))"

definition console_lines :: "(string \<Rightarrow> scenario_data \<Rightarrow> string option) \<Rightarrow> scenario_data list \<Rightarrow> string" where
  "console_lines figure sds =
     concat (map (\<lambda>sd. println (pad_right 22 (sd_Name sd) @
       concat (map (\<lambda>prof. '' '' @ pad_left 12 (case figure prof sd of Some s \<Rightarrow> s | None \<Rightarrow> em_dash)) ra_profiles))) sds)"

definition printConsoleSummary :: "scenario_data list \<Rightarrow> string" where
  "printConsoleSummary sds =
     newline @ ruler 90 CHR ''='' @ println ''RESULTS SUMMARY (best RPS across payload sizes)'' @ ruler 90 CHR ''='' @
     console_head @ ruler 90 CHR ''-'' @ console_lines rps_figure sds @ ruler 90 CHR ''='' @
     newline @ println ''TAIL LATENCY (worst P95 across payload sizes)'' @ ruler 90 CHR ''-'' @
     console_head @ ruler 90 CHR ''-'' @ console_lines p95_figure sds @ ruler 90 CHR ''-''"

section \<open>Lemmas\<close>

lemma heat_ratio_bounds:
  assumes "0 \<le> val" and "val \<le> mx" and "0 < mx" and "fl mx = mx"
  shows "0 \<le> heat_ratio val 0 mx invert" and "heat_ratio val 0 mx invert \<le> 1"
proof -
  have "0 \<le> fl val" "fl val \<le> mx" using assms fl_mono [of val mx] by (simp_all add: fl_nonneg)
  then have "0 \<le> fl val / mx" "fl val / mx \<le> 1" using assms(3) by simp_all
  then have "0 \<le> fl (fl val / mx)" "fl (fl val / mx) \<le> 1" by (simp_all add: fl_nonneg ieee.le_one)
  then show "0 \<le> heat_ratio val 0 mx invert" "heat_ratio val 0 mx invert \<le> 1"
    using assms(4) by (simp_all add: heat_ratio_def Let_def fl_nonneg ieee.le_one)
qed

text \<open>A share of a whole number between 0 and 1, rounded and truncated.\<close>

lemma share_bounds:
  assumes "0 \<le> x" and "x \<le> 1" and "0 \<le> n" and "n \<le> 2 ^ 53"
  shows "0 \<le> int_of_float (fl (of_int n * x))" and "int_of_float (fl (of_int n * x)) \<le> n"
proof -
  have "0 \<le> of_int n * x" "of_int n * x \<le> of_int n"
    using assms by (simp_all add: mult_left_le)
  then have "0 \<le> fl (of_int n * x)" "fl (of_int n * x) \<le> of_int n"
    using assms(4) by (simp_all add: fl_nonneg ieee.le_int)
  then show "0 \<le> int_of_float (fl (of_int n * x))" "int_of_float (fl (of_int n * x)) \<le> n"
    using floor_mono [of "fl (of_int n * x)" "of_int n"] by (simp_all add: int_of_float_nonneg)
qed

text \<open>
  The colours of the heat map are well formed: the channels are bytes and the opacity is between
  40 and 100 percent, so that the limits of \<open>rgba\<close> never apply.
\<close>

lemma heatColor_range:
  assumes "0 \<le> val" and "val \<le> mx" and "0 < mx" and "fl mx = mx"
  shows "\<exists>r g a. heatColor val 0 mx invert =
      ''rgba('' @ Itoa r @ '','' @ Itoa g @ '',80,'' @ Sprintf_f 2 (fl (of_int a / 100)) @ '')'' \<and>
    0 \<le> r \<and> r \<le> 255 \<and> 0 \<le> g \<and> g \<le> 255 \<and> 40 \<le> a \<and> a \<le> 100"
proof -
  let ?x = "heat_ratio val 0 mx invert"
  let ?r = "int_of_float (fl (255 * fl (1 - ?x)))" and ?g = "int_of_float (fl (255 * ?x))"
    and ?a = "40 + int_of_float (fl (60 * ?x))"
  note x = heat_ratio_bounds [OF assms, of invert]
  have y: "0 \<le> fl (1 - ?x)" "fl (1 - ?x) \<le> 1" using x by (simp_all add: fl_nonneg ieee.le_one)
  have b: "0 \<le> ?r" "?r \<le> 255" "0 \<le> ?g" "?g \<le> 255" "40 \<le> ?a" "?a \<le> 100"
    using share_bounds [OF y, of 255] share_bounds [OF x, of 255] share_bounds [OF x, of 60] by simp_all
  have "Itoa 80 = ''80''" by code_simp
  then have "heatColor val 0 mx invert =
      ''rgba('' @ Itoa ?r @ '','' @ Itoa ?g @ '',80,'' @ Sprintf_f 2 (fl (of_int ?a / 100)) @ '')''"
    using b assms(3) by (simp add: heatColor_def rgba_def Let_def)
  with b show ?thesis by blast
qed

text \<open>The best value is green and opaque, the worst red and pale.\<close>

lemma heatColor_extremes:
  assumes "0 < mx" and "fl mx = mx"
  shows "heatColor mx 0 mx False = rgba 0 255 80 100" and "heatColor mx 0 mx True = rgba 255 0 80 40"
    and "heatColor 0 0 mx False = rgba 255 0 80 40" and "heatColor 0 0 mx True = rgba 0 255 80 100"
proof -
  have one: "fl 1 = 1" "fl 255 = 255" "fl 60 = 60"
    using fl_of_int [of 1] fl_of_int [of 255] fl_of_int [of 60] by simp_all
  show "heatColor mx 0 mx False = rgba 0 255 80 100" "heatColor mx 0 mx True = rgba 255 0 80 40"
    "heatColor 0 0 mx False = rgba 255 0 80 40" "heatColor 0 0 mx True = rgba 0 255 80 100"
    using assms one by (simp_all add: heatColor_def heat_ratio_def Let_def int_of_float_def)
qed

text \<open>The limits of a table are the greatest figures of its cells.\<close>

definition limits_ok :: "scenario_data \<Rightarrow> bool" where
  "limits_ok sd \<longleftrightarrow> 0 \<le> sd_MaxRPS sd \<and> 0 \<le> sd_MaxP95 sd \<and>
     (\<forall>c \<in> set (sd_Cells sd). ce_HasData c \<longrightarrow> ce_RPS c \<le> sd_MaxRPS sd \<and> ce_P95 c \<le> sd_MaxP95 sd) \<and>
     (sd_MaxRPS sd = 0 \<or> (\<exists>c \<in> set (sd_Cells sd). ce_HasData c \<and> ce_RPS c = sd_MaxRPS sd)) \<and>
     (sd_MaxP95 sd = 0 \<or> (\<exists>c \<in> set (sd_Cells sd). ce_HasData c \<and> ce_P95 c = sd_MaxP95 sd))"

lemma limits_ok_add:
  assumes "limits_ok sd"
  shows "limits_ok (add_cell g pp sd)"
proof (cases "group_get g (sd_Name sd) (fst pp) (snd pp)")
  case None
  with assms show ?thesis
    by (auto simp: add_cell_def limits_ok_def make_cell_def cell_zero_def Let_def)
next
  case (Some r)
  let ?sd = "add_cell g pp sd" and ?c = "make_cell (fst pp) (snd pp) (Some r)"
  have f: "sd_Cells ?sd = sd_Cells sd @ [?c]" "sd_MaxRPS ?sd = max (sd_MaxRPS sd) (rs_RPS r)"
    "sd_MaxP95 ?sd = max (sd_MaxP95 sd) (rs_P95 r)"
    using Some by (simp_all add: add_cell_def Let_def max_def)
  have c: "ce_HasData ?c" "ce_RPS ?c = rs_RPS r" "ce_P95 ?c = rs_P95 r" by (simp_all add: make_cell_def Let_def)
  show ?thesis using assms unfolding limits_ok_def f by (auto simp: c max_def)
qed

lemma scenario_table_limits: "limits_ok (scenario_table g sc)"
proof -
  have "limits_ok (fold (add_cell g) ks sd)" if "limits_ok sd" for ks sd
    using that by (induction ks arbitrary: sd) (simp_all add: limits_ok_add)
  then show ?thesis unfolding scenario_table_def by (simp add: limits_ok_def)
qed

end
