(* ===== verification/Run_All_Main.thy ===== *)
theory Run_All_Main
  imports Heat_Map "HOL-Library.Sublist"
begin

text \<open>
  The \<open>main\<close> of \<open>runall_stress/main.go\<close> with its processes: the search for the project, the build, the
  server, the benchmark runs, the report, and the deferred calls that remove the emulation and kill
  the server. What it does is a list of actions; what the system answers is the record \<open>ra_env\<close>. A
  normal return and a panic run the deferred calls, \<open>log.Fatalf\<close> ends the process without them.
\<close>

section \<open>The project\<close>

text \<open>
  \<open>findRoot\<close>: an absolute path is the list of its components, \<open>filepath.Dir\<close> drops the last one and
  leaves the root as it is.
\<close>

function findRoot_from :: "(string list \<Rightarrow> bool) \<Rightarrow> string list \<Rightarrow> string list option" where
  "findRoot_from hasMod dir =
     (if hasMod dir then Some dir
      else let parent = butlast dir
           in if parent = dir then None else findRoot_from hasMod parent)"
  by pat_completeness auto
termination
proof (relation "measure (\<lambda>(hasMod, dir). length dir)")
  show "((hasMod, parent), (hasMod, dir)) \<in> measure (\<lambda>(hasMod, dir). length dir)"
    if "parent = butlast dir" "parent \<noteq> dir" for hasMod :: "string list \<Rightarrow> bool" and dir parent
    using that by (cases dir rule: rev_cases) auto
qed simp

declare findRoot_from.simps [simp del]

definition findRoot :: "(string list \<Rightarrow> bool) \<Rightarrow> go_error + string list \<Rightarrow> string + string list" where
  "findRoot hasMod wd =
     (case wd of
        Inl err \<Rightarrow> Inl ''getwd''
      | Inr dir \<Rightarrow>
          (case findRoot_from hasMod dir of None \<Rightarrow> Inl ''project root (go.mod) not found'' | Some proj \<Rightarrow> Inr proj))"

definition path_text :: "string list \<Rightarrow> string" where
  "path_text cs = (if cs = [] then ''/'' else concat (map (\<lambda>c. ''/'' @ c) cs))"

section \<open>File names\<close>

text \<open>\<open>strings.Split\<close> at a separator that is not empty, and \<open>extractPayload\<close>.\<close>

fun Split_at :: "string \<Rightarrow> string \<Rightarrow> string \<Rightarrow> string list" where
  "Split_at sep acc [] = [acc]"
| "Split_at sep acc (c # s) =
     (if sep \<noteq> [] \<and> HasPrefix (c # s) sep then acc # Split_at sep [] (drop (length sep - 1) s)
      else Split_at sep (acc @ [c]) s)"

definition TrimSuffix :: "string \<Rightarrow> string \<Rightarrow> string" where
  "TrimSuffix s suf = (if HasSuffix s suf then take (length s - length suf) s else s)"

definition extractPayload :: "string \<Rightarrow> string" where
  "extractPayload filename =
     (let p = TrimSuffix filename ''.json'';
          parts = Split_at ''_pay'' [] p
      in if length parts = 2 then parts ! 1 else ''?'')"

section \<open>The program\<close>

datatype ra_action =
    MkdirAll string
  | Build string "string list"
  | StartServer "string list"
  | Sleep duration
  | RunBench "string list"
  | DelQdisc "string list"
  | KillServer
  | WaitServer
  | CreateFile string
  | WriteFile string
  | CloseFile
  | PrintConsole string

datatype ra_exit = Returned | Fatal string | Panicked go_panic

record ra_env =
  re_wd :: "go_error + string list"
  re_hasMod :: "string list \<Rightarrow> bool"
  re_build :: "go_error option"
  re_start :: "go_error option"
  re_entries :: "(string \<times> bytes option) list option"
  re_Unmarshal :: "bytes \<Rightarrow> result option"
  re_create :: "go_error option"

text \<open>\<open>generateReport\<close> as a whole, on the directory after the runs.\<close>

definition write_report :: "ra_env \<Rightarrow> string \<Rightarrow> ra_action list \<times> ra_exit" where
  "write_report env dir =
     (case generateReport (loadResults (re_Unmarshal env) (re_entries env)) of
        Ok None \<Rightarrow> ([], Returned)
      | Ok (Some sds) \<Rightarrow>
          let htmlPath = dir @ ''/heatmap.html''
          in (case re_create env of
                Some err \<Rightarrow> ([CreateFile htmlPath], Fatal ''create html'')
              | None \<Rightarrow>
                  ([CreateFile htmlPath, WriteFile (heatmap_html sds), PrintConsole (printConsoleSummary sds), CloseFile], Returned))
      | Panic p \<Rightarrow> ([], Panicked p)
      | _ \<Rightarrow> ([], Returned))"

text \<open>The deferred calls, the last one first.\<close>

definition deferred :: "ra_action list" where
  "deferred = [DelQdisc [''sudo'', ''tc'', ''qdisc'', ''del'', ''dev'', ''lo'', ''root''], KillServer, WaitServer]"

definition runall_main :: "ra_env \<Rightarrow> ra_action list \<times> ra_exit" where
  "runall_main env =
     (case findRoot (re_hasMod env) (re_wd env) of
        Inl msg \<Rightarrow> ([], Fatal msg)
      | Inr proj \<Rightarrow>
          let testerDir = proj @ [''stress_tester''];
              benchBin = path_text (testerDir @ [''stress_tester'']);
              resultsDir = ''results'';
              acts = [MkdirAll resultsDir, Build (path_text testerDir) [''go'', ''build'', ''-o'', benchBin, ''.'']]
          in if re_build env \<noteq> None then (acts, Fatal ''build failed'')
             else
               let acts = acts @ [StartServer [''sudo'', benchBin, ''server'', ''-addr'', ''127.0.0.1:8181'']]
               in if re_start env \<noteq> None then (acts, Fatal ''server start'')
                  else
                    let acts = acts @ [Sleep (2 * Second)] @ map RunBench (runall_commands benchBin resultsDir);
                        (report, exit) = write_report env resultsDir
                    in (acts @ report @ (case exit of Fatal msg \<Rightarrow> [] | _ \<Rightarrow> deferred), exit))"

section \<open>Lemmas\<close>

lemma findRoot_from_snoc: "\<not> hasMod (ds @ [c]) \<Longrightarrow> findRoot_from hasMod (ds @ [c]) = findRoot_from hasMod ds"
  by (subst findRoot_from.simps) simp

text \<open>The project is the innermost directory above the working directory that has a \<open>go.mod\<close>.\<close>

lemma findRoot_from_iff:
  "findRoot_from hasMod dir = Some proj \<longleftrightarrow>
     prefix proj dir \<and> hasMod proj \<and> (\<forall>d. prefix d dir \<and> hasMod d \<longrightarrow> prefix d proj)"
proof (induction hasMod dir rule: findRoot_from.induct)
  case (1 hasMod dir)
  show ?case
  proof (cases "hasMod dir")
    case True
    then have "findRoot_from hasMod dir = Some dir" by (simp add: findRoot_from.simps)
    with True show ?thesis by (metis option.inject prefix_order.eq_iff)
  next
    case no: False
    show ?thesis
    proof (cases "butlast dir = dir")
      case True
      then have "dir = []" by (cases dir rule: rev_cases) auto
      with no True show ?thesis by (auto simp: findRoot_from.simps)
    next
      case False
      then obtain ds c where dir: "dir = ds @ [c]" by (cases dir rule: rev_cases) auto
      have below: "prefix d dir \<and> hasMod d \<longleftrightarrow> prefix d ds \<and> hasMod d" for d using no dir by auto
      have "findRoot_from hasMod dir = findRoot_from hasMod ds"
        using no dir by (simp add: findRoot_from_snoc)
      with 1 [OF no refl False] below show ?thesis by (auto simp: dir)
    qed
  qed
qed

lemma findRoot_from_none: "findRoot_from hasMod dir = None \<longleftrightarrow> (\<forall>d. prefix d dir \<longrightarrow> \<not> hasMod d)"
proof (induction hasMod dir rule: findRoot_from.induct)
  case (1 hasMod dir)
  show ?case
  proof (cases "hasMod dir \<or> butlast dir = dir")
    case True
    have "dir = []" if "butlast dir = dir" using that by (cases dir rule: rev_cases) auto
    with True show ?thesis by (auto simp: findRoot_from.simps)
  next
    case False
    then obtain ds c where dir: "dir = ds @ [c]" by (cases dir rule: rev_cases) auto
    with 1 [OF _ refl] False show ?thesis by (auto simp: findRoot_from_snoc)
  qed
qed

text \<open>The payload size is read out of a file name in which \<open>_pay\<close> occurs once.\<close>

lemma Split_at_free: "\<forall>i < length s. \<not> HasPrefix (drop i s) sep \<Longrightarrow> Split_at sep acc s = [acc @ s]"
proof (induction s arbitrary: acc)
  case (Cons c s)
  have "\<not> HasPrefix (c # s) sep" using Cons.prems by force
  moreover have "\<forall>i < length s. \<not> HasPrefix (drop i s) sep" using Cons.prems by (metis Suc_less_eq drop_Suc_Cons length_Cons)
  ultimately show ?case using Cons.IH by simp
qed simp

lemma Split_at_first:
  assumes "sep \<noteq> []" and "\<forall>i < length a. \<not> HasPrefix (drop i (a @ sep @ b)) sep"
  shows "Split_at sep acc (a @ sep @ b) = (acc @ a) # Split_at sep [] b"
  using assms(2)
proof (induction a arbitrary: acc)
  case Nil
  obtain c s where "sep = c # s" using assms(1) by (cases sep) auto
  then show ?case by (simp add: HasPrefix_def)
next
  case (Cons c a)
  have "\<not> HasPrefix (c # a @ sep @ b) sep" using Cons.prems by force
  moreover have "\<forall>i < length a. \<not> HasPrefix (drop i (a @ sep @ b)) sep"
    using Cons.prems by (metis Suc_less_eq append_Cons drop_Suc_Cons length_Cons)
  ultimately show ?case using Cons.IH by simp
qed

lemma TrimSuffix_append: "TrimSuffix (s @ suf) suf = s"
  by (simp add: TrimSuffix_def HasSuffix_def)

lemma extractPayload_name:
  assumes "\<forall>i < length a. \<not> HasPrefix (drop i (a @ ''_pay'' @ b)) ''_pay''" and "\<forall>i < length b. \<not> HasPrefix (drop i b) ''_pay''"
  shows "extractPayload (a @ ''_pay'' @ b @ ''.json'') = b"
proof -
  have "TrimSuffix (a @ ''_pay'' @ b @ ''.json'') ''.json'' = a @ ''_pay'' @ b"
    using TrimSuffix_append [of "a @ ''_pay'' @ b"] by simp
  moreover have "Split_at ''_pay'' [] (a @ ''_pay'' @ b) = [a, b]"
    using Split_at_first [OF _ assms(1)] Split_at_free [OF assms(2)] by simp
  ultimately show ?thesis by (simp add: extractPayload_def)
qed

lemma length_runall_commands: "length (runall_commands benchBin resultsDir) = 100"
  by (simp add: runall_commands_def connectionCounts_def ra_scenarios_def ra_profiles_def payloadSizes_def)

text \<open>
  Once the server runs, all the benchmarks are run, and the emulation is removed and the server killed
  unless the page cannot be created: then the process ends with both left behind.
\<close>

lemma runall_cleans_up:
  assumes "findRoot (re_hasMod env) (re_wd env) = Inr proj" and "re_build env = None" and "re_start env = None"
    and "runall_main env = (acts, exit)"
  shows "length (filter (\<lambda>a. \<exists>c. a = RunBench c) acts) = 100 \<and>
    (suffix deferred acts \<and> (\<forall>msg. exit \<noteq> Fatal msg) \<or>
     exit = Fatal ''create html'' \<and> re_create env \<noteq> None \<and> KillServer \<notin> set acts \<and> (\<forall>c. DelQdisc c \<notin> set acts))"
proof -
  obtain report x where r: "write_report env ''results'' = (report, x)" by (cases "write_report env ''results''")
  let ?bin = "path_text ((proj @ [''stress_tester'']) @ [''stress_tester''])"
  have x: "x = exit" and acts: "acts = [MkdirAll ''results'', Build (path_text (proj @ [''stress_tester''])) [''go'', ''build'', ''-o'', ?bin, ''.''],
      StartServer [''sudo'', ?bin, ''server'', ''-addr'', ''127.0.0.1:8181''], Sleep (2 * Second)] @
      map RunBench (runall_commands ?bin ''results'') @ report @ (case exit of Fatal msg \<Rightarrow> [] | _ \<Rightarrow> deferred)"
    using assms r by (auto simp: runall_main_def Let_def)
  have report: "\<forall>a \<in> set report. (\<forall>c. a \<noteq> RunBench c) \<and> a \<noteq> KillServer \<and> (\<forall>c. a \<noteq> DelQdisc c)"
    "exit = Fatal msg \<Longrightarrow> msg = ''create html'' \<and> re_create env \<noteq> None" for msg
    using r x by (auto simp: write_report_def Let_def split: outcome.splits option.splits)
  have runs: "filter (\<lambda>a. \<exists>c. a = RunBench c) (map RunBench cs) = map RunBench cs" for cs by (induction cs) auto
  have "filter (\<lambda>a. \<exists>c. a = RunBench c) report = []" "filter (\<lambda>a. \<exists>c. a = RunBench c) deferred = []"
    using report(1) by (auto simp: filter_empty_conv deferred_def)
  then have "length (filter (\<lambda>a. \<exists>c. a = RunBench c) acts) = 100"
    unfolding acts by (cases exit) (simp_all add: runs length_runall_commands)
  moreover have "suffix deferred acts" if "\<forall>msg. exit \<noteq> Fatal msg"
    unfolding acts using that by (cases exit) (auto simp: suffix_def)
  moreover have "KillServer \<notin> set acts \<and> (\<forall>c. DelQdisc c \<notin> set acts)" if "exit = Fatal msg" for msg
    unfolding acts using that report(1) by auto
  ultimately show ?thesis using report(2) by blast
qed

end
