(* ===== verification/Spec2Isabelle.thy ===== *)
theory Spec2Isabelle
  imports Rpc_System Proto_Descriptor Zstd_Pools Stream_Slices Stream_Pool Load_Session Report_Files Run_All_Main
begin

text \<open>
  \<^bold>\<open>A verification of qrpc, a remote procedure call framework over QUIC.\<close>

  \<^bold>\<open>The program.\<close> A server (\<open>server.go\<close>) keeps a table of handlers for requests and one for
  events. It accepts connections, the streams of a connection, and runs one read loop per stream:
  a frame (a 4-byte big-endian length, a flag byte, a payload, compressed with zstd when it is
  long) is read, its message unmarshalled, the handler called with a pooled context (\<open>ctx.go\<close>),
  and the response encoded (\<open>internal/encoder.go\<close>) and written back on the same stream. A client
  (\<open>client.go\<close>) dials some connections, each with a multiplexer
  (\<open>transport/quic/client/multiplexer.go\<close>) that opens streams into a round-robin balancer
  (\<open>transport/quic/balancer.go\<close>) and reads each of them. A call takes a channel from a pool,
  stores it under a fresh id in a sharded map (\<open>internal/shardedmap.go\<close>), writes the frame through
  a batcher (\<open>transport/quic/client/batcher.go\<close>) to the next stream, and waits; the read loop that
  finds the response takes the channel out of the map and sends the response to it.

  \<^bold>\<open>The theories\<close>, in the order of their imports:
  \<^item> \<open>Go_Base\<close>: Go's bytes, fixed-width integers, errors and panics as values (\<open>outcome\<close>: a
    result, an error, a panic, or a call that does not return), slices, \<open>sync.Pool\<close>, big-endian integers.
  \<^item> \<open>Wire_Types\<close>, \<open>Proto_Schema\<close>: the flags of \<open>transport/types/flag.go\<close>; \<open>Request\<close> and
    \<open>Response\<close> of \<open>protos/pb/gen/schema.pb.go\<close>, their getters and \<open>Reset\<close>.
  \<^item> \<open>Vt_Wire\<close>, \<open>Vt_Marshal\<close>, \<open>Vt_Unmarshal\<close>, \<open>Vt_Codec\<close>: the generated
    \<open>protos/pb/gen/schema_vtproto.pb.go\<close>, written to a buffer from its end and parsed by nested
    loops with 64-bit varints. \<open>Vt_Wire\<close> is the wire format as a specification; the code
    refines it (\<open>emits\<close>, \<open>parses\<close>). The locale \<open>message_codec\<close> is the contract that the
    frames rely on, and it is interpreted on both message types. Shown: round trips, totality (no
    panic and no endless loop on any input), and that no message is larger than its input allows.
  \<^item> \<open>Proto_Descriptor\<close>: the descriptor that \<open>schema.pb.go\<close> embeds, its registration, and the reflection
    methods. A reference reader and a reference encoder of the protocol-buffer language show that the
    descriptor, the struct tags and the marshalling code agree, byte for byte.
  \<^item> \<open>Sharded_Map\<close>: the 256 shards implement one map, for every sequence of operations.
  \<^item> \<open>Stream_Balancer\<close>: the snapshot and its 32-bit counter: what is returned is a stream of
    the snapshot, and a round of calls returns every stream once.
  \<^item> \<open>Write_Batcher\<close>: every sequence of operations writes exactly what direct writes would.
  \<^item> \<open>Object_Pools\<close>: the pools of messages; what they hold is always reset.
  \<^item> \<open>Frame_Encoder\<close>, \<open>Frame_Reader\<close>: \<open>encodeMessage\<close> and its pooled buffers; reading a
    frame, which both read loops do in the same words. The locale \<open>framed_codec\<close> joins codec,
    encoder and reader, and \<open>wire_stack\<close> gives it for requests, events and responses on either
    side. Shown: a frame that was encoded is read back as its message, and exactly when a frame is
    read at all.
  \<^item> \<open>Zstd_Pools\<close>: the pools of zstd encoders and decoders, with objects that have a state of their own.
    Interleaved calls give what \<open>CompressZstd\<close> and \<open>DecompressZstd\<close> of \<open>Frame_Encoder\<close> give; \<open>New\<close> panics
    on an error of the library, and only where no pooled object is at hand.
  \<^item> \<open>Rpc_Ctx\<close>: contexts, locals and headers; locals never leak from one request to the next,
    headers can be read back, and the exact condition under which \<open>GetHeader\<close> panics.
  \<^item> \<open>Rpc_Server\<close>: \<open>streamReadCycle\<close> as a recursion over the bytes of the stream, with the
    whole of both cases of its switch. \<open>serve_spec\<close> is the abstract service (a list of messages
    to a list of responses, through the handlers), and the loop refines it. Any input, also a
    hostile one, ends the loop by an exit of the code and never by a panic of its own.
  \<^item> \<open>Server_Start\<close>: \<open>NewServer\<close>, and the life of the server after it: the iterations of all its loops
    and the calls of \<open>AddHandler\<close> in any order. They refine a service on messages alone, and a request
    that is read before its handler is added is shown to end its stream.
  \<^item> \<open>Go_Memory\<close>, \<open>Shared_Messages\<close>: slices as references into shared arrays, with \<open>append\<close>; the pooled
    messages of the server in that memory, unmarshalled and released as the code does it.
  \<^item> \<open>Server_Streams\<close>, \<open>Stream_Slices\<close>: the loops of several streams, step by step, over the shared pools
    and memory. For handlers that pass new slices every stream is served as if it were alone, for
    every schedule; slices stay within their arrays for any handlers; a handler that answers with
    its request's own bytes is shown to send those of another stream.
  \<^item> \<open>Stream_Multiplexer\<close>: \<open>start\<close> with its 16-bit counter, the read loop and its dispatch,
    the writes, \<open>Close\<close>. A response reaches the channel of its call, anything else leaves the
    waiting calls alone, with one exception: a request frame with the id of a waiting call panics.
  \<^item> \<open>Rpc_Client\<close>: \<open>NewClient\<close>, \<open>SendRequest\<close> (up to its wait, and the wait), \<open>SendEvent\<close>,
    \<open>Close\<close>, on every branch.
  \<^item> \<open>Client_Calls\<close>: the calls of one client as an inductive step relation over the operations
    above (send, arrival of a frame, return, cancellation), with an invariant by rule induction:
    while no call is cancelled, a call only ever returns a response with its own id, and a
    cancelled call is shown to break this.
  \<^item> \<open>Rpc_System\<close>: the client of \<open>Client_Calls\<close> and the server of \<open>Server_Start\<close> joined by reliable streams,
    as one step relation. Its invariant says of every request where it is: on its way, served and
    answered on a stream, or delivered. Shown: every concurrent call returns what the handler made of
    its own request, and no pending call is ever stuck as long as the handlers do their part.
  \<^item> this theory: one call from end to end, client, server and client again.

  The stress tester is a client of the library, with its own programs:
  \<^item> \<open>Go_Float\<close>, \<open>Go_Format\<close>: \<open>float64\<close> arithmetic as exact arithmetic followed by IEEE rounding, whose laws
    (monotone, exact on integers up to \<open>2 ^ 53\<close>) are the locale \<open>rounding\<close>; and the formatting of numbers,
    which is shown to print the rounded value.
  \<^item> \<open>Stress_Config\<close>: the records and default tables of \<open>config.go\<close>, the merge of profiles and their names.
  \<^item> \<open>Duration_Text\<close>: \<open>Duration.String\<close> and \<open>ParseDuration\<close>, and the JSON form of \<open>config.Duration\<close>, which
    is shown to be read back exactly although fractions are parsed in floating point.
  \<^item> \<open>Net_Emulator\<close>: \<open>netem.go\<close>, over the command \<open>tc\<close>, whose effect on the interface is the contract
    \<open>tc_netem\<close>. Shown: \<open>Clean\<close> always cleans, \<open>Apply\<close> installs exactly the profile or nothing, and what
    it returns without the privilege.
  \<^item> \<open>Metrics_Collector\<close>: the report of \<open>collector.go\<close>. Its counts and its distribution are exact, and
    its percentiles and rates are sound in spite of rounding.
  \<^item> \<open>Report_Files\<close>: the files of \<open>collector.go\<close>, with the encoding of \<open>encoding/csv\<close>; a reference reader
    reads back what was saved.
  \<^item> \<open>Load_Figures\<close>: the knee points and the formatting of figures of \<open>loader.go\<close>.
  \<^item> \<open>Load_Generator\<close>: payloads, retries and the worker loop of \<open>loader.go\<close>; the requests of every
    default scenario fit a frame and go out through the client of \<open>Rpc_Client\<close>.
  \<^item> \<open>Stream_Pool\<close>: the pool of \<open>loader.go\<close> as a transition system with its invariant.
  \<^item> \<open>Bench_Server\<close>: the handlers of \<open>benchserver.go\<close> on the server of \<open>Rpc_Server\<close>, and the gRPC client
    and handler. Shown: a worker's call is answered with 200 and counted, over both ends of the wire.
  \<^item> \<open>Grpc_Service\<close>: \<open>service.go\<close>, \<open>server.go\<close> of gRPC and the certificates of \<open>tls.go\<close>; the generated client
    reaches the registered server, and a call over gRPC counts as a success.
  \<^item> \<open>Load_Session\<close>: the creation of the client, and the goroutines of a load generator with their clock,
    flag and context. Every interleaving leaves a collector that \<open>Load_Generator\<close> computes; \<open>Run\<close> is shown
    not to wait for its workers.
  \<^item> \<open>Scenario_Runner\<close>, \<open>Bench_Main\<close>: \<open>runner.go\<close> and \<open>stress_tester/main.go\<close>. Shown: what the command
    \<open>run\<close> reports for any flags, that it cleans up, and that an interrupted run does not.
  \<^item> \<open>Bench_Summary\<close>: what \<open>stress_tester/main.go\<close> prints; printing never panics and the bars fit.
  \<^item> \<open>Run_All\<close>, \<open>Heat_Map\<close>: \<open>runall_stress/main.go\<close>, its runs and tables, and its page and console output;
    two theorems show what its tables really compare, and the colours are shown to be well formed.
  \<^item> \<open>Run_All_Main\<close>: its \<open>main\<close>, with the search for the project, the processes and the deferred calls, and
    when those are not run.

  \<^bold>\<open>Parameters.\<close> Code outside the repository is an argument of the definitions, with what the
  program relies on in the assumptions of a locale and a concrete instance as interpretation. The
  three functions of \<open>protohelpers\<close> are in \<open>vt_helpers\<close> and \<open>vt_helpers_skip\<close> (varint sizes
  and writing, \<open>Skip\<close> making progress); the compressor is in \<open>zstd_lib\<close> (a decompressed frame
  is what was compressed), and its encoder and decoder objects in \<open>zstd_object_lib\<close> (a result depends
  on the input alone). A QUIC stream that is read is its bytes with the error that ends it
  (\<open>instream\<close>); a write is a function that may fail. The choices of \<open>sync.Pool\<close> and of the random
  generator, the clock, the results of \<open>OpenStream\<close> and of dialling, and the users' handlers are
  arguments over which every statement is quantified. The command \<open>tc\<close> is a function of its
  arguments and the state of the system, with its contract in \<open>tc_netem\<close>. The cryptographic libraries are
  in \<open>crypto_lib\<close>, the transport of gRPC in \<open>grpc_transport\<close>, the strings of JSON in \<open>json_lib\<close>. A handler is a function from its world and
  context to a panic or to the operations it performs on the context.

  \<^bold>\<open>Bounds.\<close> Integers keep their width where the code lets them wrap: lengths of frames and
  the counters of the balancers have 32 bits, the counter of streams 16, request ids and varints
  64. Round trips assume what Go guarantees of slices (fewer than \<open>2 ^ 63\<close> bytes) and what the
  header can hold (fewer than \<open>2 ^ 32\<close> bytes of payload and flag). There is no fuel: each loop is
  total because it consumes bytes of its stream, elements of a list, or digits of a varint. The
  field loop of \<open>UnmarshalVT\<close> would repeat for ever where \<open>Skip\<close> returns 0; the model has the
  outcome \<open>Diverge\<close> there, and the contract of \<open>Skip\<close> excludes it.

  \<^bold>\<open>Not modelled.\<close> Backing arrays are shared in \<open>Server_Streams\<close> and \<open>Stream_Slices\<close> only, where the
  server's messages are; elsewhere a slice is its contents. Handlers there keep no world of their
  own. The log has no effect on the values here, and the configurations of QUIC and TLS are passed
  to libraries that are parameters. The protobuf runtime is a parameter of
  \<open>Proto_Descriptor\<close>, and \<open>String\<close> of the messages, which only calls it, is left out. A goroutine's atomic steps are whole
  operations: one operation on the map, the balancer, a pool or a stream is one step, which is what
  their locks and atomics give; the tables of handlers have no lock, and what the runtime does when
  one is written and read at the same time is outside the model. Of the stress tester the parsing
  of flags, the processes themselves, the JSON encoding of records and the log are left out. Floating-point values are finite, and a
  multiplication is taken not to be fused with an addition, as on amd64.
\<close>

section \<open>Lemmas\<close>

text \<open>
  The three parts of a call, each on the code of one component: the client sends, the server
  serves, the client's read loop hands the response over.
\<close>

lemma client_sends:
  assumes E: "client_stack E" and inv: "calls_inv (cl, P)" and s: "sendable E impl cl m'"
    and new: "rq_RequestId m' \<notin> fst ` P"
  obtains ch cl1 s where "SendRequest_begin E impl cl = (Ok (ch, rq_RequestId m'), cl1)"
    and "c_out (cl_cst cl1) = (c_out (cl_cst cl))(s := c_out (cl_cst cl) s @ [request_wire (m_zstd E) m'])"
    and "c_ok (cl_cst cl1)" and "waiting cl1 (rq_RequestId m') = Some (RespChan ch)"
    and "c_chans (cl_cst cl1) ch = None"
proof -
  note I = calls_invD [OF inv]
  obtain m l i st where "ri_req impl = Some m" "ri_locals impl = Some l"
    "m' = fst (assign_id E m cl)" "rq_RequestId m' \<noteq> 0" "request_ok m'" "next_route cl i st"
    "\<forall>t. m_deadline E st t = None" "m_write E st (c_out (cl_cst cl) st) (request_wire (m_zstd E) m') = None"
    using s unfolding sendable_def by blast
  from client_stack.SendRequest_begin_ok [OF E I(1,2) this(1-6)] this(7,8) obtain ch cl1 where
    b: "SendRequest_begin E impl cl = (Ok (ch, rq_RequestId m'), cl1)" "cl_ok cl1"
      "waiting cl1 = (waiting cl)(rq_RequestId m' \<mapsto> RespChan ch)"
      "c_out (cl_cst cl1) = (c_out (cl_cst cl))(st := c_out (cl_cst cl) st @ [request_wire (m_zstd E) m'])"
    by blast
  have w: "waiting cl1 (rq_RequestId m') = Some (RespChan ch)" using b(3) by simp
  have "calls_inv (cl1, insert (rq_RequestId m', ch) P)"
    by (rule client_stack.inv_send [OF E inv s b(1) new])
  from calls_invD(6) [OF this w] have "c_chans (cl_cst cl1) ch = None" by auto
  with that [OF b(1,4)] b(2) w show thesis by (simp add: cl_ok_def)
qed

lemma client_hands_over:
  assumes "client_stack E" and "mux_ok mx" and "c_ok st" and "response_ok r"
    and "sm_lookup (c_map st) (rs_RequestId r) = Some (RespChan ch)" and "c_chans st ch = None"
  obtains mx' st' where "readCycle E s \<lparr>in_bytes = response_wire (m_zstd E) r @ rest, in_err = e\<rparr> (mx, st) =
      readCycle E s \<lparr>in_bytes = rest, in_err = e\<rparr> (mx', st')"
    and "c_chans st' ch = Some r"
proof -
  obtain mx' st' where v: "c_view st' = fold deliver [r] (c_view st)"
    and l: "readCycle_loop E s \<lparr>in_bytes = concat (map (response_wire (m_zstd E)) [r]) @ rest, in_err = e\<rparr> (mx, st) =
      readCycle_loop E s \<lparr>in_bytes = rest, in_err = e\<rparr> (mx', st')"
    using client_stack.loop_delivers [OF assms(1-3), of "[r]" s rest e] assms(4) by auto
  have "c_chans st' ch = Some r" using v assms(5,6) by (simp add: c_view_def deliver_def)
  moreover have "readCycle E s \<lparr>in_bytes = response_wire (m_zstd E) r @ rest, in_err = e\<rparr> (mx, st) =
      readCycle E s \<lparr>in_bytes = rest, in_err = e\<rparr> (mx', st')"
    using l by (simp add: readCycle_def)
  ultimately show thesis using that by blast
qed

section \<open>Properties\<close>

text \<open>
  C1. End to end: a call returns what the handler on the server made of its request. The client
  sends the request: one frame on one of its streams, some bytes \<open>qb\<close>. A server that has a handler
  for the method and reads \<open>qb\<close> from a stream, whatever follows on it, writes one frame, some bytes
  \<open>rb\<close>, and goes on. A read loop of the client that reads \<open>rb\<close>, on any stream and whatever follows
  on it, goes on and leaves the client in a state in which the call can receive: it returns the
  handler's response, which carries the id of the request. This holds whatever other calls are
  pending, whatever the pools of both sides hold and whichever objects they hand out.
\<close>

theorem call_returns_handler_response:
  assumes "vt_helpers (m_ph E)" and "zstd_lib (m_zstd E)" and "vt_helpers (e_ph S)" and "e_zstd S = m_zstd E"
    and "\<forall>out b. e_write S out b = None"
    and "calls_inv (cl, P)" and "sendable E impl cl m'" and "rq_RequestId m' \<notin> fst ` P"
    and "pools_ok st" and "handlers srv (rq_Method m') = Some h"
    and "call_handler h (sv_world st) m' = (Ok r, w)" and "response_ok r" and "mux_ok mx"
  shows "\<exists>ch cl1 s qb rb. SendRequest_begin E impl cl = (Ok (ch, rq_RequestId m'), cl1) \<and>
    c_out (cl_cst cl1) = (c_out (cl_cst cl))(s := c_out (cl_cst cl) s @ [qb]) \<and>
    (\<forall>rest e. \<exists>st'. sv_out st' = sv_out st @ [rb] \<and> sv_world st' = w \<and> pools_ok st' \<and>
       streamReadCycle S srv (Some \<lparr>in_bytes = qb @ rest, in_err = e\<rparr>) st =
       streamReadCycle S srv (Some \<lparr>in_bytes = rest, in_err = e\<rparr>) st') \<and>
    (\<forall>s' rest e. \<exists>mx' st' cl2.
       readCycle E s' \<lparr>in_bytes = rb @ rest, in_err = e\<rparr> (mx, cl_cst cl1) =
         readCycle E s' \<lparr>in_bytes = rest, in_err = e\<rparr> (mx', st') \<and>
       waitResponse Received ch (rq_RequestId m') (cl1\<lparr>cl_cst := st'\<rparr>) = Some (Ok r, cl2)) \<and>
    rs_RequestId r = rq_RequestId m'"
proof -
  have E: "client_stack E" by (rule client_stackI [OF assms(1,2)])
  have S: "server_stack S" using assms(2,3,4) by (simp add: server_stack.intro wire_stack.intro)
  obtain ch cl1 s where c: "SendRequest_begin E impl cl = (Ok (ch, rq_RequestId m'), cl1)"
      "c_out (cl_cst cl1) = (c_out (cl_cst cl))(s := c_out (cl_cst cl) s @ [request_wire (m_zstd E) m'])"
      "c_ok (cl_cst cl1)" "waiting cl1 (rq_RequestId m') = Some (RespChan ch)" "c_chans (cl_cst cl1) ch = None"
    by (rule client_sends [OF E assms(6,7,8)])
  have id: "rs_RequestId r = rq_RequestId m'"
    using assms(11) by (cases rule: call_handler_cases [of h "sv_world st" m']) auto
  have m': "request_ok m'" using assms(7) by (auto simp: sendable_def)
  have sp: "serve_spec srv [Call m'] (sv_world st) = ([r], w, None)" using assms(10,11) by simp
  have server: "\<exists>st'. sv_out st' = sv_out st @ [response_wire (m_zstd E) r] \<and> sv_world st' = w \<and> pools_ok st' \<and>
       streamReadCycle S srv (Some \<lparr>in_bytes = request_wire (m_zstd E) m' @ rest, in_err = e\<rparr>) st =
       streamReadCycle S srv (Some \<lparr>in_bytes = rest, in_err = e\<rparr>) st'" for rest e
    using server_stack.cycle_serves [OF S assms(9) _ sp, of rest e] m' assms(4,5,12) by auto
  have client: "\<exists>mx' st' cl2. readCycle E s' \<lparr>in_bytes = response_wire (m_zstd E) r @ rest, in_err = e\<rparr> (mx, cl_cst cl1) =
         readCycle E s' \<lparr>in_bytes = rest, in_err = e\<rparr> (mx', st') \<and>
       waitResponse Received ch (rq_RequestId m') (cl1\<lparr>cl_cst := st'\<rparr>) = Some (Ok r, cl2)" for s' rest e
  proof (rule client_hands_over [OF E assms(13) c(3) assms(12) _ c(5)])
    show "sm_lookup (c_map (cl_cst cl1)) (rs_RequestId r) = Some (RespChan ch)"
      using c(4) by (simp add: id waiting_def)
    fix mx' st'
    assume "readCycle E s' \<lparr>in_bytes = response_wire (m_zstd E) r @ rest, in_err = e\<rparr> (mx, cl_cst cl1) =
        readCycle E s' \<lparr>in_bytes = rest, in_err = e\<rparr> (mx', st')" and "c_chans st' ch = Some r"
    moreover from this(2) have "\<exists>cl2. waitResponse Received ch (rq_RequestId m') (cl1\<lparr>cl_cst := st'\<rparr>) = Some (Ok r, cl2)"
      by (simp add: waitResponse_def)
    ultimately show ?thesis by blast
  qed
  from c(1,2) server client id show ?thesis by blast
qed

theorem call_returns_handler_response_witness:
  "\<exists>ch cl1 s qb rb. SendRequest_begin demo_menv demo_impl demo_client = (Ok (ch, 300), cl1) \<and>
    c_out (cl_cst cl1) = (c_out (cl_cst demo_client))(s := c_out (cl_cst demo_client) s @ [qb]) \<and>
    (\<forall>rest e. \<exists>st'. sv_out st' = [rb] \<and> sv_world st' = 5 \<and> pools_ok st' \<and>
       streamReadCycle demo_env demo_server (Some \<lparr>in_bytes = qb @ rest, in_err = e\<rparr>) (initial_srv 5) =
       streamReadCycle demo_env demo_server (Some \<lparr>in_bytes = rest, in_err = e\<rparr>) st') \<and>
    (\<forall>s' rest e. \<exists>mx' st' cl2.
       readCycle demo_menv s' \<lparr>in_bytes = rb @ rest, in_err = e\<rparr> (NewMultiplexer NewBalancer, cl_cst cl1) =
         readCycle demo_menv s' \<lparr>in_bytes = rest, in_err = e\<rparr> (mx', st') \<and>
       waitResponse Received ch 300 (cl1\<lparr>cl_cst := st'\<rparr>) = Some (Ok demo_response, cl2)) \<and>
    rs_RequestId demo_response = 300"
proof -
  have id: "rq_RequestId sample_request = 300" by (simp add: sample_request_def)
  have h: "handlers demo_server (rq_Method sample_request) = Some echo_handler"
    by (simp add: demo_server_def AddHandler_def AddEventHandler_def sample_request_def gostr_def)
  have r: "call_handler echo_handler 5 sample_request = (Ok demo_response, 5)"
    by (simp add: call_handler_def echo_handler_def fresh_ctx_def Ctx_SetCode_def Ctx_SetBody_def deref_def
        demo_response_def sample_request_def Response_zero_def)
  show ?thesis
    using call_returns_handler_response [of demo_menv demo_env demo_client "{}" demo_impl sample_request
        "initial_srv 5" demo_server echo_handler demo_response 5 "NewMultiplexer NewBalancer"]
      calls_inv_idle [OF demo_client_idle] demo_sendable h r demo_ok(2)
    by (simp add: id ref.vt_helpers_axioms ref_z.zstd_lib_axioms pools_ok_initial mux_ok_new)
qed

end
